(* ===== verification/Prelude.thy ===== *)
theory Prelude
  imports Main "HOL-Library.Word"
begin

text \<open>
  Shared vocabulary of the development: machine-level types (bytes, counted
  strings, sizes, C integers) and the nginx status codes the connector compares
  against.  The collection \<open>engine_call\<close> holds the equations that turn a call of
  a libcoraza wrapper into the event it leaves in the history.
\<close>

named_theorems engine_call

section \<open>Machine types\<close>

type_synonym u_char = "8 word"
type_synonym bytes = "u_char list"
type_synonym ngx_str = bytes
type_synonym size_t = "64 word"
type_synonym ngx_int = int

text \<open>
  A literal of the source (\<open>ngx_string("Location")\<close>) as the bytes it denotes.
\<close>

definition ngx_string :: "string \<Rightarrow> bytes" where
  "ngx_string s = map of_char s"

text \<open>The case folding of nginx: ASCII letters only.\<close>

definition ngx_tolower :: "u_char \<Rightarrow> u_char" where
  "ngx_tolower c = (if c \<ge> 0x41 \<and> c \<le> 0x5a then c + 0x20 else c)"

abbreviation INT_MAX :: nat where
  "INT_MAX \<equiv> 2147483647"

text \<open>
  The implicit conversion of a \<open>size_t\<close> length to a C \<open>int\<close> parameter: the
  low 32 bits, read as two's complement.
\<close>

definition c_int :: "nat \<Rightarrow> int" where
  "c_int n = sint (word_of_nat n :: 32 word)"

lemma c_int_exact [simp]: "n \<le> INT_MAX \<Longrightarrow> c_int n = int n"
  by (simp add: c_int_def signed_of_nat signed_take_bit_int_eq_self)

section \<open>nginx status codes\<close>

text \<open>
  The values of \<open>ngx_core.h\<close> and \<open>ngx_http_request.h\<close> that the connector
  returns or tests.
\<close>

abbreviation NGX_OK :: int where "NGX_OK \<equiv> 0"
abbreviation NGX_ERROR :: int where "NGX_ERROR \<equiv> - 1"
abbreviation NGX_AGAIN :: int where "NGX_AGAIN \<equiv> - 2"
abbreviation NGX_DONE :: int where "NGX_DONE \<equiv> - 4"
abbreviation NGX_DECLINED :: int where "NGX_DECLINED \<equiv> - 5"

abbreviation NGX_HTTP_SWITCHING_PROTOCOLS :: int where "NGX_HTTP_SWITCHING_PROTOCOLS \<equiv> 101"
abbreviation NGX_HTTP_SPECIAL_RESPONSE :: int where "NGX_HTTP_SPECIAL_RESPONSE \<equiv> 300"
abbreviation NGX_HTTP_MOVED_PERMANENTLY :: int where "NGX_HTTP_MOVED_PERMANENTLY \<equiv> 301"
abbreviation NGX_HTTP_MOVED_TEMPORARILY :: int where "NGX_HTTP_MOVED_TEMPORARILY \<equiv> 302"
abbreviation NGX_HTTP_SEE_OTHER :: int where "NGX_HTTP_SEE_OTHER \<equiv> 303"
abbreviation NGX_HTTP_TEMPORARY_REDIRECT :: int where "NGX_HTTP_TEMPORARY_REDIRECT \<equiv> 307"
abbreviation NGX_HTTP_PERMANENT_REDIRECT :: int where "NGX_HTTP_PERMANENT_REDIRECT \<equiv> 308"
abbreviation NGX_HTTP_INTERNAL_SERVER_ERROR :: int where "NGX_HTTP_INTERNAL_SERVER_ERROR \<equiv> 500"

abbreviation NGX_HTTP_HEAD :: nat where "NGX_HTTP_HEAD \<equiv> 4"

abbreviation NGX_HTTP_VERSION_9 :: nat where "NGX_HTTP_VERSION_9 \<equiv> 9"
abbreviation NGX_HTTP_VERSION_10 :: nat where "NGX_HTTP_VERSION_10 \<equiv> 1000"
abbreviation NGX_HTTP_VERSION_11 :: nat where "NGX_HTTP_VERSION_11 \<equiv> 1001"
abbreviation NGX_HTTP_VERSION_20 :: nat where "NGX_HTTP_VERSION_20 \<equiv> 2000"
abbreviation NGX_HTTP_VERSION_30 :: nat where "NGX_HTTP_VERSION_30 \<equiv> 3000"

end
