(* ===== verification/Base.thy ===== *)
theory Base
  imports Prelude
begin

text \<open>
  The data the handlers share (\<open>src/src/ngx_http_coraza_common.h\<close> and the nginx
  structures it uses), the environment, and the state every handler is run on.

  nginx and libcoraza are not part of the sources.  They appear as one record
  of functions, \<open>env\<close>, an argument of every definition that calls them: each
  function takes the history of external events so far and the arguments of the
  call and gives its result.  Since each call appends an event to the history,
  two calls never see the same history, so an \<open>env\<close> describes any behaviour,
  repeatable or not, of the server and of the engine.

  The last section models the wrappers of \<open>src/src/ngx_http_coraza_dl.c\<close>, which
  forward a call to the engine.
\<close>

section \<open>nginx structures\<close>

record ngx_table_elt =
  elt_hash :: nat
  elt_key :: ngx_str
  elt_value :: ngx_str

record ngx_file =
  f_id :: nat
  f_directio :: bool

text \<open>
  A buffer.  \<open>b_data\<close> is the memory between \<open>pos\<close> and \<open>last\<close>, so the source's
  \<open>pos = last\<close> empties it; \<open>b_owner\<close> says whose storage these bytes live in:
  storage of the producer, which it reuses once the buffer is consumed, or the
  request pool.
\<close>

datatype storage = Producer | Request_Pool

record ngx_buf =
  b_data :: bytes
  b_owner :: storage
  b_temporary :: bool
  b_memory :: bool
  b_mmap :: bool
  b_in_file :: bool
  b_file :: "ngx_file option"
  b_file_pos :: int
  b_file_last :: int
  b_temp_file :: bool
  b_last_buf :: bool
  b_last_in_chain :: bool
  b_flush :: bool

definition ngx_buf_in_memory :: "ngx_buf \<Rightarrow> bool" where
  "ngx_buf_in_memory b \<longleftrightarrow> b_temporary b \<or> b_memory b \<or> b_mmap b"

text \<open>\<open>ngx_calloc_buf\<close>: a zeroed buffer.\<close>

definition empty_buf :: ngx_buf where
  "empty_buf = \<lparr>b_data = [], b_owner = Request_Pool, b_temporary = False, b_memory = False,
     b_mmap = False, b_in_file = False, b_file = None, b_file_pos = 0, b_file_last = 0,
     b_temp_file = False, b_last_buf = False, b_last_in_chain = False, b_flush = False\<rparr>"

text \<open>
  \<open>ngx_http_headers_out_t\<close>.  The dedicated fields (\<open>server\<close>, \<open>date\<close>, ...) point
  at elements of the header list: a pointer is the element's index.
\<close>

record headers_out =
  ho_headers :: "ngx_table_elt list"
  ho_server :: "nat option"
  ho_date :: "nat option"
  ho_content_length :: "nat option"
  ho_last_modified :: "nat option"
  ho_content_encoding :: "nat option"
  ho_etag :: "nat option"
  ho_accept_ranges :: "nat option"
  ho_location :: "nat option"
  ho_content_length_n :: int
  ho_content_type :: ngx_str
  ho_content_type_len :: nat
  ho_last_modified_time :: int
  ho_status :: int
  ho_status_line :: ngx_str

record request_body =
  rb_bufs :: "ngx_buf list"
  rb_temp_file :: "(ngx_str \<times> int) option"  \<comment> \<open>name and \<open>file.offset\<close> of the temp file\<close>

datatype sockaddr = AF_UNIX | Inet ngx_str int  \<comment> \<open>printed address and port\<close>

record request =
  r_error_page :: bool
  r_header_sent :: bool
  r_header_only :: bool
  r_is_main :: bool
  r_method :: nat
  r_method_name :: ngx_str
  r_unparsed_uri :: ngx_str
  r_http_version :: nat
  r_client :: sockaddr
  r_headers_in :: "ngx_table_elt list"
  r_headers_out :: headers_out
  r_keepalive :: bool
  r_chunked :: bool
  r_allow_ranges :: bool
  r_gzip_vary :: bool
  r_err_status :: int
  r_filter_need_in_memory :: bool
  r_request_body_in_persistent_file :: bool
  r_request_body_in_file_only :: bool
  r_request_body_in_clean_file :: bool
  r_request_body :: "request_body option"
  r_main_count :: int
  r_write_event_run_phases :: bool

record ngx_http_core_loc_conf =
  server_tokens :: bool
  keepalive_header :: nat
  gzip_vary :: bool

section \<open>Structures of the connector\<close>

text \<open>Engine handles; 0 is the null handle.\<close>

type_synonym tx = nat
type_synonym waf = nat

datatype ngx_http_coraza_rule_type = NGX_CORAZA_RULE_INLINE | NGX_CORAZA_RULE_FILE

record ngx_http_coraza_rule_entry =
  re_type :: ngx_http_coraza_rule_type
  re_value :: ngx_str

record ngx_http_coraza_header =
  h_name :: ngx_str
  h_value :: ngx_str

text \<open>A pointer to a compiled complex value, with the two sentinels of nginx.\<close>

datatype cv_ptr = Cv_Unset | Cv_Null | Cv nat

abbreviation NGX_CONF_UNSET :: int where "NGX_CONF_UNSET \<equiv> - 1"

record ngx_http_coraza_conf =
  lc_waf :: waf
  lc_rules :: nat  \<comment> \<open>address of the rules array; 0 is NULL\<close>
  lc_waf_owner :: bool
  lc_enable :: int
  lc_has_rules :: bool
  lc_delay_response_headers :: int
  lc_transaction_id :: cv_ptr

record coraza_intervention =
  iv_action :: "ngx_str option"
  iv_status :: int
  iv_data :: "ngx_str option"

record ngx_http_coraza_ctx =
  coraza_transaction :: tx
  transaction_id :: ngx_str
  pending_chain :: "ngx_buf list"
  pending_bytes :: nat
  resp_hdr_collect :: "ngx_http_coraza_header list option"
  waiting_more_body :: bool
  body_requested :: bool
  body_submitted :: bool
  processed :: bool
  logged :: bool
  intervention_triggered :: bool
  headers_delayed :: bool
  response_body_processable :: bool

text \<open>\<open>ngx_pcalloc\<close>: a zeroed context.\<close>

definition zero_ctx :: ngx_http_coraza_ctx where
  "zero_ctx = \<lparr>coraza_transaction = 0, transaction_id = [], pending_chain = [], pending_bytes = 0,
     resp_hdr_collect = None, waiting_more_body = False, body_requested = False,
     body_submitted = False, processed = False, logged = False, intervention_triggered = False,
     headers_delayed = False, response_body_processable = False\<rparr>"

section \<open>External events and the environment\<close>

text \<open>
  The calls of the libcoraza interface that act on a transaction.  Lengths are
  carried as the C \<open>int\<close> the callee receives.
\<close>

datatype coraza_call =
    Process_connection ngx_str int ngx_str int
  | Process_uri ngx_str ngx_str ngx_str
  | Add_request_header ngx_str int ngx_str int
  | Add_request_headers bytes int int
  | Process_request_headers
  | Is_request_body_accessible
  | Append_request_body bytes int
  | Process_request_body
  | Add_response_header ngx_str int ngx_str int
  | Add_response_headers bytes int int
  | Process_response_headers int ngx_str
  | Is_response_body_processable
  | Append_response_body bytes int
  | Process_response_body
  | Free_intervention
  | Update_status_code int
  | Process_logging
  | Free_transaction

datatype event =
    Eng tx coraza_call int
  | Polled tx "coraza_intervention option"
  | New_transaction waf "ngx_str option" tx
  | Alloc nat bool
  | Complex_value nat "ngx_str option"
  | Local_sockaddr "sockaddr option"
  | Next_header_filter request int  \<comment> \<open>the request as it was passed on\<close>
  | Next_body_filter "ngx_buf list" int
  | Filter_finalize int int
  | Read_client_body int
  | Run_phases
  | Open_file ngx_str bool
  | Close_file ngx_str
  | Directio nat bool bool
  | Read_file nat int nat "bytes option"

record env =
  eng :: "event list \<Rightarrow> tx \<Rightarrow> coraza_call \<Rightarrow> int"
  eng_intervention :: "event list \<Rightarrow> tx \<Rightarrow> coraza_intervention option"
  eng_new_transaction :: "event list \<Rightarrow> waf \<Rightarrow> ngx_str option \<Rightarrow> tx"
  alloc_ok :: "event list \<Rightarrow> nat \<Rightarrow> bool"
  complex_value :: "event list \<Rightarrow> nat \<Rightarrow> ngx_str option"
  local_sockaddr :: "event list \<Rightarrow> sockaddr option"
  next_header_filter :: "event list \<Rightarrow> request \<Rightarrow> int \<times> request"
  next_body_filter :: "event list \<Rightarrow> request \<Rightarrow> ngx_buf list \<Rightarrow> int \<times> request"
  filter_finalize :: "event list \<Rightarrow> request \<Rightarrow> int \<Rightarrow> int \<times> request"
  read_client_body :: "event list \<Rightarrow> request \<Rightarrow> int \<times> bool \<times> request"
  open_file :: "event list \<Rightarrow> ngx_str \<Rightarrow> bool"
  read_file :: "event list \<Rightarrow> nat \<Rightarrow> nat \<Rightarrow> int \<Rightarrow> bytes option"
  read_temp :: "event list \<Rightarrow> ngx_str \<Rightarrow> nat \<Rightarrow> int \<Rightarrow> bytes option"
  set_directio :: "event list \<Rightarrow> nat \<Rightarrow> bool \<Rightarrow> bool"
  http_time :: "int \<Rightarrow> ngx_str"
  nginx_ver :: ngx_str

section \<open>The state of a request\<close>

text \<open>
  One request as the module's handlers see it.  \<open>ctxs\<close> is the store of the
  contexts allocated in the request pool; \<open>module_ctx\<close> is \<open>r->ctx[module]\<close>, the
  address in that store or NULL; \<open>cleanups\<close> are the pool cleanups registered
  with \<open>ngx_http_coraza_cleanup\<close>, by the context they get.  \<open>mcf\<close> and \<open>main_waf\<close>
  are the location configuration and the handle of the main configuration;
  \<open>cached_http_time\<close> is nginx's clock string, which no handler changes.
\<close>

record world =
  req :: request
  mcf :: "ngx_http_coraza_conf option"
  clcf :: ngx_http_core_loc_conf
  cached_http_time :: ngx_str
  main_waf :: waf
  ctxs :: "nat \<Rightarrow> ngx_http_coraza_ctx"
  next_ctx :: nat
  module_ctx :: "nat option"
  cleanups :: "nat list"
  pool_alive :: bool
  trace :: "event list"

definition emit :: "event \<Rightarrow> world \<Rightarrow> world" where
  "emit e w = w\<lparr>trace := trace w @ [e]\<rparr>"

definition upd_ctx :: "nat \<Rightarrow> (ngx_http_coraza_ctx \<Rightarrow> ngx_http_coraza_ctx) \<Rightarrow> world \<Rightarrow> world" where
  "upd_ctx i f w = w\<lparr>ctxs := (ctxs w)(i := f (ctxs w i))\<rparr>"

definition upd_req :: "(request \<Rightarrow> request) \<Rightarrow> world \<Rightarrow> world" where
  "upd_req f w = w\<lparr>req := f (req w)\<rparr>"

definition upd_headers_out :: "(headers_out \<Rightarrow> headers_out) \<Rightarrow> world \<Rightarrow> world" where
  "upd_headers_out f w = upd_req (\<lambda>r. r\<lparr>r_headers_out := f (r_headers_out r)\<rparr>) w"

lemma emit_sel [simp]:
  "req (emit e w) = req w" "mcf (emit e w) = mcf w" "clcf (emit e w) = clcf w"
  "cached_http_time (emit e w) = cached_http_time w"
  "main_waf (emit e w) = main_waf w" "ctxs (emit e w) = ctxs w"
  "next_ctx (emit e w) = next_ctx w" "module_ctx (emit e w) = module_ctx w"
  "cleanups (emit e w) = cleanups w" "pool_alive (emit e w) = pool_alive w"
  "trace (emit e w) = trace w @ [e]"
  by (simp_all add: emit_def)

lemma upd_ctx_sel [simp]:
  "req (upd_ctx i f w) = req w" "mcf (upd_ctx i f w) = mcf w" "clcf (upd_ctx i f w) = clcf w"
  "cached_http_time (upd_ctx i f w) = cached_http_time w"
  "main_waf (upd_ctx i f w) = main_waf w"
  "ctxs (upd_ctx i f w) = (ctxs w)(i := f (ctxs w i))"
  "next_ctx (upd_ctx i f w) = next_ctx w" "module_ctx (upd_ctx i f w) = module_ctx w"
  "cleanups (upd_ctx i f w) = cleanups w" "pool_alive (upd_ctx i f w) = pool_alive w"
  "trace (upd_ctx i f w) = trace w"
  by (simp_all add: upd_ctx_def)

lemma upd_req_sel [simp]:
  "req (upd_req g w) = g (req w)" "mcf (upd_req g w) = mcf w" "clcf (upd_req g w) = clcf w"
  "cached_http_time (upd_req g w) = cached_http_time w"
  "main_waf (upd_req g w) = main_waf w" "ctxs (upd_req g w) = ctxs w"
  "next_ctx (upd_req g w) = next_ctx w" "module_ctx (upd_req g w) = module_ctx w"
  "cleanups (upd_req g w) = cleanups w" "pool_alive (upd_req g w) = pool_alive w"
  "trace (upd_req g w) = trace w"
  by (simp_all add: upd_req_def)

lemma upd_headers_out_sel [simp]:
  "req (upd_headers_out g w) = (req w)\<lparr>r_headers_out := g (r_headers_out (req w))\<rparr>"
  "mcf (upd_headers_out g w) = mcf w" "clcf (upd_headers_out g w) = clcf w"
  "cached_http_time (upd_headers_out g w) = cached_http_time w"
  "main_waf (upd_headers_out g w) = main_waf w" "ctxs (upd_headers_out g w) = ctxs w"
  "next_ctx (upd_headers_out g w) = next_ctx w" "module_ctx (upd_headers_out g w) = module_ctx w"
  "cleanups (upd_headers_out g w) = cleanups w" "pool_alive (upd_headers_out g w) = pool_alive w"
  "trace (upd_headers_out g w) = trace w"
  by (simp_all add: upd_headers_out_def)

section \<open>Calls of the environment\<close>

text \<open>One call of the engine on a transaction: its answer, and the event.\<close>

definition cgo :: "env \<Rightarrow> tx \<Rightarrow> coraza_call \<Rightarrow> world \<Rightarrow> int \<times> world" where
  "cgo E t c w = (let n = eng E (trace w) t c in (n, emit (Eng t c n) w))"

text \<open>An allocation of \<open>n\<close> bytes from the pool or the heap: whether it succeeds.\<close>

definition palloc :: "env \<Rightarrow> nat \<Rightarrow> world \<Rightarrow> bool \<times> world" where
  "palloc E n w = (let b = alloc_ok E (trace w) n in (b, emit (Alloc n b) w))"

definition run_next_header_filter :: "env \<Rightarrow> world \<Rightarrow> int \<times> world" where
  "run_next_header_filter E w =
     (let (rc, r) = next_header_filter E (trace w) (req w)
      in (rc, emit (Next_header_filter (req w) rc) (upd_req (\<lambda>_. r) w)))"

definition run_next_body_filter :: "env \<Rightarrow> ngx_buf list \<Rightarrow> world \<Rightarrow> int \<times> world" where
  "run_next_body_filter E ch w =
     (let (rc, r) = next_body_filter E (trace w) (req w) ch
      in (rc, emit (Next_body_filter ch rc) (upd_req (\<lambda>_. r) w)))"

definition ngx_http_filter_finalize_request :: "env \<Rightarrow> int \<Rightarrow> world \<Rightarrow> int \<times> world" where
  "ngx_http_filter_finalize_request E status w =
     (let (rc, r) = filter_finalize E (trace w) (req w) status
      in (rc, emit (Filter_finalize status rc) (upd_req (\<lambda>_. r) w)))"

section \<open>The libcoraza wrappers\<close>

definition coraza_intervention :: "env \<Rightarrow> tx \<Rightarrow> world \<Rightarrow> coraza_intervention option \<times> world" where
  "coraza_intervention E t w =
     (let iv = eng_intervention E (trace w) t in (iv, emit (Polled t iv) w))"

declare coraza_intervention_def [engine_call]

definition coraza_new_transaction :: "env \<Rightarrow> waf \<Rightarrow> world \<Rightarrow> tx \<times> world" where
  "coraza_new_transaction E v w =
     (let t = eng_new_transaction E (trace w) v None in (t, emit (New_transaction v None t) w))"

definition coraza_new_transaction_with_id :: "env \<Rightarrow> waf \<Rightarrow> ngx_str \<Rightarrow> world \<Rightarrow> tx \<times> world" where
  "coraza_new_transaction_with_id E v s w =
     (let t = eng_new_transaction E (trace w) v (Some s)
      in (t, emit (New_transaction v (Some s) t) w))"

definition coraza_free_transaction :: "env \<Rightarrow> tx \<Rightarrow> world \<Rightarrow> int \<times> world" where
  "coraza_free_transaction E t w = cgo E t Free_transaction w"

definition coraza_free_intervention :: "env \<Rightarrow> tx \<Rightarrow> world \<Rightarrow> int \<times> world" where
  "coraza_free_intervention E t w = cgo E t Free_intervention w"

definition coraza_process_connection ::
  "env \<Rightarrow> tx \<Rightarrow> ngx_str \<Rightarrow> int \<Rightarrow> ngx_str \<Rightarrow> int \<Rightarrow> world \<Rightarrow> int \<times> world" where
  "coraza_process_connection E t addr client_port server server_port w =
     cgo E t (Process_connection addr client_port server server_port) w"

definition coraza_process_uri ::
  "env \<Rightarrow> tx \<Rightarrow> ngx_str \<Rightarrow> ngx_str \<Rightarrow> ngx_str \<Rightarrow> world \<Rightarrow> int \<times> world" where
  "coraza_process_uri E t uri meth proto w = cgo E t (Process_uri uri meth proto) w"

definition coraza_add_request_header ::
  "env \<Rightarrow> tx \<Rightarrow> ngx_str \<Rightarrow> int \<Rightarrow> ngx_str \<Rightarrow> int \<Rightarrow> world \<Rightarrow> int \<times> world" where
  "coraza_add_request_header E t name name_len val val_len w =
     cgo E t (Add_request_header name name_len val val_len) w"

definition coraza_process_request_headers :: "env \<Rightarrow> tx \<Rightarrow> world \<Rightarrow> int \<times> world" where
  "coraza_process_request_headers E t w = cgo E t Process_request_headers w"

definition coraza_append_request_body :: "env \<Rightarrow> tx \<Rightarrow> bytes \<Rightarrow> int \<Rightarrow> world \<Rightarrow> int \<times> world" where
  "coraza_append_request_body E t data len w = cgo E t (Append_request_body data len) w"

definition coraza_process_request_body :: "env \<Rightarrow> tx \<Rightarrow> world \<Rightarrow> int \<times> world" where
  "coraza_process_request_body E t w = cgo E t Process_request_body w"

definition ngx_http_coraza_is_request_body_accessible :: "env \<Rightarrow> tx \<Rightarrow> world \<Rightarrow> int \<times> world" where
  "ngx_http_coraza_is_request_body_accessible E t w = cgo E t Is_request_body_accessible w"

definition coraza_add_response_header ::
  "env \<Rightarrow> tx \<Rightarrow> ngx_str \<Rightarrow> int \<Rightarrow> ngx_str \<Rightarrow> int \<Rightarrow> world \<Rightarrow> int \<times> world" where
  "coraza_add_response_header E t name name_len val val_len w =
     cgo E t (Add_response_header name name_len val val_len) w"

definition coraza_append_response_body :: "env \<Rightarrow> tx \<Rightarrow> bytes \<Rightarrow> int \<Rightarrow> world \<Rightarrow> int \<times> world" where
  "coraza_append_response_body E t data len w = cgo E t (Append_response_body data len) w"

definition coraza_process_response_body :: "env \<Rightarrow> tx \<Rightarrow> world \<Rightarrow> int \<times> world" where
  "coraza_process_response_body E t w = cgo E t Process_response_body w"

definition coraza_process_response_headers ::
  "env \<Rightarrow> tx \<Rightarrow> int \<Rightarrow> ngx_str \<Rightarrow> world \<Rightarrow> int \<times> world" where
  "coraza_process_response_headers E t status proto w =
     cgo E t (Process_response_headers status proto) w"

definition coraza_process_logging :: "env \<Rightarrow> tx \<Rightarrow> world \<Rightarrow> int \<times> world" where
  "coraza_process_logging E t w = cgo E t Process_logging w"

definition coraza_update_status_code :: "env \<Rightarrow> tx \<Rightarrow> int \<Rightarrow> world \<Rightarrow> int \<times> world" where
  "coraza_update_status_code E t code w = cgo E t (Update_status_code code) w"

definition ngx_http_coraza_is_response_body_processable :: "env \<Rightarrow> tx \<Rightarrow> world \<Rightarrow> int \<times> world" where
  "ngx_http_coraza_is_response_body_processable E t w = cgo E t Is_response_body_processable w"

definition coraza_add_request_headers ::
  "env \<Rightarrow> tx \<Rightarrow> bytes \<Rightarrow> int \<Rightarrow> int \<Rightarrow> world \<Rightarrow> int \<times> world" where
  "coraza_add_request_headers E t packed packed_len cnt w =
     cgo E t (Add_request_headers packed packed_len cnt) w"

definition coraza_add_response_headers ::
  "env \<Rightarrow> tx \<Rightarrow> bytes \<Rightarrow> int \<Rightarrow> int \<Rightarrow> world \<Rightarrow> int \<times> world" where
  "coraza_add_response_headers E t packed packed_len cnt w =
     cgo E t (Add_response_headers packed packed_len cnt) w"

lemmas coraza_wrapper_defs [engine_call] =
  coraza_free_transaction_def coraza_free_intervention_def coraza_process_connection_def
  coraza_process_uri_def coraza_add_request_header_def coraza_process_request_headers_def
  coraza_append_request_body_def coraza_process_request_body_def
  ngx_http_coraza_is_request_body_accessible_def coraza_add_response_header_def
  coraza_append_response_body_def coraza_process_response_body_def
  coraza_process_response_headers_def coraza_process_logging_def
  coraza_update_status_code_def ngx_http_coraza_is_response_body_processable_def
  coraza_add_request_headers_def coraza_add_response_headers_def

end
