(* ===== verification/Samples.thy ===== *)
theory Samples
  imports Base
begin

text \<open>
  Concrete instances the witnesses evaluate on: an environment in which every
  call succeeds and no rule matches, and a GET request with one header to a
  location that has \<open>coraza on\<close>.  Witnesses change single fields of them.
\<close>

definition sample_env :: env where
  "sample_env = \<lparr>
     eng = (\<lambda>_ _ c. case c of Is_request_body_accessible \<Rightarrow> 1
                    | Is_response_body_processable \<Rightarrow> 1 | _ \<Rightarrow> 0),
     eng_intervention = (\<lambda>_ _. None),
     eng_new_transaction = (\<lambda>tr _ _. Suc (length tr)),
     alloc_ok = (\<lambda>_ _. True),
     complex_value = (\<lambda>_ _. Some [49]),
     local_sockaddr = (\<lambda>_. Some (Inet [49] 80)),
     next_header_filter = (\<lambda>_ r. (0, r\<lparr>r_header_sent := True\<rparr>)),
     next_body_filter = (\<lambda>_ r _. (0, r)),
     filter_finalize = (\<lambda>_ r s. (s, r)),
     read_client_body = (\<lambda>_ r. (0, True, r)),
     open_file = (\<lambda>_ _. True),
     read_file = (\<lambda>_ _ n _. Some (replicate n 65)),
     read_temp = (\<lambda>_ _ n _. Some (replicate n 65)),
     set_directio = (\<lambda>_ _ _. True),
     http_time = (\<lambda>_. [48]),
     nginx_ver = [118]\<rparr>"

definition sample_headers_out :: headers_out where
  "sample_headers_out = \<lparr>ho_headers = [], ho_server = None, ho_date = None,
     ho_content_length = None, ho_last_modified = None, ho_content_encoding = None,
     ho_etag = None, ho_accept_ranges = None, ho_location = None, ho_content_length_n = 1,
     ho_content_type = [116], ho_content_type_len = 1, ho_last_modified_time = - 1,
     ho_status = 200, ho_status_line = []\<rparr>"

definition sample_request :: request where
  "sample_request = \<lparr>r_error_page = False, r_header_sent = False, r_header_only = False,
     r_is_main = True, r_method = 2, r_method_name = [71], r_unparsed_uri = [47],
     r_http_version = 1001, r_client = Inet [49] 4000,
     r_headers_in = [\<lparr>elt_hash = 1, elt_key = [72], elt_value = [104]\<rparr>],
     r_headers_out = sample_headers_out, r_keepalive = True, r_chunked = False, r_allow_ranges = True,
     r_gzip_vary = False, r_err_status = 0, r_filter_need_in_memory = False,
     r_request_body_in_persistent_file = False, r_request_body_in_file_only = False,
     r_request_body_in_clean_file = False, r_request_body = None, r_main_count = 1,
     r_write_event_run_phases = False\<rparr>"

definition sample_conf :: ngx_http_coraza_conf where
  "sample_conf = \<lparr>lc_waf = 7, lc_rules = 1, lc_waf_owner = True,
     lc_enable = 1, lc_has_rules = True, lc_delay_response_headers = 1,
     lc_transaction_id = Cv_Null\<rparr>"

definition sample_world :: world where
  "sample_world = \<lparr>req = sample_request, mcf = Some sample_conf,
     clcf = \<lparr>server_tokens = True, keepalive_header = 0, gzip_vary = False\<rparr>, cached_http_time = [48],
     main_waf = 1,
     ctxs = (\<lambda>_. zero_ctx), next_ctx = 0, module_ctx = None, cleanups = [], pool_alive = True,
     trace = []\<rparr>"

lemmas sample_defs = sample_env_def sample_headers_out_def sample_request_def sample_conf_def
  sample_world_def zero_ctx_def

text \<open>A memory buffer holding \<open>bs\<close>, owned by its producer.\<close>

definition mem_buf :: "bytes \<Rightarrow> ngx_buf" where
  "mem_buf bs = empty_buf\<lparr>b_data := bs, b_owner := Producer, b_temporary := True\<rparr>"

end
