(* ===== verification/Utils.thy ===== *)
theory Utils
  imports Samples
begin

unbundle bit_operations_syntax

text \<open>
  \<open>src/src/ngx_http_coraza_utils.c\<close>: the conversion of a counted string to a C
  string and the packed header format handed to the bulk entry points of the
  engine.  The packed format is specified by an independent decoder (the one the
  fuzz target \<open>src/fuzz/fuzz_pack_headers.c\<close> asserts against, see \<open>Fuzz\<close>); the round trip is
  proved through the interface \<open>codec\<close>, built up from big-endian numbers to
  counted strings to pairs to sequences.
\<close>

section \<open>Codecs\<close>

text \<open>
  An encoder with a decoder that consumes exactly the encoded prefix, for the
  values that satisfy \<open>fits\<close>.
\<close>

fun decode_n :: "(bytes \<Rightarrow> ('a \<times> bytes) option) \<Rightarrow> nat \<Rightarrow> bytes \<Rightarrow> ('a list \<times> bytes) option" where
  "decode_n dec 0 bs = Some ([], bs)"
| "decode_n dec (Suc n) bs =
     (case dec bs of
        None \<Rightarrow> None
      | Some (x, bs') \<Rightarrow>
          (case decode_n dec n bs' of
             None \<Rightarrow> None
           | Some (xs, bs'') \<Rightarrow> Some (x # xs, bs'')))"

locale codec =
  fixes enc :: "'a \<Rightarrow> bytes"
    and dec :: "bytes \<Rightarrow> ('a \<times> bytes) option"
    and fits :: "'a \<Rightarrow> bool"
  assumes dec_enc: "fits x \<Longrightarrow> dec (enc x @ rest) = Some (x, rest)"
begin

lemma decode_n_enc:
  "(\<And>x. x \<in> set xs \<Longrightarrow> fits x) \<Longrightarrow>
   decode_n dec (length xs) (concat (map enc xs) @ rest) = Some (xs, rest)"
  by (induction xs) (simp_all add: dec_enc)

lemma enc_inj: "fits x \<Longrightarrow> fits y \<Longrightarrow> enc x = enc y \<Longrightarrow> x = y"
  using dec_enc [of x "[]"] dec_enc [of y "[]"] by simp

end

text \<open>A codec for lengths gives one for counted strings.\<close>

definition enc_counted :: "(nat \<Rightarrow> bytes) \<Rightarrow> bytes \<Rightarrow> bytes" where
  "enc_counted enc s = enc (length s) @ s"

definition dec_counted ::
  "(bytes \<Rightarrow> (nat \<times> bytes) option) \<Rightarrow> bytes \<Rightarrow> (bytes \<times> bytes) option" where
  "dec_counted dec bs =
     (case dec bs of
        None \<Rightarrow> None
      | Some (n, bs') \<Rightarrow> if n \<le> length bs' then Some (take n bs', drop n bs') else None)"

locale length_codec = codec enc dec fits
  for enc :: "nat \<Rightarrow> bytes" and dec :: "bytes \<Rightarrow> (nat \<times> bytes) option" and fits :: "nat \<Rightarrow> bool"

sublocale length_codec \<subseteq> counted: codec "enc_counted enc" "dec_counted dec" "\<lambda>s. fits (length s)"
  by unfold_locales (simp add: enc_counted_def dec_counted_def dec_enc)

section \<open>Big-endian lengths\<close>

fun dec_u16 :: "bytes \<Rightarrow> (nat \<times> bytes) option" where
  "dec_u16 (a # b # bs) = Some (unat a * 256 + unat b, bs)"
| "dec_u16 _ = None"

fun dec_u32 :: "bytes \<Rightarrow> (nat \<times> bytes) option" where
  "dec_u32 (a # b # c # d # bs) =
     Some (((unat a * 256 + unat b) * 256 + unat c) * 256 + unat d, bs)"
| "dec_u32 _ = None"

text \<open>
  The byte expressions of the second loop: \<open>(u_char) ((nlen >> 8) & 0xff)\<close> and
  its siblings, on 64-bit sizes.
\<close>

definition byte_at :: "size_t \<Rightarrow> nat \<Rightarrow> u_char" where
  "byte_at x k = ucast (drop_bit k x AND 0xff)"

definition enc_u16 :: "nat \<Rightarrow> bytes" where
  "enc_u16 n = (let x = word_of_nat n in [byte_at x 8, byte_at x 0])"

definition enc_u32 :: "nat \<Rightarrow> bytes" where
  "enc_u32 n = (let x = word_of_nat n in [byte_at x 24, byte_at x 16, byte_at x 8, byte_at x 0])"

lemma unat_byte_at: "unat (byte_at x k) = unat x div 2 ^ k mod 256"
proof -
  have "drop_bit k x AND 0xff = take_bit 8 (drop_bit k x)"
    by (simp add: take_bit_eq_mask mask_numeral)
  moreover have "unat (take_bit 8 (drop_bit k x)) = take_bit 8 (drop_bit k (unat x))"
    by (simp only: unsigned_take_bit_eq unat_drop_bit_eq)
  ultimately have "unat (byte_at x k) = take_bit 8 (drop_bit k (unat x))"
    by (simp only: byte_at_def unsigned_ucast_eq) simp
  then show ?thesis by (simp add: take_bit_eq_mod drop_bit_eq_div)
qed

lemma unat_word_of_nat_64 [simp]: "n < 2 ^ 64 \<Longrightarrow> unat (word_of_nat n :: size_t) = n"
  by (simp add: unat_of_nat)

lemma be_split_32:
  assumes "n < 2 ^ 32"
  shows "((n div 16777216 mod 256 * 256 + n div 65536 mod 256) * 256 + n div 256 mod 256) * 256
           + n mod 256 = (n :: nat)"
proof -
  define m where "m = n div 256"
  define l where "l = m div 256"
  define k where "k = l div 256"
  have "n div 65536 = l" "n div 16777216 = k"
    by (simp_all add: m_def l_def k_def div_mult2_eq [symmetric])
  moreover have "k < 256" using assms unfolding k_def l_def m_def by simp
  ultimately show ?thesis unfolding m_def [symmetric] by (simp add: k_def l_def m_def)
qed

interpretation u16: length_codec enc_u16 dec_u16 "\<lambda>n. n \<le> 0xffff"
proof unfold_locales
  fix n :: nat and rest :: bytes
  assume "n \<le> 0xffff"
  then show "dec_u16 (enc_u16 n @ rest) = Some (n, rest)"
    by (simp add: enc_u16_def Let_def unat_byte_at)
qed

interpretation u32: length_codec enc_u32 dec_u32 "\<lambda>n. n \<le> INT_MAX"
proof unfold_locales
  fix n :: nat and rest :: bytes
  assume "n \<le> INT_MAX"
  then show "dec_u32 (enc_u32 n @ rest) = Some (n, rest)"
    using be_split_32 [of n] by (simp add: enc_u32_def Let_def unat_byte_at)
qed

section \<open>The packed header format\<close>

type_synonym header = ngx_http_coraza_header

text \<open>One turn of the second loop of \<open>ngx_http_coraza_pack_headers\<close>.\<close>

definition pack_pair :: "header \<Rightarrow> bytes" where
  "pack_pair h = enc_u16 (length (h_name h)) @ h_name h @ enc_u32 (length (h_value h)) @ h_value h"

text \<open>
  The first loop: the running total in 64-bit arithmetic, \<open>None\<close> for the two
  \<open>return NGX_ERROR\<close> statements.
\<close>

fun pack_total :: "header list \<Rightarrow> size_t \<Rightarrow> size_t option" where
  "pack_total [] tot = Some tot"
| "pack_total (h # hs) tot =
     (let nlen = word_of_nat (length (h_name h)); vlen = word_of_nat (length (h_value h));
          int_max = word_of_nat INT_MAX in
      if nlen > 0xffff \<or> vlen > int_max then None
      else if tot > int_max - 6 \<or> nlen > int_max - 6 - tot \<or> vlen > int_max - 6 - tot - nlen
      then None
      else pack_total hs (tot + (6 + nlen + vlen)))"

text \<open>
  \<open>None\<close> is \<open>NGX_ERROR\<close>; otherwise \<open>*out\<close> (NULL for an empty set) and
  \<open>*out_len\<close>.
\<close>

definition ngx_http_coraza_pack_headers ::
  "env \<Rightarrow> header list \<Rightarrow> world \<Rightarrow> (bytes option \<times> size_t) option \<times> world" where
  "ngx_http_coraza_pack_headers E pairs w =
     (case pack_total pairs 0 of
        None \<Rightarrow> (None, w)
      | Some tot \<Rightarrow>
          if tot = 0 then (Some (None, 0), w)
          else
            (let (ok, w) = palloc E (unat tot) w in
             if \<not> ok then (None, w)
             else (Some (Some (concat (map pack_pair pairs)), tot), w)))"

text \<open>
  \<open>ngx_str_to_char\<close>: \<open>len + 1\<close> bytes, the string and its terminator.
\<close>

definition ngx_str_to_char :: "env \<Rightarrow> ngx_str \<Rightarrow> world \<Rightarrow> bytes option \<times> world" where
  "ngx_str_to_char E a w =
     (let (ok, w) = palloc E (length a + 1) w in
      if \<not> ok then (None, w) else (Some (a @ [0]), w))"

text \<open>What a C callee reads from a buffer: the bytes up to the first NUL.\<close>

definition c_string :: "bytes \<Rightarrow> bytes" where
  "c_string buf = takeWhile (\<lambda>b. b \<noteq> 0) buf"

section \<open>The decoder the format is specified by\<close>

definition unpack_pair :: "bytes \<Rightarrow> (header \<times> bytes) option" where
  "unpack_pair bs =
     (case dec_counted dec_u16 bs of
        None \<Rightarrow> None
      | Some (n, bs') \<Rightarrow>
          (case dec_counted dec_u32 bs' of
             None \<Rightarrow> None
           | Some (v, bs'') \<Rightarrow> Some (\<lparr>h_name = n, h_value = v\<rparr>, bs'')))"

definition packable :: "header \<Rightarrow> bool" where
  "packable h \<longleftrightarrow> length (h_name h) \<le> 0xffff \<and> length (h_value h) \<le> INT_MAX"

interpretation pair: codec pack_pair unpack_pair packable
proof unfold_locales
  fix h :: header and rest :: bytes
  assume "packable h"
  then have "length (h_name h) \<le> 0xffff" "length (h_value h) \<le> INT_MAX"
    by (simp_all add: packable_def)
  then show "unpack_pair (pack_pair h @ rest) = Some (h, rest)"
    using u16.counted.dec_enc [of "h_name h"] u32.counted.dec_enc [of "h_value h" rest]
    by (simp add: unpack_pair_def pack_pair_def enc_counted_def)
qed

definition packed_size :: "header list \<Rightarrow> nat" where
  "packed_size hs = (\<Sum>h\<leftarrow>hs. 6 + length (h_name h) + length (h_value h))"

lemma packed_size_simps [simp]:
  "packed_size [] = 0"
  "packed_size (h # hs) = 6 + length (h_name h) + length (h_value h) + packed_size hs"
  by (simp_all add: packed_size_def)

lemma length_pack_pair [simp]: "length (pack_pair h) = 6 + length (h_name h) + length (h_value h)"
  by (simp add: pack_pair_def enc_u16_def enc_u32_def Let_def)

lemma length_packed: "length (concat (map pack_pair hs)) = packed_size hs"
  by (induction hs) simp_all

text \<open>Every length of the model is the length of a C object: it fits \<open>size_t\<close>.\<close>

definition sized :: "header \<Rightarrow> bool" where
  "sized h \<longleftrightarrow> length (h_name h) < 2 ^ 64 \<and> length (h_value h) < 2 ^ 64"

text \<open>
  The guards of the first loop, read as natural numbers: no subtraction in them
  wraps, because the earlier disjuncts bound what is subtracted.
\<close>

lemma pack_guard:
  fixes tot :: size_t and n v :: nat
  assumes "n < 2 ^ 64" "v < 2 ^ 64" "unat tot \<le> INT_MAX"
  defines "nlen \<equiv> (word_of_nat n :: size_t)" and "vlen \<equiv> (word_of_nat v :: size_t)"
  shows "\<not> (nlen > 0xffff \<or> vlen > 2147483647) \<and>
         \<not> (tot > 2147483641 \<or> nlen > 2147483641 - tot \<or> vlen > 2147483641 - tot - nlen)
         \<longleftrightarrow> n \<le> 0xffff \<and> unat tot + 6 + n + v \<le> INT_MAX"
    and "unat tot + 6 + n + v \<le> INT_MAX \<Longrightarrow> unat (tot + (6 + nlen + vlen)) = unat tot + 6 + n + v"
proof -
  have u: "unat nlen = n" "unat vlen = v" using assms by simp_all
  show "\<not> (nlen > 0xffff \<or> vlen > 2147483647) \<and>
         \<not> (tot > 2147483641 \<or> nlen > 2147483641 - tot \<or> vlen > 2147483641 - tot - nlen)
         \<longleftrightarrow> n \<le> 0xffff \<and> unat tot + 6 + n + v \<le> INT_MAX"
    using assms(1-3)
    by (auto simp: word_less_nat_alt word_le_nat_alt not_less unat_sub_if' u)
  show "unat tot + 6 + n + v \<le> INT_MAX \<Longrightarrow> unat (tot + (6 + nlen + vlen)) = unat tot + 6 + n + v"
    by (simp add: unat_word_ariths u)
qed

lemma pack_total_eq:
  assumes "\<forall>h \<in> set hs. sized h" and "unat tot \<le> INT_MAX"
  shows "map_option unat (pack_total hs tot) =
    (if (\<forall>h \<in> set hs. length (h_name h) \<le> 0xffff) \<and> unat tot + packed_size hs \<le> INT_MAX
     then Some (unat tot + packed_size hs) else None)"
  using assms
proof (induction hs arbitrary: tot)
  case Nil
  then show ?case by simp
next
  case (Cons h hs)
  let ?n = "length (h_name h)" and ?v = "length (h_value h)"
  have sz: "?n < 2 ^ 64" "?v < 2 ^ 64" using Cons.prems(1) by (simp_all add: sized_def)
  note g = pack_guard [OF sz Cons.prems(2)]
  show ?case
  proof (cases "?n \<le> 0xffff \<and> unat tot + 6 + ?n + ?v \<le> INT_MAX")
    case True
    define t' where "t' = tot + (6 + word_of_nat ?n + word_of_nat ?v)"
    have t': "unat t' = unat tot + 6 + ?n + ?v" using g(2) True by (simp add: t'_def)
    have "map_option unat (pack_total (h # hs) tot) = map_option unat (pack_total hs t')"
      using g(1) True by (simp add: t'_def Let_def)
    also have "\<dots> = (if (\<forall>h \<in> set hs. length (h_name h) \<le> 0xffff)
        \<and> unat t' + packed_size hs \<le> INT_MAX then Some (unat t' + packed_size hs) else None)"
      using Cons.prems(1) True t' by (intro Cons.IH) auto
    finally show ?thesis using True by (simp add: t' algebra_simps)
  next
    case False
    then have "pack_total (h # hs) tot = None" using g(1) by (auto simp: Let_def)
    with False show ?thesis by auto
  qed
qed

text \<open>
  What the guards decide, over natural numbers; \<open>None\<close> is \<open>NGX_ERROR\<close>.
\<close>

lemma pack_total_0:
  assumes "\<forall>h \<in> set hs. sized h"
  shows "map_option unat (pack_total hs 0) =
    (if (\<forall>h \<in> set hs. length (h_name h) \<le> 0xffff) \<and> packed_size hs \<le> INT_MAX
     then Some (packed_size hs) else None)"
  using pack_total_eq [of hs 0] assms by simp

lemma packed_size_eq_0: "packed_size hs = 0 \<longleftrightarrow> hs = []"
  by (cases hs) simp_all

lemma h_value_le_packed_size: "h \<in> set hs \<Longrightarrow> length (h_value h) \<le> packed_size hs"
  by (induction hs) auto

lemma pack_headers_SomeE:
  assumes "\<forall>h \<in> set hs. sized h"
    and "ngx_http_coraza_pack_headers E hs w = (Some (out, len), w')"
  obtains "\<forall>h \<in> set hs. packable h" "packed_size hs \<le> INT_MAX" "unat len = packed_size hs"
    "(case out of None \<Rightarrow> [] | Some b \<Rightarrow> b) = concat (map pack_pair hs)"
proof -
  obtain t where t: "pack_total hs 0 = Some t"
    and r: "out = (if t = 0 then None else Some (concat (map pack_pair hs)))" "len = t"
    using assms(2)
    by (auto simp: ngx_http_coraza_pack_headers_def Let_def split: option.splits if_splits prod.splits)
  with pack_total_0 [OF assms(1)] have
    p: "\<forall>h \<in> set hs. length (h_name h) \<le> 0xffff" "packed_size hs \<le> INT_MAX" "unat t = packed_size hs"
    by (auto split: if_splits)
  have "t = 0 \<longleftrightarrow> hs = []" using p(3) packed_size_eq_0 [of hs] by (auto simp: unat_eq_zero [symmetric])
  moreover have "\<forall>h \<in> set hs. packable h"
    using p h_value_le_packed_size by (fastforce simp: packable_def intro: order_trans)
  ultimately show thesis using p r by (intro that) auto
qed

lemma pack_headers_decodes:
  assumes "\<forall>h \<in> set pairs. sized h"
    and "ngx_http_coraza_pack_headers E pairs w = (Some (out, len), w')"
  defines "buf \<equiv> (case out of None \<Rightarrow> [] | Some b \<Rightarrow> b)"
  shows "decode_n unpack_pair (length pairs) buf = Some (pairs, []) \<and>
         unat len = length buf \<and> length buf = packed_size pairs \<and>
         c_int (unat len) = int (length buf)"
proof -
  from pack_headers_SomeE [OF assms(1,2)] have
    p: "\<forall>h \<in> set pairs. packable h" "packed_size pairs \<le> INT_MAX" "unat len = packed_size pairs"
       "buf = concat (map pack_pair pairs)"
    unfolding buf_def by blast+
  have "decode_n unpack_pair (length pairs) buf = Some (pairs, [])"
    using pair.decode_n_enc [of pairs "[]"] p(1,4) by simp
  then show ?thesis using p by (simp add: length_packed)
qed

section \<open>Properties\<close>

text \<open>
  C9: whatever the packer accepts, the decoder of the wire format gives back
  pair by pair with nothing left over; the reported length is the length of the
  buffer, and its conversion to the \<open>int\<close> of the engine's interface is exact.
\<close>

theorem pack_headers_roundtrip:
  assumes "\<forall>h \<in> set pairs. sized h"
    and "ngx_http_coraza_pack_headers E pairs w = (Some (out, len), w')"
  defines "buf \<equiv> (case out of None \<Rightarrow> [] | Some b \<Rightarrow> b)"
  shows "decode_n unpack_pair (length pairs) buf = Some (pairs, []) \<and>
         unat len = length buf \<and> length buf = packed_size pairs \<and>
         c_int (unat len) = int (length buf)"
  unfolding buf_def using assms(1,2) by (rule pack_headers_decodes)

theorem pack_headers_roundtrip_witness:
  "decode_n unpack_pair (length [\<lparr>h_name = [97], h_value = [98, 99]\<rparr>, \<lparr>h_name = [], h_value = []\<rparr>])
     [0, 1, 97, 0, 0, 0, 2, 98, 99, 0, 0, 0, 0, 0, 0]
     = Some ([\<lparr>h_name = [97], h_value = [98, 99]\<rparr>, \<lparr>h_name = [], h_value = []\<rparr>], [])"
proof -
  let ?hs = "[\<lparr>h_name = [97], h_value = [98, 99]\<rparr>, \<lparr>h_name = [], h_value = []\<rparr>] :: header list"
  let ?b = "[0, 1, 97, 0, 0, 0, 2, 98, 99, 0, 0, 0, 0, 0, 0] :: bytes"
  have eq: "ngx_http_coraza_pack_headers sample_env ?hs sample_world
      = (Some (Some ?b, 15), emit (Alloc 15 True) sample_world)"
    by (simp add: ngx_http_coraza_pack_headers_def palloc_def sample_defs pack_pair_def
        enc_u16_def enc_u32_def byte_at_def)
  have sz: "\<forall>h \<in> set ?hs. sized h" by (auto simp: sized_def)
  show ?thesis using pack_headers_roundtrip [OF sz eq] by (simp only: option.case)
qed

text \<open>
  C21: the packer fails closed exactly when it must: with memory available it
  succeeds if and only if every name fits the 16-bit field and the whole buffer
  fits a C \<open>int\<close>; in particular the 64-bit running total never wraps.
\<close>

theorem pack_headers_accepts_iff:
  assumes "\<forall>h \<in> set pairs. sized h"
    and "alloc_ok E (trace w) (packed_size pairs)"
  shows "fst (ngx_http_coraza_pack_headers E pairs w) \<noteq> None \<longleftrightarrow>
         (\<forall>h \<in> set pairs. length (h_name h) \<le> 0xffff) \<and> packed_size pairs \<le> INT_MAX"
  using pack_total_0 [OF assms(1)] assms(2)
  by (auto simp: ngx_http_coraza_pack_headers_def palloc_def Let_def split: option.splits if_splits)

theorem pack_headers_accepts_iff_witness:
  "fst (ngx_http_coraza_pack_headers sample_env [\<lparr>h_name = replicate 65536 97, h_value = []\<rparr>]
     sample_world) = None"
proof -
  let ?hs = "[\<lparr>h_name = replicate 65536 97, h_value = []\<rparr>] :: header list"
  have "\<forall>h \<in> set ?hs. sized h" by (simp add: sized_def)
  moreover have "alloc_ok sample_env (trace sample_world) (packed_size ?hs)"
    by (simp add: sample_env_def)
  ultimately show ?thesis
    using pack_headers_accepts_iff [of ?hs sample_env sample_world] by (cases "fst (ngx_http_coraza_pack_headers sample_env ?hs sample_world)") auto
qed

text \<open>The converted string is the counted string, as the callee reads it.\<close>

lemma ngx_str_to_char_c_string:
  "ngx_str_to_char E a w = (Some buf, w') \<Longrightarrow> 0 \<notin> set a \<Longrightarrow>
   length buf = Suc (length a) \<and> c_string buf = a"
  by (subgoal_tac "takeWhile (\<lambda>b. b \<noteq> 0) (a @ [0]) = a")
    (auto simp: ngx_str_to_char_def c_string_def Let_def takeWhile_append
      split: prod.splits if_splits)

end
