(* ===== verification/Core.thy ===== *)
theory Core
  imports Utils
begin

text \<open>
  The transaction side of \<open>src/src/ngx_http_coraza_module.c\<close> together with
  \<open>src/src/ngx_http_coraza_log.c\<close> and the inline helpers of
  \<open>src/src/ngx_http_coraza_common.h\<close>: creating a transaction for a request,
  turning an intervention of the engine into a status, logging, and the pool
  cleanup.

  The second half describes what these functions and all handlers may do to the
  state, as a relation \<open>prim\<close> of primitive effects, and the interface \<open>handler\<close>:
  an operation whose runs are sequences of primitive effects.  Every invariant
  of \<open>prim\<close> is then an invariant of every handler.
\<close>

section \<open>Operations\<close>

text \<open>
  Sizes of the structures that are allocated with a fixed size.  Only whether an
  allocation succeeds matters; the environment decides that for any size.
\<close>

abbreviation SIZEOF_CTX :: nat where "SIZEOF_CTX \<equiv> 104"
abbreviation SIZEOF_CLEANUP :: nat where "SIZEOF_CLEANUP \<equiv> 24"
abbreviation SIZEOF_TABLE_ELT :: nat where "SIZEOF_TABLE_ELT \<equiv> 56"

definition ngx_http_coraza_process_body_failed :: "int \<Rightarrow> bool" where
  "ngx_http_coraza_process_body_failed ret \<longleftrightarrow> ret < 0"

definition ngx_http_coraza_log_handler :: "env \<Rightarrow> world \<Rightarrow> int \<times> world" where
  "ngx_http_coraza_log_handler E w =
     (case mcf w of
        None \<Rightarrow> (NGX_OK, w)
      | Some m \<Rightarrow>
          if lc_enable m \<noteq> 1 then (NGX_OK, w)
          else
            (case module_ctx w of
               None \<Rightarrow> (NGX_OK, w)
             | Some i \<Rightarrow>
                 if logged (ctxs w i) then (NGX_OK, w)
                 else
                   (let (_, w) = coraza_process_logging E (coraza_transaction (ctxs w i)) w
                    in (NGX_OK, upd_ctx i (\<lambda>c. c\<lparr>logged := True\<rparr>) w))))"

text \<open>
  The \<open>while\<close> loop over the redirect target: the bytes before the first C0
  control byte or DEL.
\<close>

fun location_safe :: "bytes \<Rightarrow> nat" where
  "location_safe [] = 0"
| "location_safe (b # bs) = (if b \<ge> 0x20 \<and> b \<noteq> 0x7f then Suc (location_safe bs) else 0)"

text \<open>Installing the redirect target as the \<open>Location\<close> header of the response.\<close>

definition install_location :: "env \<Rightarrow> ngx_str \<Rightarrow> world \<Rightarrow> world" where
  "install_location E data w =
     (let (ok, w) = palloc E SIZEOF_TABLE_ELT w in
      if \<not> ok then w
      else
        (let h = length (ho_headers (r_headers_out (req w)));
             loc = c_string data;
             len = (if location_safe loc \<noteq> length loc then location_safe loc else length loc);
             w = upd_headers_out (\<lambda>ho. ho\<lparr>ho_headers := ho_headers ho @
                   [\<lparr>elt_hash = 0, elt_key = ngx_string ''Location'', elt_value = []\<rparr>]\<rparr>) w;
             (ok, w) = palloc E len w
         in if \<not> ok then w
            else upd_headers_out (\<lambda>ho. ho\<lparr>ho_headers := (ho_headers ho)[h :=
                     \<lparr>elt_hash = 1, elt_key = ngx_string ''Location'', elt_value = take len loc\<rparr>],
                   ho_location := Some h\<rparr>) w))"

definition ngx_http_coraza_process_intervention ::
  "env \<Rightarrow> nat option \<Rightarrow> bool \<Rightarrow> world \<Rightarrow> int \<times> world" where
  "ngx_http_coraza_process_intervention E ctx early_log w =
     (case ctx of
        None \<Rightarrow> (NGX_HTTP_INTERNAL_SERVER_ERROR, w)
      | Some i \<Rightarrow>
          (let t = coraza_transaction (ctxs w i);
               (intervention, w) = coraza_intervention E t w in
           case intervention of
             None \<Rightarrow> (NGX_OK, w)
           | Some iv \<Rightarrow>
               if iv_status iv \<noteq> 200 then
                 (let (_, w) = coraza_update_status_code E t (iv_status iv) w;
                      w = (if early_log
                           then upd_ctx i (\<lambda>c. c\<lparr>logged := True\<rparr>)
                                  (snd (ngx_http_coraza_log_handler E w))
                           else w) in
                  if r_header_sent (req w) then
                    (let (_, w) = coraza_free_intervention E t w in (NGX_ERROR, w))
                  else
                    (let w = (case iv_data iv of
                                None \<Rightarrow> w
                              | Some data \<Rightarrow>
                                  if iv_status iv = NGX_HTTP_MOVED_PERMANENTLY
                                     \<or> iv_status iv = NGX_HTTP_MOVED_TEMPORARILY
                                     \<or> iv_status iv = NGX_HTTP_SEE_OTHER
                                     \<or> iv_status iv = NGX_HTTP_TEMPORARY_REDIRECT
                                     \<or> iv_status iv = 308
                                  then install_location E data w else w);
                         (_, w) = coraza_free_intervention E t w
                     in (iv_status iv, w)))
               else
                 (let (_, w) = coraza_free_intervention E t w in (NGX_OK, w))))"

text \<open>\<open>CORAZA_INTERRUPTION\<close> is the enumerator of the engine's header.\<close>

abbreviation CORAZA_INTERRUPTION :: int where "CORAZA_INTERRUPTION \<equiv> 1"

definition ngx_http_coraza_poll_after_process ::
  "env \<Rightarrow> nat option \<Rightarrow> bool \<Rightarrow> int \<Rightarrow> world \<Rightarrow> int \<times> world" where
  "ngx_http_coraza_poll_after_process E ctx early_log pret w =
     (if pret < 0 then (NGX_HTTP_INTERNAL_SERVER_ERROR, w)
      else if pret \<noteq> CORAZA_INTERRUPTION then (NGX_OK, w)
      else ngx_http_coraza_process_intervention E ctx early_log w)"

definition ngx_http_coraza_cleanup :: "env \<Rightarrow> nat \<Rightarrow> world \<Rightarrow> world" where
  "ngx_http_coraza_cleanup E i w =
     (let w = (if \<not> logged (ctxs w i)
               then upd_ctx i (\<lambda>c. c\<lparr>logged := True\<rparr>)
                      (snd (coraza_process_logging E (coraza_transaction (ctxs w i)) w))
               else w)
      in snd (coraza_free_transaction E (coraza_transaction (ctxs w i)) w))"

text \<open>
  \<open>ngx_http_set_ctx\<close> for a new context: the zeroed structure with its
  transaction becomes the module context of the request.  The structure is
  unreachable before this point, so this is where it enters the store.
\<close>

definition install_ctx :: "tx \<Rightarrow> world \<Rightarrow> world" where
  "install_ctx t w = w\<lparr>ctxs := (ctxs w)(next_ctx w := zero_ctx\<lparr>coraza_transaction := t\<rparr>),
     next_ctx := Suc (next_ctx w), module_ctx := Some (next_ctx w)\<rparr>"

definition register_cleanup :: "nat \<Rightarrow> world \<Rightarrow> world" where
  "register_cleanup i w = w\<lparr>cleanups := i # cleanups w\<rparr>"

text \<open>
  \<open>mcf->transaction_id\<close> read as a condition: any pointer but NULL.  \<open>Cv_Unset\<close>
  (the all-ones sentinel) only occurs before configurations are merged.
\<close>

definition has_transaction_id :: "ngx_http_coraza_conf \<Rightarrow> bool" where
  "has_transaction_id m \<longleftrightarrow> lc_transaction_id m \<noteq> Cv_Null"

definition cv_addr :: "cv_ptr \<Rightarrow> nat" where
  "cv_addr p = (case p of Cv n \<Rightarrow> n | _ \<Rightarrow> 0)"

text \<open>The tail of the function: from a live transaction to a registered context.\<close>

definition create_ctx_install ::
  "env \<Rightarrow> ngx_http_coraza_conf \<Rightarrow> ngx_str \<Rightarrow> tx \<Rightarrow> world \<Rightarrow> nat option \<times> world" where
  "create_ctx_install E m s t w =
     (if t = 0 then (None, w)
      else
        (let i = next_ctx w;
             w = install_ctx t w;
             (ok, w) = palloc E SIZEOF_CLEANUP w in
         if \<not> ok then
           (let (_, w) = coraza_free_transaction E t w
            in (None, upd_ctx i (\<lambda>c. c\<lparr>coraza_transaction := 0\<rparr>) w))
         else
           (let w = register_cleanup i w in
            if has_transaction_id m then
              (let (ok, w) = palloc E (length s) w in
               if \<not> ok then (None, w)
               else (Some i, upd_ctx i (\<lambda>c. c\<lparr>transaction_id := s\<rparr>) w))
            else (Some i, w))))"

text \<open>
  \<open>ngx_http_coraza_create_ctx\<close>.  The location configuration is passed in: its
  caller has just read it and found it non-null.
\<close>

definition ngx_http_coraza_create_ctx ::
  "env \<Rightarrow> ngx_http_coraza_conf \<Rightarrow> world \<Rightarrow> nat option \<times> world" where
  "ngx_http_coraza_create_ctx E m w =
     (let (ok, w) = palloc E SIZEOF_CTX w in
      if \<not> ok then (None, w)
      else
        (let waf = (if lc_waf m \<noteq> 0 then lc_waf m else main_waf w) in
         if waf = 0 then (None, w)
         else if has_transaction_id m then
           (let s = complex_value E (trace w) (cv_addr (lc_transaction_id m));
                w = emit (Complex_value (cv_addr (lc_transaction_id m)) s) w in
            case s of
              None \<Rightarrow> (None, w)
            | Some s \<Rightarrow>
                (let (t, w) = coraza_new_transaction_with_id E waf (c_string s) w
                 in create_ctx_install E m s t w))
         else
           (let (t, w) = coraza_new_transaction E waf w
            in create_ctx_install E m [] t w)))"

section \<open>Primitive effects\<close>

text \<open>Events that concern no live transaction.\<close>

fun harmless :: "event \<Rightarrow> bool" where
  "harmless (Eng _ _ _) = False"
| "harmless (Polled _ _) = False"
| "harmless (New_transaction _ _ t) = (t = 0)"
| "harmless _ = True"

text \<open>Engine calls that neither log nor free the transaction.\<close>

definition plain :: "coraza_call \<Rightarrow> bool" where
  "plain c \<longleftrightarrow> c \<noteq> Process_logging \<and> c \<noteq> Free_transaction"

text \<open>
  What a handler may do to a context in place: it never touches the handle or
  the log flag, and the flags that record that something has happened stay set.
\<close>

definition keeps :: "ngx_http_coraza_ctx \<Rightarrow> ngx_http_coraza_ctx \<Rightarrow> bool" where
  "keeps c c' \<longleftrightarrow> coraza_transaction c' = coraza_transaction c \<and> logged c' = logged c \<and>
     (intervention_triggered c \<longrightarrow> intervention_triggered c') \<and>
     (processed c \<longrightarrow> processed c') \<and> (body_requested c \<longrightarrow> body_requested c') \<and>
     (body_submitted c \<longrightarrow> body_submitted c')"

inductive prim :: "env \<Rightarrow> world \<Rightarrow> world \<Rightarrow> bool" for E :: env where
  event: "harmless e \<Longrightarrow> prim E w (emit e w)"
| request: "prim E w (upd_req g w)"
| engine: "module_ctx w = Some i \<Longrightarrow> plain c \<Longrightarrow>
    prim E w (snd (cgo E (coraza_transaction (ctxs w i)) c w))"
| poll: "module_ctx w = Some i \<Longrightarrow>
    prim E w (snd (coraza_intervention E (coraza_transaction (ctxs w i)) w))"
| ctx: "module_ctx w = Some i \<Longrightarrow> keeps (ctxs w i) (f (ctxs w i)) \<Longrightarrow> prim E w (upd_ctx i f w)"
| log: "module_ctx w = Some i \<Longrightarrow> \<not> logged (ctxs w i) \<Longrightarrow>
    prim E w (upd_ctx i (\<lambda>c. c\<lparr>logged := True\<rparr>)
      (snd (coraza_process_logging E (coraza_transaction (ctxs w i)) w)))"
| registered: "module_ctx w = None \<Longrightarrow> t = eng_new_transaction E (trace w) v s \<Longrightarrow> t \<noteq> 0 \<Longrightarrow>
    prim E w (register_cleanup (next_ctx w)
      (emit (Alloc n True) (install_ctx t (emit (New_transaction v s t) w))))"
| unregistered: "module_ctx w = None \<Longrightarrow> t = eng_new_transaction E (trace w) v s \<Longrightarrow> t \<noteq> 0 \<Longrightarrow>
    prim E w (upd_ctx (next_ctx w) (\<lambda>c. c\<lparr>coraza_transaction := 0\<rparr>)
      (snd (coraza_free_transaction E t
        (emit (Alloc n False) (install_ctx t (emit (New_transaction v s t) w))))))"

abbreviation prims :: "env \<Rightarrow> world \<Rightarrow> world \<Rightarrow> bool" where
  "prims E \<equiv> (prim E)\<^sup>*\<^sup>*"

lemma snd_cgo [engine_call]: "snd (cgo E t c w) = emit (Eng t c (eng E (trace w) t c)) w"
  by (simp add: cgo_def Let_def)

text \<open>What survives any primitive effect once the request has a context.\<close>

lemma install_ctx_sel [simp]:
  "req (install_ctx t w) = req w" "mcf (install_ctx t w) = mcf w" "clcf (install_ctx t w) = clcf w"
  "cached_http_time (install_ctx t w) = cached_http_time w"
  "main_waf (install_ctx t w) = main_waf w"
  "ctxs (install_ctx t w) = (ctxs w)(next_ctx w := zero_ctx\<lparr>coraza_transaction := t\<rparr>)"
  "next_ctx (install_ctx t w) = Suc (next_ctx w)"
  "module_ctx (install_ctx t w) = Some (next_ctx w)" "cleanups (install_ctx t w) = cleanups w"
  "pool_alive (install_ctx t w) = pool_alive w" "trace (install_ctx t w) = trace w"
  by (simp_all add: install_ctx_def)

lemma register_cleanup_sel [simp]:
  "req (register_cleanup i w) = req w" "mcf (register_cleanup i w) = mcf w"
  "clcf (register_cleanup i w) = clcf w"
  "cached_http_time (register_cleanup i w) = cached_http_time w" "main_waf (register_cleanup i w) = main_waf w"
  "ctxs (register_cleanup i w) = ctxs w" "next_ctx (register_cleanup i w) = next_ctx w"
  "module_ctx (register_cleanup i w) = module_ctx w"
  "cleanups (register_cleanup i w) = i # cleanups w"
  "pool_alive (register_cleanup i w) = pool_alive w" "trace (register_cleanup i w) = trace w"
  by (simp_all add: register_cleanup_def)

lemma prim_frame:
  "prim E w w' \<Longrightarrow> mcf w' = mcf w \<and> clcf w' = clcf w \<and> cached_http_time w' = cached_http_time w \<and> main_waf w' = main_waf w \<and>
     pool_alive w' = pool_alive w \<and> (\<exists>new. trace w' = trace w @ new)"
  by (induction rule: prim.induct)
    (simp_all add: engine_call Let_def)

lemma prims_frame:
  "prims E w w' \<Longrightarrow> mcf w' = mcf w \<and> clcf w' = clcf w \<and> cached_http_time w' = cached_http_time w \<and> main_waf w' = main_waf w \<and>
     pool_alive w' = pool_alive w \<and> (\<exists>new. trace w' = trace w @ new)"
proof (induction rule: rtranclp_induct)
  case (step y z)
  then show ?case by (fastforce dest: prim_frame)
qed simp

text \<open>With a current context: it stays, and only gains flags.\<close>

definition grows :: "ngx_http_coraza_ctx \<Rightarrow> ngx_http_coraza_ctx \<Rightarrow> bool" where
  "grows c c' \<longleftrightarrow> coraza_transaction c' = coraza_transaction c \<and> (logged c \<longrightarrow> logged c') \<and>
     (intervention_triggered c \<longrightarrow> intervention_triggered c') \<and>
     (processed c \<longrightarrow> processed c') \<and> (body_requested c \<longrightarrow> body_requested c') \<and>
     (body_submitted c \<longrightarrow> body_submitted c')"

lemma grows_refl [simp]: "grows c c"
  by (simp add: grows_def)

lemma grows_trans: "grows a b \<Longrightarrow> grows b c \<Longrightarrow> grows a c"
  by (simp add: grows_def)

lemma keeps_grows: "keeps c c' \<Longrightarrow> grows c c'"
  by (simp add: keeps_def grows_def)

lemma prim_current:
  assumes "prim E w w'" and "module_ctx w = Some i"
  shows "module_ctx w' = Some i \<and> grows (ctxs w i) (ctxs w' i)"
  using assms
  by (induction rule: prim.induct)
    (auto simp: engine_call Let_def keeps_grows,
     auto simp: grows_def)

lemma prims_current:
  assumes "prims E w w'" and "module_ctx w = Some i"
  shows "module_ctx w' = Some i \<and> grows (ctxs w i) (ctxs w' i)"
  using assms
  by (induction rule: rtranclp_induct) (auto dest: prim_current intro: grows_trans)

section \<open>Runs of an operation on the current context\<close>

definition enabled :: "world \<Rightarrow> bool" where
  "enabled w \<longleftrightarrow> (\<exists>m. mcf w = Some m \<and> lc_enable m = 1)"

text \<open>
  \<open>runs E en i t w w'\<close>: started with the current context \<open>i\<close> and its transaction
  \<open>t\<close> (and, if \<open>en\<close>, in a location with \<open>coraza on\<close>), the operation got from \<open>w\<close>
  to \<open>w'\<close> by primitive effects.  The rules below follow the shape of the
  definitions, so that the proof for an operation is one pass over its text.
\<close>

definition runs :: "env \<Rightarrow> bool \<Rightarrow> nat \<Rightarrow> tx \<Rightarrow> world \<Rightarrow> world \<Rightarrow> bool" where
  "runs E en i t w w' \<longleftrightarrow>
     (module_ctx w = Some i \<and> coraza_transaction (ctxs w i) = t \<and> (en \<longrightarrow> enabled w)
      \<longrightarrow> prims E w w')"

lemma prims_enabled: "prims E w w' \<Longrightarrow> enabled w' = enabled w"
  using prims_frame [of E w w'] by (simp add: enabled_def)

lemma runs_refl [simp]: "runs E en i t w w"
  by (simp add: runs_def)

lemma runs_trans:
  assumes "runs E en i t w w'" and "runs E en i t w' w''"
  shows "runs E en i t w w''"
  unfolding runs_def
proof (intro impI, elim conjE)
  assume a: "module_ctx w = Some i" "coraza_transaction (ctxs w i) = t" "en \<longrightarrow> enabled w"
  then have p: "prims E w w'" using assms(1) by (simp add: runs_def)
  have "module_ctx w' = Some i" "coraza_transaction (ctxs w' i) = t" "en \<longrightarrow> enabled w'"
    using prims_current [OF p a(1)] prims_enabled [OF p] a by (simp_all add: grows_def)
  then have "prims E w' w''" using assms(2) by (simp add: runs_def)
  with p show "prims E w w''" by (rule rtranclp_trans)
qed

lemma runs_step:
  "(module_ctx w = Some i \<Longrightarrow> coraza_transaction (ctxs w i) = t \<Longrightarrow> (en \<longrightarrow> enabled w) \<Longrightarrow> prim E w w') \<Longrightarrow>
    runs E en i t w w'"
  by (auto simp: runs_def)

lemma runs_prims:
  "module_ctx w = Some i \<Longrightarrow> runs E False i (coraza_transaction (ctxs w i)) w w' \<Longrightarrow> prims E w w'"
  by (simp add: runs_def)

lemma runs_current:
  "(coraza_transaction (ctxs w i) = t \<Longrightarrow> runs E en i t w w') \<Longrightarrow> runs E en i t w w'"
  by (auto simp: runs_def)

lemma runs_emit: "runs E en i t w w' \<Longrightarrow> harmless e \<Longrightarrow> runs E en i t w (emit e w')"
  by (rule runs_trans) (auto intro: runs_step prim.event)

lemma runs_upd_req: "runs E en i t w w' \<Longrightarrow> runs E en i t w (upd_req g w')"
  by (rule runs_trans) (auto intro: runs_step prim.request)

lemma runs_upd_headers_out: "runs E en i t w w' \<Longrightarrow> runs E en i t w (upd_headers_out g w')"
  unfolding upd_headers_out_def by (rule runs_upd_req)

lemma runs_upd_ctx:
  "runs E en i t w w' \<Longrightarrow> (\<And>c. keeps c (f c)) \<Longrightarrow> runs E en i t w (upd_ctx i f w')"
  by (rule runs_trans) (auto intro: runs_step prim.ctx)

lemma runs_cgo: "plain c \<Longrightarrow> runs E en i t w (snd (cgo E t c w))"
  by (rule runs_step) (use prim.engine in blast)

lemma runs_palloc: "runs E en i t w (snd (palloc E n w))"
  by (simp add: palloc_def Let_def runs_emit)

lemma runs_poll: "runs E en i t w (snd (coraza_intervention E t w))"
  by (rule runs_step) (use prim.poll in blast)

lemma runs_next_header_filter: "runs E en i t w (snd (run_next_header_filter E w))"
  by (simp add: run_next_header_filter_def Let_def runs_emit runs_upd_req split: prod.split)

lemma runs_next_body_filter: "runs E en i t w (snd (run_next_body_filter E ch w))"
  by (simp add: run_next_body_filter_def Let_def runs_emit runs_upd_req split: prod.split)

lemma runs_finalize: "runs E en i t w (snd (ngx_http_filter_finalize_request E s w))"
  by (simp add: ngx_http_filter_finalize_request_def Let_def runs_emit runs_upd_req split: prod.split)

text \<open>Structural rules.\<close>

lemma runs_pair: "runs E en i t w w' \<Longrightarrow> runs E en i t w (snd (a, w'))"
  by simp

lemma runs_let_pair:
  assumes "runs E en i t w (snd m)"
    and "\<And>a w'. m = (a, w') \<Longrightarrow> runs E en i t w' (snd (k a w'))"
  shows "runs E en i t w (snd (let (a, w') = m in k a w'))"
  using assms by (cases m) (auto intro: runs_trans)

lemma runs_let_pair_world:
  assumes "runs E en i t w (snd m)"
    and "\<And>a w'. m = (a, w') \<Longrightarrow> runs E en i t w' (k a w')"
  shows "runs E en i t w (let (a, w') = m in k a w')"
  using assms by (cases m) (auto intro: runs_trans)

lemma runs_let_world:
  assumes "runs E en i t w m" and "\<And>w'. w' = m \<Longrightarrow> runs E en i t w' (snd (k w'))"
  shows "runs E en i t w (snd (Let (m :: world) k))"
  using assms by (auto simp: Let_def intro: runs_trans)

lemma runs_let_world_world:
  assumes "runs E en i t w m" and "\<And>w'. w' = m \<Longrightarrow> runs E en i t w' (k w')"
  shows "runs E en i t w (Let (m :: world) k)"
  using assms by (auto simp: Let_def intro: runs_trans)

lemma runs_let_val: "runs E en i t w (snd (k x)) \<Longrightarrow> runs E en i t w (snd (Let x k))"
  by (simp add: Let_def)

lemma runs_let_val_world: "runs E en i t w (k x) \<Longrightarrow> runs E en i t w (Let x k)"
  by (simp add: Let_def)

lemma runs_if:
  "(b \<Longrightarrow> runs E en i t w (snd x)) \<Longrightarrow> (\<not> b \<Longrightarrow> runs E en i t w (snd y)) \<Longrightarrow>
   runs E en i t w (snd (if b then x else y))"
  by simp

lemma runs_if_world:
  "(b \<Longrightarrow> runs E en i t w x) \<Longrightarrow> (\<not> b \<Longrightarrow> runs E en i t w y) \<Longrightarrow>
   runs E en i t w (if b then x else y)"
  by simp

lemma runs_option:
  "(x = None \<Longrightarrow> runs E en i t w (snd n)) \<Longrightarrow> (\<And>y. x = Some y \<Longrightarrow> runs E en i t w (snd (f y))) \<Longrightarrow>
   runs E en i t w (snd (case x of None \<Rightarrow> n | Some y \<Rightarrow> f y))"
  by (cases x) simp_all

lemma runs_option_world:
  "(x = None \<Longrightarrow> runs E en i t w n) \<Longrightarrow> (\<And>y. x = Some y \<Longrightarrow> runs E en i t w (f y)) \<Longrightarrow>
   runs E en i t w (case x of None \<Rightarrow> n | Some y \<Rightarrow> f y)"
  by (cases x) simp_all

lemmas runs_structure =
  runs_pair runs_let_pair runs_let_pair_world runs_let_world runs_let_world_world
  runs_let_val runs_let_val_world runs_if runs_if_world runs_option runs_option_world

lemmas runs_effects =
  runs_refl runs_palloc runs_poll runs_next_header_filter runs_next_body_filter runs_finalize
  runs_cgo runs_emit runs_upd_req runs_upd_headers_out runs_upd_ctx

lemma runs_log_handler: "runs E en i t w (snd (ngx_http_coraza_log_handler E w))"
proof -
  have "prims E w (snd (ngx_http_coraza_log_handler E w))" if "module_ctx w = Some i"
    using that r_into_rtranclp [of "prim E", OF prim.log [OF that]]
    by (auto simp: ngx_http_coraza_log_handler_def Let_def split: option.split prod.split)
  then show ?thesis by (simp add: runs_def)
qed

lemma runs_install_location: "runs E en i t w (install_location E d w)"
  unfolding install_location_def by (rule runs_structure runs_effects)+

text \<open>
  The early-log request marks the context as logged whether or not the log
  handler acted; with the location enabled it always has.
\<close>

lemma log_handler_logged:
  assumes "module_ctx w = Some i" "mcf w = Some m" "lc_enable m = 1"
  shows "logged (ctxs (snd (ngx_http_coraza_log_handler E w)) i)"
  using assms by (auto simp: ngx_http_coraza_log_handler_def Let_def split: prod.split)

lemma upd_ctx_same: "f (ctxs w i) = ctxs w i \<Longrightarrow> upd_ctx i f w = w"
  by (simp add: upd_ctx_def)

lemma runs_early_log:
  "runs E True i t w (upd_ctx i (\<lambda>c. c\<lparr>logged := True\<rparr>) (snd (ngx_http_coraza_log_handler E w)))"
proof -
  have "upd_ctx i (\<lambda>c. c\<lparr>logged := True\<rparr>) (snd (ngx_http_coraza_log_handler E w))
      = snd (ngx_http_coraza_log_handler E w)" if "module_ctx w = Some i" "enabled w"
    using that(2) log_handler_logged [OF that(1)] by (intro upd_ctx_same) (auto simp: enabled_def)
  then show ?thesis using runs_log_handler [of E True i t w] by (auto simp: runs_def)
qed

lemma runs_wrappers:
  "runs E en i t w (snd (coraza_free_intervention E t w))"
  "runs E en i t w (snd (coraza_process_connection E t a p b q w))"
  "runs E en i t w (snd (coraza_process_uri E t u m v w))"
  "runs E en i t w (snd (coraza_add_request_header E t n l s k w))"
  "runs E en i t w (snd (coraza_add_request_headers E t pk l k w))"
  "runs E en i t w (snd (coraza_process_request_headers E t w))"
  "runs E en i t w (snd (coraza_append_request_body E t d l w))"
  "runs E en i t w (snd (coraza_process_request_body E t w))"
  "runs E en i t w (snd (ngx_http_coraza_is_request_body_accessible E t w))"
  "runs E en i t w (snd (coraza_add_response_header E t n l s k w))"
  "runs E en i t w (snd (coraza_add_response_headers E t pk l k w))"
  "runs E en i t w (snd (coraza_process_response_headers E t st v w))"
  "runs E en i t w (snd (ngx_http_coraza_is_response_body_processable E t w))"
  "runs E en i t w (snd (coraza_append_response_body E t d l w))"
  "runs E en i t w (snd (coraza_process_response_body E t w))"
  "runs E en i t w (snd (coraza_update_status_code E t st w))"
  by (simp_all add: coraza_wrapper_defs runs_cgo plain_def)

lemma runs_process_intervention:
  assumes "early \<longrightarrow> en"
  shows "runs E en i t w (snd (ngx_http_coraza_process_intervention E (Some i) early w))"
proof -
  have el: "runs E en i t v (if early then upd_ctx i (\<lambda>c. c\<lparr>logged := True\<rparr>)
      (snd (ngx_http_coraza_log_handler E v)) else v)" for v
    using runs_early_log [of E i t v] assms by (cases en) simp_all
  have "runs E en i t w (snd (ngx_http_coraza_process_intervention E (Some i) early w))"
    if t: "coraza_transaction (ctxs w i) = t"
    unfolding ngx_http_coraza_process_intervention_def option.case t
    by (rule el runs_structure runs_wrappers runs_install_location runs_effects)+
  then show ?thesis by (auto simp: runs_def)
qed

lemma runs_poll_after_process:
  assumes "early \<longrightarrow> en"
  shows "runs E en i t w (snd (ngx_http_coraza_poll_after_process E (Some i) early pret w))"
  by (simp add: ngx_http_coraza_poll_after_process_def runs_process_intervention assms)

section \<open>The interface of a handler\<close>

text \<open>
  What nginx registers (phase handlers and filters): whatever it does, it does by
  primitive effects.  Its clients need no more to transport invariants.
\<close>

locale handler =
  fixes h :: "env \<Rightarrow> world \<Rightarrow> int \<times> world"
  assumes by_prims: "prims E w (snd (h E w))"
begin

lemma preserves:
  assumes "\<And>w w'. prim E w w' \<Longrightarrow> I w \<Longrightarrow> I w'" and "I w"
  shows "I (snd (h E w))"
  using by_prims [of E w] assms(2)
  by (induction rule: rtranclp_induct) (auto intro: assms(1))

lemma extends_trace: "\<exists>new. trace (snd (h E w)) = trace w @ new"
  using prims_frame [OF by_prims] by blast

lemma keeps_conf: "mcf (snd (h E w)) = mcf w"
  using prims_frame [OF by_prims] by blast

lemma keeps_current:
  "module_ctx w = Some i \<Longrightarrow> module_ctx (snd (h E w)) = Some i"
  using prims_current [OF by_prims] by blast

end

text \<open>An operation that runs on the current context, or passes when there is none.\<close>

lemma handler_of_runs:
  assumes "\<And>E w. module_ctx w = None \<Longrightarrow> snd (h E w) = w \<or> prims E w (snd (h E w))"
    and "\<And>E w i. module_ctx w = Some i \<Longrightarrow>
      runs E False i (coraza_transaction (ctxs w i)) w (snd (h E w))"
  shows "handler h"
proof
  show "prims E w (snd (h E w))" for E w
  proof (cases "module_ctx w")
    case None
    then show ?thesis using assms(1) [of w E] by auto
  next
    case (Some i)
    then show ?thesis using assms(2) runs_prims by blast
  qed
qed

interpretation log: handler ngx_http_coraza_log_handler
proof (rule handler_of_runs)
  show "module_ctx w = None \<Longrightarrow> snd (ngx_http_coraza_log_handler E w) = w \<or>
      prims E w (snd (ngx_http_coraza_log_handler E w))" for E w
    by (simp add: ngx_http_coraza_log_handler_def split: option.split)
qed (rule runs_log_handler)

section \<open>Creating a context\<close>

lemma rtranclp_emit: "harmless e \<Longrightarrow> prims E w (emit e w)"
  by (blast intro: prim.event)

lemma prims_next_filters:
  "prims E w (snd (run_next_header_filter E w))"
  "prims E w (snd (run_next_body_filter E ch w))"
proof -
  have "prims E w (emit e (upd_req g w))" if "harmless e" for e g
    using prim.request [of E w g] prim.event [OF that, of E "upd_req g w"] by (meson r_into_rtranclp rtranclp.rtrancl_into_rtrancl)
  then show "prims E w (snd (run_next_header_filter E w))"
    "prims E w (snd (run_next_body_filter E ch w))"
    by (simp_all add: run_next_header_filter_def run_next_body_filter_def Let_def split: prod.split)
qed

lemma prims_palloc: "prims E w (snd (palloc E n w))"
  by (simp add: palloc_def Let_def rtranclp_emit)

lemma create_ctx_install_prims:
  assumes "module_ctx w = None" and t: "t = eng_new_transaction E (trace w) v s"
  shows "prims E w (snd (create_ctx_install E m x t (emit (New_transaction v s t) w)))"
proof (cases "t = 0")
  case True
  then show ?thesis by (simp add: create_ctx_install_def rtranclp_emit)
next
  case False
  let ?w1 = "install_ctx t (emit (New_transaction v s t) w)"
  show ?thesis
  proof (cases "alloc_ok E (trace ?w1) SIZEOF_CLEANUP")
    case False
    then show ?thesis
      using prim.unregistered [OF assms \<open>t \<noteq> 0\<close>, of SIZEOF_CLEANUP] \<open>t \<noteq> 0\<close>
      by (auto simp: create_ctx_install_def palloc_def Let_def split: prod.split)
  next
    case True
    let ?w2 = "register_cleanup (next_ctx w) (emit (Alloc SIZEOF_CLEANUP True) ?w1)"
    have "prims E w ?w2"
      using prim.registered [OF assms \<open>t \<noteq> 0\<close>] by blast
    moreover have "runs E False (next_ctx w) t ?w2
        (snd (create_ctx_install E m x t (emit (New_transaction v s t) w)))"
      using True \<open>t \<noteq> 0\<close>
      by (auto simp: create_ctx_install_def palloc_def Let_def keeps_def
          intro!: runs_emit runs_upd_ctx)
    ultimately show ?thesis by (auto simp: runs_def)
  qed
qed

lemma create_ctx_prims:
  assumes "module_ctx w = None"
  shows "prims E w (snd (ngx_http_coraza_create_ctx E m w))"
proof -
  let ?w1 = "snd (palloc E SIZEOF_CTX w)"
  let ?cv = "complex_value E (trace ?w1) (cv_addr (lc_transaction_id m))"
  let ?w2 = "emit (Complex_value (cv_addr (lc_transaction_id m)) ?cv) ?w1"
  have p: "prims E w ?w1" and n1: "module_ctx ?w1 = None"
    using assms by (simp_all add: prims_palloc) (simp add: palloc_def Let_def)
  have p2: "prims E w ?w2" using p rtranclp_trans rtranclp_emit by fastforce
  have n2: "module_ctx ?w2 = None" using n1 by simp
  note i1 = rtranclp_trans [OF p create_ctx_install_prims [OF n1 refl]]
  note i2 = rtranclp_trans [OF p2 create_ctx_install_prims [OF n2 refl]]
  obtain ok w1 where w1: "palloc E SIZEOF_CTX w = (ok, w1)" by fastforce
  show ?thesis
    using p p2 i1 i2
    by (auto simp: ngx_http_coraza_create_ctx_def coraza_new_transaction_def
        coraza_new_transaction_with_id_def Let_def w1 split: option.split)
qed

text \<open>A context no handler but the rewrite handler has been at.\<close>

definition untouched :: "ngx_http_coraza_ctx \<Rightarrow> bool" where
  "untouched c \<longleftrightarrow> \<not> intervention_triggered c \<and> \<not> processed c \<and> \<not> waiting_more_body c \<and>
     \<not> body_requested c \<and> \<not> body_submitted c \<and> \<not> headers_delayed c \<and> pending_bytes c = 0"

lemma create_ctx_install_Some:
  assumes "create_ctx_install E m s t w = (Some i, w')"
  shows "t \<noteq> 0 \<and> i = next_ctx w \<and> module_ctx w' = Some i \<and> i \<in> set (cleanups w') \<and>
    coraza_transaction (ctxs w' i) = t \<and> \<not> logged (ctxs w' i) \<and> untouched (ctxs w' i) \<and> mcf w' = mcf w \<and>
    req w' = req w \<and> (\<exists>new. trace w' = trace w @ new)"
  using assms
  by (auto simp: create_ctx_install_def palloc_def Let_def zero_ctx_def untouched_def
      split: if_splits prod.splits)

lemma create_ctx_Some:
  assumes "ngx_http_coraza_create_ctx E m w = (Some i, w')"
  shows "module_ctx w' = Some i \<and> i \<in> set (cleanups w') \<and>
    coraza_transaction (ctxs w' i) \<noteq> 0 \<and> \<not> logged (ctxs w' i) \<and> untouched (ctxs w' i) \<and> mcf w' = mcf w \<and>
    req w' = req w \<and> (\<exists>new. trace w' = trace w @ new)"
  using assms
  by (auto simp: ngx_http_coraza_create_ctx_def coraza_new_transaction_def palloc_def
      coraza_new_transaction_with_id_def Let_def dest!: create_ctx_install_Some
      split: option.splits if_splits)

section \<open>Properties of an intervention\<close>

lemma location_safe_bytes: "b \<in> set (take (location_safe bs) bs) \<Longrightarrow> b \<ge> 0x20 \<and> b \<noteq> 0x7f"
  by (induction bs) (auto split: if_splits)

lemma location_safe_le: "location_safe bs \<le> length bs"
  by (induction bs) auto

definition response_headers :: "world \<Rightarrow> ngx_table_elt list" where
  "response_headers w = ho_headers (r_headers_out (req w))"

lemma log_handler_req: "req (snd (ngx_http_coraza_log_handler E w)) = req w"
  by (simp add: ngx_http_coraza_log_handler_def coraza_wrapper_defs cgo_def Let_def split: option.split)

lemma install_location_headers:
  "response_headers (install_location E d w) = response_headers w \<or>
   (\<exists>e. response_headers (install_location E d w) = response_headers w @ [e] \<and>
      elt_key e = ngx_string ''Location'' \<and>
      (elt_value e = [] \<or> elt_value e = take (location_safe (c_string d)) (c_string d)))"
  by (auto simp: install_location_def palloc_def response_headers_def Let_def)

text \<open>
  The response headers of \<open>w'\<close> are those of \<open>w\<close>, with at most one added: a
  \<open>Location\<close> without control bytes.
\<close>

definition adds_safe_location :: "world \<Rightarrow> world \<Rightarrow> bool" where
  "adds_safe_location w w' \<longleftrightarrow>
     (\<exists>added. response_headers w' = response_headers w @ added \<and> length added \<le> 1 \<and>
       (\<forall>e \<in> set added. elt_key e = ngx_string ''Location'' \<and>
          (\<forall>b \<in> set (elt_value e). b \<ge> 0x20 \<and> b \<noteq> 0x7f)))"

lemma adds_safe_location_same: "response_headers w' = response_headers w \<Longrightarrow> adds_safe_location w w'"
  by (simp add: adds_safe_location_def)

lemma adds_safe_location_install:
  assumes "response_headers v = response_headers w"
  shows "adds_safe_location w (install_location E d v)"
  using install_location_headers [of E d v] location_safe_bytes
  unfolding assms adds_safe_location_def by fastforce

lemma adds_safe_location_emit [simp]: "adds_safe_location w (emit e w') = adds_safe_location w w'"
  by (simp add: adds_safe_location_def response_headers_def)

lemma response_headers_simps [simp]:
  "response_headers (emit e w) = response_headers w"
  "response_headers (upd_ctx i f w) = response_headers w"
  "response_headers (snd (ngx_http_coraza_log_handler E w)) = response_headers w"
  by (simp_all add: response_headers_def log_handler_req)

text \<open>
  C12: an intervention never removes or changes a response header and adds at
  most one, a \<open>Location\<close>, whose value contains no control byte and no DEL: a
  redirect target built from client data cannot split the response.
\<close>

theorem intervention_location_sanitised:
  "adds_safe_location w (snd (ngx_http_coraza_process_intervention E ctx early w))"
  by (auto simp: ngx_http_coraza_process_intervention_def coraza_intervention_def
      coraza_wrapper_defs cgo_def Let_def split: option.split
      intro: adds_safe_location_same adds_safe_location_install)

text \<open>The verdict of an intervention: the status it asks for, unless that is 200.\<close>

definition lets_pass :: "env \<Rightarrow> nat \<Rightarrow> world \<Rightarrow> bool" where
  "lets_pass E i w \<longleftrightarrow>
     (case eng_intervention E (trace w) (coraza_transaction (ctxs w i)) of
        None \<Rightarrow> True
      | Some iv \<Rightarrow> iv_status iv = 200 \<or> (iv_status iv = 0 \<and> \<not> r_header_sent (req w)))"

lemma fst_process_intervention:
  "fst (ngx_http_coraza_process_intervention E (Some i) early w) =
     (case eng_intervention E (trace w) (coraza_transaction (ctxs w i)) of
        None \<Rightarrow> NGX_OK
      | Some iv \<Rightarrow>
          if iv_status iv = 200 then NGX_OK
          else if r_header_sent (req w) then NGX_ERROR
          else iv_status iv)"
  by (simp add: ngx_http_coraza_process_intervention_def coraza_intervention_def
      coraza_wrapper_defs cgo_def Let_def log_handler_req split: option.split)

lemma process_intervention_OK_iff:
  "fst (ngx_http_coraza_process_intervention E (Some i) early w) = NGX_OK \<longleftrightarrow> lets_pass E i w"
  by (auto simp: fst_process_intervention lets_pass_def split: option.split)

lemma poll_OK_iff:
  "fst (ngx_http_coraza_poll_after_process E (Some i) early pret w) = NGX_OK \<longleftrightarrow>
     0 \<le> pret \<and> (pret = CORAZA_INTERRUPTION \<longrightarrow> lets_pass E i w)"
  by (auto simp: ngx_http_coraza_poll_after_process_def process_intervention_OK_iff)

text \<open>An intervention only appends to the history.\<close>

definition ext :: "world \<Rightarrow> world \<Rightarrow> bool" where
  "ext w w' \<longleftrightarrow> (\<exists>new. trace w' = trace w @ new)"

lemma ext_intros:
  "ext w w"
  "ext w w' \<Longrightarrow> ext w (emit e w')"
  "ext w w' \<Longrightarrow> ext w (upd_ctx i f w')"
  "ext w w' \<Longrightarrow> ext w (upd_req g w')"
  "ext w w' \<Longrightarrow> ext w (upd_headers_out k w')"
  by (auto simp: ext_def)

lemma ext_log_handler: "ext w w' \<Longrightarrow> ext w (snd (ngx_http_coraza_log_handler E w'))"
  using log.extends_trace [of E w'] by (auto simp: ext_def)

lemma ext_install_location: "ext w w' \<Longrightarrow> ext w (install_location E d w')"
  by (auto simp: install_location_def palloc_def Let_def intro!: ext_intros)

lemma ext_process_intervention:
  "ext w (snd (ngx_http_coraza_process_intervention E ctx early w))"
  by (auto simp: ngx_http_coraza_process_intervention_def coraza_intervention_def
      coraza_wrapper_defs cgo_def Let_def split: option.split
      intro!: ext_intros ext_log_handler ext_install_location)

lemma ext_poll: "ext w (snd (ngx_http_coraza_poll_after_process E ctx early pret w))"
  by (auto simp: ngx_http_coraza_poll_after_process_def ext_process_intervention ext_intros)

text \<open>
  What an intervention leaves behind: events of these kinds only, the same
  request up to its response headers, the same contexts up to the log flag.
\<close>

definition adds :: "(event \<Rightarrow> bool) \<Rightarrow> world \<Rightarrow> world \<Rightarrow> bool" where
  "adds P w w' \<longleftrightarrow> (\<exists>new. trace w' = trace w @ new \<and> (\<forall>e \<in> set new. P e))"

fun verdict_event :: "event \<Rightarrow> bool" where
  "verdict_event (Polled _ _) = True"
| "verdict_event (Alloc _ _) = True"
| "verdict_event (Eng _ (Update_status_code _) _) = True"
| "verdict_event (Eng _ Process_logging _) = True"
| "verdict_event (Eng _ Free_intervention _) = True"
| "verdict_event _ = False"

lemma adds_refl: "adds P w w"
  by (simp add: adds_def)

lemma adds_emit: "adds P w w' \<Longrightarrow> P e \<Longrightarrow> adds P w (emit e w')"
  by (auto simp: adds_def)

lemma adds_same: "adds P w w' \<Longrightarrow> trace w'' = trace w' \<Longrightarrow> adds P w w''"
  by (auto simp: adds_def)

lemma adds_trans: "adds P w w' \<Longrightarrow> adds P w' w'' \<Longrightarrow> adds P w w''"
  by (auto simp: adds_def)

lemma adds_mono: "adds P w w' \<Longrightarrow> (\<And>e. P e \<Longrightarrow> Q e) \<Longrightarrow> adds Q w w'"
  by (auto simp: adds_def)

lemma adds_upd_ctx: "adds P w w' \<Longrightarrow> adds P w (upd_ctx i f w')"
  by (simp add: adds_def)

lemma adds_log_handler: "adds verdict_event w w' \<Longrightarrow> adds verdict_event w (snd (ngx_http_coraza_log_handler E w'))"
  by (auto simp: ngx_http_coraza_log_handler_def coraza_wrapper_defs cgo_def Let_def
      split: option.split intro!: adds_upd_ctx adds_emit)

lemma adds_install_location: "adds verdict_event w w' \<Longrightarrow> adds verdict_event w (install_location E d w')"
  by (auto simp: install_location_def palloc_def Let_def adds_def)

lemma adds_process_intervention:
  "adds verdict_event w (snd (ngx_http_coraza_process_intervention E ctx early w))"
  by (auto simp: ngx_http_coraza_process_intervention_def coraza_intervention_def
      coraza_wrapper_defs cgo_def Let_def split: option.split
      intro!: adds_refl adds_emit adds_upd_ctx adds_log_handler adds_install_location)

lemma adds_poll: "adds verdict_event w (snd (ngx_http_coraza_poll_after_process E ctx early pret w))"
  by (auto simp: ngx_http_coraza_poll_after_process_def adds_process_intervention adds_refl)

definition same_request :: "world \<Rightarrow> world \<Rightarrow> bool" where
  "same_request w w' \<longleftrightarrow> (\<exists>h. req w' = (req w)\<lparr>r_headers_out := h\<rparr>)"

lemma same_request_refl: "same_request w w"
  unfolding same_request_def by (rule exI [of _ "r_headers_out (req w)"]) simp

lemma same_request_trans: "same_request w w' \<Longrightarrow> same_request w' w'' \<Longrightarrow> same_request w w''"
  by (auto simp: same_request_def)

lemma same_request_sel:
  assumes "same_request w w'"
  shows "r_error_page (req w') = r_error_page (req w)"
    "r_header_sent (req w') = r_header_sent (req w)"
    "r_request_body (req w') = r_request_body (req w)"
    "r_is_main (req w') = r_is_main (req w)"
    "r_header_only (req w') = r_header_only (req w)"
    "r_method (req w') = r_method (req w)"
  using assms by (auto simp: same_request_def)

lemma same_request_eq: "req w' = req w \<Longrightarrow> same_request w w'"
  using same_request_refl by (simp add: same_request_def)

lemma same_request_simps [simp]:
  "same_request w (emit e w') = same_request w w'"
  "same_request w (upd_ctx i f w') = same_request w w'"
  "same_request w (snd (ngx_http_coraza_log_handler E w')) = same_request w w'"
  by (simp_all add: same_request_def log_handler_req)

lemma same_request_install_location:
  "same_request w w' \<Longrightarrow> same_request w (install_location E d w')"
  by (auto simp: install_location_def palloc_def Let_def) (auto simp: same_request_def)

lemma same_request_process_intervention:
  "same_request w (snd (ngx_http_coraza_process_intervention E ctx early w))"
  by (auto simp: ngx_http_coraza_process_intervention_def coraza_intervention_def
      coraza_wrapper_defs cgo_def Let_def same_request_refl split: option.split
      intro!: same_request_install_location)

lemma same_request_poll:
  "same_request w (snd (ngx_http_coraza_poll_after_process E ctx early pret w))"
  by (simp add: ngx_http_coraza_poll_after_process_def same_request_process_intervention
      same_request_refl)

lemma install_location_ctxs [simp]: "ctxs (install_location E d w) = ctxs w"
  by (simp add: install_location_def palloc_def Let_def)

text \<open>Contexts that agree on everything but the log flag.\<close>

definition same_but_logged :: "ngx_http_coraza_ctx \<Rightarrow> ngx_http_coraza_ctx \<Rightarrow> bool" where
  "same_but_logged c c' \<longleftrightarrow> c'\<lparr>logged := logged c\<rparr> = c"

lemma same_but_logged_sel:
  assumes "same_but_logged c c'"
  shows "coraza_transaction c' = coraza_transaction c" "pending_chain c' = pending_chain c"
    "pending_bytes c' = pending_bytes c" "resp_hdr_collect c' = resp_hdr_collect c"
    "waiting_more_body c' = waiting_more_body c" "body_requested c' = body_requested c"
    "body_submitted c' = body_submitted c" "processed c' = processed c"
    "intervention_triggered c' = intervention_triggered c"
    "headers_delayed c' = headers_delayed c"
    "response_body_processable c' = response_body_processable c"
  using arg_cong [OF assms [unfolded same_but_logged_def], of coraza_transaction]
    arg_cong [OF assms [unfolded same_but_logged_def], of pending_chain]
    arg_cong [OF assms [unfolded same_but_logged_def], of pending_bytes]
    arg_cong [OF assms [unfolded same_but_logged_def], of resp_hdr_collect]
    arg_cong [OF assms [unfolded same_but_logged_def], of waiting_more_body]
    arg_cong [OF assms [unfolded same_but_logged_def], of body_requested]
    arg_cong [OF assms [unfolded same_but_logged_def], of body_submitted]
    arg_cong [OF assms [unfolded same_but_logged_def], of processed]
    arg_cong [OF assms [unfolded same_but_logged_def], of intervention_triggered]
    arg_cong [OF assms [unfolded same_but_logged_def], of headers_delayed]
    arg_cong [OF assms [unfolded same_but_logged_def], of response_body_processable]
  by simp_all

lemma same_but_logged_intros:
  "same_but_logged c c"
  "same_but_logged c c' \<Longrightarrow> same_but_logged c (c'\<lparr>logged := l\<rparr>)"
  by (simp_all add: same_but_logged_def)

lemma same_but_logged_log_handler:
  "same_but_logged c (ctxs w j) \<Longrightarrow>
   same_but_logged c (ctxs (snd (ngx_http_coraza_log_handler E w)) j)"
  by (auto simp: ngx_http_coraza_log_handler_def coraza_wrapper_defs cgo_def Let_def
      split: option.split intro: same_but_logged_intros)

lemma process_intervention_ctxs:
  "same_but_logged (ctxs w j) (ctxs (snd (ngx_http_coraza_process_intervention E ctx early w)) j)"
  by (auto simp: ngx_http_coraza_process_intervention_def coraza_intervention_def
      coraza_wrapper_defs cgo_def Let_def split: option.split
      intro!: same_but_logged_intros same_but_logged_log_handler)

lemma process_intervention_ctxs_quiet:
  "ctxs (snd (ngx_http_coraza_process_intervention E ctx False w)) = ctxs w"
  by (auto simp: ngx_http_coraza_process_intervention_def coraza_intervention_def
      coraza_wrapper_defs cgo_def Let_def split: option.split)

lemma poll_ctxs_quiet:
  "ctxs (snd (ngx_http_coraza_poll_after_process E ctx False pret w)) = ctxs w"
  by (simp add: ngx_http_coraza_poll_after_process_def process_intervention_ctxs_quiet)

lemma poll_ctxs:
  "same_but_logged (ctxs w j) (ctxs (snd (ngx_http_coraza_poll_after_process E ctx early pret w)) j)"
  by (simp add: ngx_http_coraza_poll_after_process_def process_intervention_ctxs)
    (simp add: same_but_logged_def)

text \<open>
  C13: the poll after a rule phase answers \<open>NGX_OK\<close>, which lets the request go
  on, exactly when the phase was evaluated and either reported no interruption
  or the engine's intervention asks for status 200 (or 0, before the headers are
  sent).  A phase that was not evaluated is never waved through.
\<close>

theorem poll_after_process_verdict:
  "fst (ngx_http_coraza_poll_after_process E (Some i) early pret w) = NGX_OK \<longleftrightarrow>
     0 \<le> pret \<and> (pret = CORAZA_INTERRUPTION \<longrightarrow> lets_pass E i w)"
  by (rule poll_OK_iff)

text \<open>An engine that denies everything with 403.\<close>

definition deny_env :: env where
  "deny_env = sample_env\<lparr>
     eng := (\<lambda>_ _ c. case c of Process_request_headers \<Rightarrow> 1 | Process_request_body \<Rightarrow> 1
                     | Process_response_headers _ _ \<Rightarrow> 1 | Process_response_body \<Rightarrow> 1
                     | Is_request_body_accessible \<Rightarrow> 1 | Is_response_body_processable \<Rightarrow> 1
                     | _ \<Rightarrow> 0),
     eng_intervention := (\<lambda>_ _. Some \<lparr>iv_action = None, iv_status = 403, iv_data = None\<rparr>)\<rparr>"

theorem poll_after_process_verdict_witness:
  "fst (ngx_http_coraza_poll_after_process deny_env (Some 0) False 1 sample_world) \<noteq> NGX_OK"
  using poll_after_process_verdict [of deny_env 0 False 1 sample_world]
  by (simp add: lets_pass_def deny_env_def)

end
