(* ===== verification/Rewrite.thy ===== *)
theory Rewrite
  imports Core
begin

text \<open>
  \<open>src/src/ngx_http_coraza_rewrite.c\<close>: the rewrite-phase handler.  It creates the
  transaction, hands the engine the connection, the request line and every
  request header (in one packed batch, or one by one when the batch cannot be
  built or is refused), evaluates phase 1 and turns its verdict into a status.

  The request headers are a flat list: nginx's part-wise list walk visits the
  elements of the parts in order.
\<close>

section \<open>Operations\<close>

text \<open>The printed form of an address as the engine reads it, and its port.\<close>

definition addr_to_char :: "env \<Rightarrow> sockaddr \<Rightarrow> world \<Rightarrow> (ngx_str \<times> int) option \<times> world" where
  "addr_to_char E a w =
     (case a of
        AF_UNIX \<Rightarrow> (Some (ngx_string ''unix'', 0), w)
      | Inet text port \<Rightarrow>
          (let (buf, w) = ngx_str_to_char E text w in
           case buf of None \<Rightarrow> (None, w) | Some buf \<Rightarrow> (Some (c_string buf, port), w)))"

definition request_protocol :: "nat \<Rightarrow> ngx_str" where
  "request_protocol v =
     (if v = NGX_HTTP_VERSION_9 then ngx_string ''HTTP/0.9''
      else if v = NGX_HTTP_VERSION_10 then ngx_string ''HTTP/1.0''
      else if v = NGX_HTTP_VERSION_11 then ngx_string ''HTTP/1.1''
      else if v = NGX_HTTP_VERSION_20 then ngx_string ''HTTP/2.0''
      else if v = NGX_HTTP_VERSION_30 then ngx_string ''HTTP/3.0''
      else ngx_string ''HTTP/1.0'')"

text \<open>The headers that are not deleted (\<open>hash != 0\<close>), as pairs.\<close>

definition elt_pair :: "ngx_table_elt \<Rightarrow> header" where
  "elt_pair e = \<lparr>h_name = elt_key e, h_value = elt_value e\<rparr>"

definition live_pairs :: "ngx_table_elt list \<Rightarrow> header list" where
  "live_pairs es = map elt_pair (filter (\<lambda>e. elt_hash e \<noteq> 0) es)"

abbreviation SIZEOF_HEADER :: nat where "SIZEOF_HEADER \<equiv> 32"

text \<open>The fast path; the result is \<open>bulk_done\<close>.\<close>

definition bulk_request_headers :: "env \<Rightarrow> tx \<Rightarrow> world \<Rightarrow> bool \<times> world" where
  "bulk_request_headers E t w =
     (let pairs = live_pairs (r_headers_in (req w)); k = length pairs in
      if k = 0 then (True, w)
      else
        (let (ok, w) = palloc E (k * SIZEOF_HEADER) w in
         if \<not> ok then (False, w)
         else
           (let (res, w) = ngx_http_coraza_pack_headers E pairs w in
            case res of
              None \<Rightarrow> (False, w)
            | Some (packed, packed_len) \<Rightarrow>
                (let (n, w) = coraza_add_request_headers E t
                        (case packed of None \<Rightarrow> [] | Some b \<Rightarrow> b)
                        (c_int (unat packed_len)) (c_int k) w
                 in (n \<ge> 0, w)))))"

text \<open>
  The per-header loop; a result is an early \<open>return\<close>.
\<close>

fun each_request_header ::
  "env \<Rightarrow> nat \<Rightarrow> tx \<Rightarrow> ngx_table_elt list \<Rightarrow> world \<Rightarrow> int option \<times> world" where
  "each_request_header E i t [] w = (None, w)"
| "each_request_header E i t (e # es) w =
     (if elt_hash e = 0 then each_request_header E i t es w
      else if length (elt_key e) > INT_MAX \<or> length (elt_value e) > INT_MAX
      then (Some NGX_HTTP_INTERNAL_SERVER_ERROR,
            upd_ctx i (\<lambda>c. c\<lparr>intervention_triggered := True\<rparr>) w)
      else
        (let (_, w) = coraza_add_request_header E t (elt_key e) (c_int (length (elt_key e)))
                        (elt_value e) (c_int (length (elt_value e))) w
         in each_request_header E i t es w))"

definition submit_request_headers :: "env \<Rightarrow> nat \<Rightarrow> tx \<Rightarrow> world \<Rightarrow> int option \<times> world" where
  "submit_request_headers E i t w =
     (let (bulk_done, w) = bulk_request_headers E t w in
      if bulk_done then (None, w)
      else each_request_header E i t (r_headers_in (req w)) w)"

text \<open>Phase 1 and its verdict.\<close>

definition rewrite_phase1 :: "env \<Rightarrow> nat \<Rightarrow> tx \<Rightarrow> world \<Rightarrow> int \<times> world" where
  "rewrite_phase1 E i t w =
     (let (pret, w) = coraza_process_request_headers E t w;
          (ret, w) = ngx_http_coraza_poll_after_process E (Some i) True pret w in
      if r_error_page (req w) then (NGX_DECLINED, w)
      else if ret < 0 then
        (NGX_HTTP_INTERNAL_SERVER_ERROR, upd_ctx i (\<lambda>c. c\<lparr>intervention_triggered := True\<rparr>) w)
      else if ret > 0 then
        (ret, upd_ctx i (\<lambda>c. c\<lparr>intervention_triggered := True\<rparr>) w)
      else (NGX_DECLINED, w))"

text \<open>From the request line on: URI, headers, phase 1.\<close>

definition rewrite_request :: "env \<Rightarrow> nat \<Rightarrow> tx \<Rightarrow> world \<Rightarrow> int \<times> world" where
  "rewrite_request E i t w =
     (let http_version = request_protocol (r_http_version (req w));
          (uri, w) = ngx_str_to_char E (r_unparsed_uri (req w)) w in
      case uri of
        None \<Rightarrow> (NGX_HTTP_INTERNAL_SERVER_ERROR, w)
      | Some uri \<Rightarrow>
          (let (meth, w) = ngx_str_to_char E (r_method_name (req w)) w in
           case meth of
             None \<Rightarrow> (NGX_HTTP_INTERNAL_SERVER_ERROR, w)
           | Some meth \<Rightarrow>
               (let (_, w) = coraza_process_uri E t (c_string uri) (c_string meth) http_version w;
                    (early, w) = submit_request_headers E i t w in
                case early of
                  Some rc \<Rightarrow> (rc, w)
                | None \<Rightarrow> rewrite_phase1 E i t w)))"

text \<open>The body of \<open>if (ctx == NULL)\<close> once the context exists.\<close>

definition rewrite_new_ctx :: "env \<Rightarrow> nat \<Rightarrow> world \<Rightarrow> int \<times> world" where
  "rewrite_new_ctx E i w =
     (let t = coraza_transaction (ctxs w i);
          (client, w) = addr_to_char E (r_client (req w)) w in
      case client of
        None \<Rightarrow> (NGX_HTTP_INTERNAL_SERVER_ERROR, w)
      | Some (client_addr, client_port) \<Rightarrow>
          (let local = local_sockaddr E (trace w); w = emit (Local_sockaddr local) w in
           case local of
             None \<Rightarrow> (NGX_HTTP_INTERNAL_SERVER_ERROR, w)
           | Some local \<Rightarrow>
               (let (server, w) = addr_to_char E local w in
                case server of
                  None \<Rightarrow> (NGX_HTTP_INTERNAL_SERVER_ERROR, w)
                | Some (server_addr, server_port) \<Rightarrow>
                    (let (_, w) = coraza_process_connection E t client_addr client_port
                                    server_addr server_port w
                     in rewrite_request E i t w))))"

definition ngx_http_coraza_rewrite_handler :: "env \<Rightarrow> world \<Rightarrow> int \<times> world" where
  "ngx_http_coraza_rewrite_handler E w =
     (case mcf w of
        None \<Rightarrow> (NGX_DECLINED, w)
      | Some m \<Rightarrow>
          if lc_enable m \<noteq> 1 then (NGX_DECLINED, w)
          else
            (case module_ctx w of
               Some _ \<Rightarrow> (NGX_DECLINED, w)
             | None \<Rightarrow>
                 (let (ctx, w) = ngx_http_coraza_create_ctx E m w in
                  case ctx of
                    None \<Rightarrow> (NGX_HTTP_INTERNAL_SERVER_ERROR, w)
                  | Some i \<Rightarrow> rewrite_new_ctx E i w)))"

section \<open>The handler acts by primitive effects\<close>

lemma runs_str_to_char: "runs E en i t w (snd (ngx_str_to_char E a w))"
  unfolding ngx_str_to_char_def by (rule runs_structure runs_effects)+

lemma runs_addr_to_char: "runs E en i t w (snd (addr_to_char E a w))"
proof (cases a)
  case (Inet a p)
  then show ?thesis
    unfolding addr_to_char_def Inet sockaddr.case
    by - (rule runs_structure runs_str_to_char runs_effects)+
qed (simp add: addr_to_char_def)

lemma runs_pack_headers: "runs E en i t w (snd (ngx_http_coraza_pack_headers E hs w))"
  unfolding ngx_http_coraza_pack_headers_def by (rule runs_structure runs_effects)+

lemma runs_case_pair:
  "(\<And>a b. x = (a, b) \<Longrightarrow> runs E en i t w (snd (f a b))) \<Longrightarrow> runs E en i t w (snd (case x of (a, b) \<Rightarrow> f a b))"
  by (cases x) simp

lemma runs_bulk_request_headers: "runs E en i t w (snd (bulk_request_headers E t w))"
  unfolding bulk_request_headers_def
  by (rule runs_structure runs_case_pair runs_wrappers runs_pack_headers runs_effects)+

lemma runs_trigger:
  "runs E en i t w w' \<Longrightarrow> runs E en i t w (upd_ctx i (\<lambda>c. c\<lparr>intervention_triggered := True\<rparr>) w')"
  by (erule runs_upd_ctx) (simp add: keeps_def)

lemma runs_each_request_header: "runs E en i t w (snd (each_request_header E i t es w))"
proof (induction es arbitrary: w)
  case Nil
  show ?case by simp
next
  case (Cons e es)
  show ?case
    unfolding each_request_header.simps
    by (rule runs_structure runs_wrappers runs_trigger Cons.IH runs_effects)+
qed

lemma runs_submit_request_headers: "runs E en i t w (snd (submit_request_headers E i t w))"
  unfolding submit_request_headers_def
  by (rule runs_structure runs_bulk_request_headers runs_each_request_header runs_effects)+

lemma runs_rewrite_phase1: "runs E True i t w (snd (rewrite_phase1 E i t w))"
  unfolding rewrite_phase1_def
  by ((rule runs_poll_after_process, simp)
      | rule runs_structure runs_wrappers runs_trigger runs_effects)+

lemma runs_rewrite_request: "runs E True i t w (snd (rewrite_request E i t w))"
  unfolding rewrite_request_def
  by (rule runs_structure runs_wrappers runs_str_to_char runs_submit_request_headers
      runs_rewrite_phase1 runs_effects)+

lemma runs_rewrite_new_ctx:
  assumes "coraza_transaction (ctxs w i) = t"
  shows "runs E True i t w (snd (rewrite_new_ctx E i w))"
  unfolding rewrite_new_ctx_def assms
  by (rule runs_structure runs_case_pair runs_wrappers runs_addr_to_char runs_rewrite_request
      runs_effects | simp)+

interpretation rewrite: handler ngx_http_coraza_rewrite_handler
proof
  fix E w
  show "prims E w (snd (ngx_http_coraza_rewrite_handler E w))"
  proof (cases "module_ctx w = None \<and> enabled w")
    case True
    then obtain m where m: "mcf w = Some m" "lc_enable m = 1" by (auto simp: enabled_def)
    obtain ctx w1 where c: "ngx_http_coraza_create_ctx E m w = (ctx, w1)" by fastforce
    have p: "prims E w w1" using create_ctx_prims [of w E m] True c by simp
    show ?thesis
    proof (cases ctx)
      case None
      then show ?thesis using True m c p by (simp add: ngx_http_coraza_rewrite_handler_def)
    next
      case (Some i)
      with create_ctx_Some [of E m w i w1] c m have "module_ctx w1 = Some i" "enabled w1"
        by (auto simp: enabled_def)
      then have "prims E w1 (snd (rewrite_new_ctx E i w1))"
        using runs_rewrite_new_ctx [OF refl, of E i w1] by (simp add: runs_def)
      then show ?thesis
        using True m c p Some by (simp add: ngx_http_coraza_rewrite_handler_def)
    qed
  next
    case False
    then show ?thesis
      by (auto simp: ngx_http_coraza_rewrite_handler_def enabled_def split: option.split)
  qed
qed

section \<open>Which headers the engine has seen\<close>

text \<open>
  What an engine call adds to the request headers of transaction \<open>t\<close>: the engine
  reads as many bytes as the lengths it is given, decodes an accepted batch by
  the wire format and drops a rejected one.
\<close>

definition seen_header :: "tx \<Rightarrow> event \<Rightarrow> header list" where
  "seen_header t e =
     (case e of
        Eng t' (Add_request_header nm nl v vl) n \<Rightarrow>
          if t' = t then [\<lparr>h_name = take (nat nl) nm, h_value = take (nat vl) v\<rparr>] else []
      | Eng t' (Add_request_headers p l k) n \<Rightarrow>
          if t' = t \<and> n \<ge> 0 then
            (case decode_n unpack_pair (nat k) (take (nat l) p) of Some (hs, _) \<Rightarrow> hs | None \<Rightarrow> [])
          else []
      | _ \<Rightarrow> [])"

definition headers_seen :: "tx \<Rightarrow> event list \<Rightarrow> header list" where
  "headers_seen t es = concat (map (seen_header t) es)"

lemma headers_seen_simps [simp]:
  "headers_seen t [] = []"
  "headers_seen t (es @ es') = headers_seen t es @ headers_seen t es'"
  "headers_seen t (e # es) = seen_header t e @ headers_seen t es"
  by (simp_all add: headers_seen_def)

lemma seen_header_simps [simp]:
  "seen_header t (Alloc z ok) = []" "seen_header t (Local_sockaddr sa) = []"
  "seen_header t (Eng t (Process_connection a p b q) n) = []"
  "seen_header t (Eng t (Process_uri u m v) n) = []"
  by (simp_all add: seen_header_def)

definition sized_headers :: "ngx_table_elt list \<Rightarrow> bool" where
  "sized_headers es \<longleftrightarrow> (\<forall>e \<in> set es. length (elt_key e) < 2 ^ 64 \<and> length (elt_value e) < 2 ^ 64)"

lemma sized_live_pairs: "sized_headers es \<Longrightarrow> \<forall>h \<in> set (live_pairs es). sized h"
  by (auto simp: sized_headers_def live_pairs_def elt_pair_def sized_def)

lemma length_le_packed_size: "length hs \<le> packed_size hs"
  by (induction hs) simp_all

lemma pack_headers_world:
  "ngx_http_coraza_pack_headers E hs w = (res, w') \<Longrightarrow>
   req w' = req w \<and> ctxs w' = ctxs w \<and> (\<exists>new. trace w' = trace w @ new \<and> headers_seen t new = [])"
  by (auto simp: ngx_http_coraza_pack_headers_def palloc_def Let_def split: option.splits if_splits)

lemma packed_batch_seen:
  assumes "\<forall>h \<in> set hs. sized h"
    and "ngx_http_coraza_pack_headers E hs w = (Some (out, len), w')"
  shows "seen_header t (Eng t (Add_request_headers (case out of None \<Rightarrow> [] | Some b \<Rightarrow> b)
           (c_int (unat len)) (c_int (length hs))) n) = (if n \<ge> 0 then hs else [])"
proof -
  from pack_headers_SomeE [OF assms] have p: "packed_size hs \<le> INT_MAX" by blast
  then have "c_int (length hs) = int (length hs)" using length_le_packed_size [of hs] by simp
  with pack_headers_decodes [OF assms] p show ?thesis by (auto simp: seen_header_def)
qed

lemma packed_batch_seen_Some:
  "\<forall>h \<in> set hs. sized h \<Longrightarrow> ngx_http_coraza_pack_headers E hs w = (Some (Some b, len), w') \<Longrightarrow>
   seen_header t (Eng t (Add_request_headers b (c_int (unat len)) (c_int (length hs))) n)
     = (if n \<ge> 0 then hs else [])"
  using packed_batch_seen [of hs E w "Some b"] by simp

lemma packed_batch_seen_None:
  "\<forall>h \<in> set hs. sized h \<Longrightarrow> ngx_http_coraza_pack_headers E hs w = (Some (None, len), w') \<Longrightarrow>
   seen_header t (Eng t (Add_request_headers [] (c_int (unat len)) (c_int (length hs))) n)
     = (if n \<ge> 0 then hs else [])"
  using packed_batch_seen [of hs E w None] by simp

lemma bulk_request_headers_seen:
  assumes "sized_headers (r_headers_in (req w))" and "bulk_request_headers E t w = (d, w')"
  shows "req w' = req w \<and> ctxs w' = ctxs w \<and> (\<exists>new. trace w' = trace w @ new \<and>
    headers_seen t new = (if d then live_pairs (r_headers_in (req w)) else []))"
proof -
  let ?hs = "live_pairs (r_headers_in (req w))"
  let ?w1 = "snd (palloc E (length ?hs * SIZEOF_HEADER) w)"
  obtain res w2 where p: "ngx_http_coraza_pack_headers E ?hs ?w1 = (res, w2)" by fastforce
  note w2 = pack_headers_world [OF p, of t]
  note batch = packed_batch_seen_Some [OF sized_live_pairs [OF assms(1)], of E ?w1]
    packed_batch_seen_None [OF sized_live_pairs [OF assms(1)], of E ?w1]
  show ?thesis
    using assms(2) w2 p batch
    by (auto simp: bulk_request_headers_def palloc_def coraza_wrapper_defs cgo_def Let_def
        split: if_splits option.splits prod.splits)
qed

lemma each_request_header_seen:
  "each_request_header E i t es w = (None, w') \<Longrightarrow>
   req w' = req w \<and> ctxs w' = ctxs w \<and>
   (\<exists>new. trace w' = trace w @ new \<and> headers_seen t new = live_pairs es)"
proof (induction es arbitrary: w)
  case Nil
  then show ?case by (simp add: live_pairs_def)
next
  case (Cons e es)
  show ?case
  proof (cases "elt_hash e = 0")
    case True
    then show ?thesis using Cons.IH [of w] Cons.prems by (simp add: live_pairs_def)
  next
    case False
    let ?c = "Add_request_header (elt_key e) (c_int (length (elt_key e))) (elt_value e)
        (c_int (length (elt_value e)))"
    let ?e = "Eng t ?c (eng E (trace w) t ?c)"
    have le: "length (elt_key e) \<le> INT_MAX" "length (elt_value e) \<le> INT_MAX"
      and rec: "each_request_header E i t es (emit ?e w) = (None, w')"
      using Cons.prems False by (auto simp: coraza_wrapper_defs cgo_def Let_def split: if_splits)
    have "seen_header t ?e = [elt_pair e]" using le by (simp add: seen_header_def elt_pair_def)
    then show ?thesis using Cons.IH [OF rec] False by (fastforce simp: live_pairs_def)
  qed
qed

lemma submit_request_headers_seen:
  assumes "sized_headers (r_headers_in (req w))" and "submit_request_headers E i t w = (None, w')"
  shows "req w' = req w \<and> ctxs w' = ctxs w \<and> (\<exists>new. trace w' = trace w @ new \<and>
    headers_seen t new = live_pairs (r_headers_in (req w)))"
proof -
  obtain d w1 where b: "bulk_request_headers E t w = (d, w1)" by fastforce
  show ?thesis
    using bulk_request_headers_seen [OF assms(1) b] assms(2) b
    by (cases d) (auto simp: submit_request_headers_def dest!: each_request_header_seen)
qed

lemma submit_request_headers_Some:
  "submit_request_headers E i t w = (Some rc, w') \<Longrightarrow> rc = NGX_HTTP_INTERNAL_SERVER_ERROR"
proof -
  have "each_request_header E i t es v = (Some rc, v') \<Longrightarrow> rc = NGX_HTTP_INTERNAL_SERVER_ERROR" for es v v'
    by (induction es arbitrary: v) (auto simp: Let_def split: if_splits prod.splits)
  then show "submit_request_headers E i t w = (Some rc, w') \<Longrightarrow> ?thesis"
    by (auto simp: submit_request_headers_def Let_def split: if_splits prod.splits)
qed

section \<open>Properties\<close>

text \<open>
  Phase 1 was reached with every live header of the request seen, and let the
  request pass (or an error page is already being served).
\<close>

definition inspected_headers :: "env \<Rightarrow> tx \<Rightarrow> event list \<Rightarrow> world \<Rightarrow> world \<Rightarrow> bool" where
  "inspected_headers E t before w w' \<longleftrightarrow>
     (\<exists>new n after. trace w' = before @ new @ Eng t Process_request_headers n # after \<and>
        headers_seen t new = live_pairs (r_headers_in (req w)) \<and>
        (\<not> r_error_page (req w') \<longrightarrow> 0 \<le> n \<and>
           (n = CORAZA_INTERRUPTION \<longrightarrow>
              (\<forall>iv. eng_intervention E (before @ new @ [Eng t Process_request_headers n]) t = Some iv
                 \<longrightarrow> iv_status iv = 200 \<or> iv_status iv = 0))))"

lemma rewrite_phase1_declined:
  assumes "rewrite_phase1 E i t w = (NGX_DECLINED, w')" and "coraza_transaction (ctxs w i) = t"
  shows "\<exists>n after. trace w' = trace w @ Eng t Process_request_headers n # after \<and>
    (\<not> r_error_page (req w') \<longrightarrow> 0 \<le> n \<and> (n = CORAZA_INTERRUPTION \<longrightarrow>
      (\<forall>iv. eng_intervention E (trace w @ [Eng t Process_request_headers n]) t = Some iv
         \<longrightarrow> iv_status iv = 200 \<or> iv_status iv = 0))) \<and> same_but_logged (ctxs w i) (ctxs w' i)"
proof -
  define n where "n = eng E (trace w) t Process_request_headers"
  let ?w1 = "emit (Eng t Process_request_headers n) w"
  obtain ret w2 where p: "ngx_http_coraza_poll_after_process E (Some i) True n ?w1 = (ret, w2)"
    by fastforce
  have d: "w' = w2" "\<not> r_error_page (req w2) \<longrightarrow> ret = 0"
    using assms(1) p
    by (auto simp: rewrite_phase1_def coraza_wrapper_defs cgo_def Let_def n_def split: if_splits)
  have v: "ret = 0 \<longleftrightarrow> 0 \<le> n \<and> (n = CORAZA_INTERRUPTION \<longrightarrow> lets_pass E i ?w1)"
    using poll_OK_iff [of E i True n ?w1] p by simp
  obtain new where "trace w2 = trace ?w1 @ new"
    using ext_poll [of ?w1 E "Some i" True n] p by (auto simp: ext_def)
  moreover have "same_but_logged (ctxs w i) (ctxs w2 i)"
    using poll_ctxs [of ?w1 i E "Some i" True n] p by simp
  ultimately show ?thesis using d v assms(2)
    by (auto simp: lets_pass_def split: option.splits)
qed

lemma rewrite_request_declined:
  assumes "rewrite_request E i t w = (NGX_DECLINED, w')" and "coraza_transaction (ctxs w i) = t"
    and "sized_headers (r_headers_in (req w))"
  shows "\<exists>new. headers_seen t new = [] \<and> inspected_headers E t (trace w @ new) w w' \<and>
    same_but_logged (ctxs w i) (ctxs w' i)"
proof -
  obtain uri meth where
    s: "ngx_str_to_char E (r_unparsed_uri (req w)) w = (Some uri, emit (Alloc (Suc (length (r_unparsed_uri (req w)))) True) w)"
    and m: "ngx_str_to_char E (r_method_name (req w))
        (emit (Alloc (Suc (length (r_unparsed_uri (req w)))) True) w) = (Some meth,
        emit (Alloc (Suc (length (r_method_name (req w)))) True)
          (emit (Alloc (Suc (length (r_unparsed_uri (req w)))) True) w))"
    using assms(1)
    by (auto simp: rewrite_request_def ngx_str_to_char_def palloc_def Let_def split: if_splits)
  let ?w2 = "emit (Alloc (Suc (length (r_method_name (req w)))) True)
      (emit (Alloc (Suc (length (r_unparsed_uri (req w)))) True) w)"
  obtain n w3 where u: "coraza_process_uri E t (c_string uri) (c_string meth)
      (request_protocol (r_http_version (req w))) ?w2 = (n, w3)" by fastforce
  then have w3: "req w3 = req w" "ctxs w3 = ctxs w"
    "\<exists>new. trace w3 = trace w @ new \<and> headers_seen t new = []"
    by (auto simp: coraza_wrapper_defs cgo_def Let_def)
  obtain early w4 where h: "submit_request_headers E i t w3 = (early, w4)" by fastforce
  have e: "early = None" and p: "rewrite_phase1 E i t w4 = (NGX_DECLINED, w')"
    using assms(1) s m u h submit_request_headers_Some [of E i t w3]
    by (auto simp: rewrite_request_def split: option.splits)
  have w4: "req w4 = req w" "ctxs w4 = ctxs w"
    "\<exists>new. trace w4 = trace w3 @ new \<and> headers_seen t new = live_pairs (r_headers_in (req w))"
    using submit_request_headers_seen [of w3 E i t w4] h e w3 assms(3) by auto
  obtain a where a: "trace w3 = trace w @ a" "headers_seen t a = []" using w3(3) by blast
  obtain b where b: "trace w4 = trace w3 @ b" "headers_seen t b = live_pairs (r_headers_in (req w))"
    using w4(3) by blast
  have "coraza_transaction (ctxs w4 i) = t" using w4(2) assms(2) by simp
  note ph = rewrite_phase1_declined [OF p this]
  then have "inspected_headers E t (trace w @ a) w w'"
    unfolding inspected_headers_def a(1) b(1) append_assoc using b(2) by blast
  then show ?thesis using a(2) ph unfolding w4(2) by blast
qed

lemma inspected_headers_req:
  "req v = req w \<Longrightarrow> inspected_headers E t b v w' = inspected_headers E t b w w'"
  by (simp add: inspected_headers_def)

lemma addr_to_char_world:
  "addr_to_char E a w = (x, w') \<Longrightarrow> req w' = req w \<and> ctxs w' = ctxs w \<and>
     (\<exists>new. trace w' = trace w @ new \<and> headers_seen t new = [])"
  by (auto simp: addr_to_char_def ngx_str_to_char_def palloc_def Let_def
      split: sockaddr.splits if_splits)

lemma rewrite_new_ctx_declined:
  assumes "rewrite_new_ctx E i w = (NGX_DECLINED, w')"
    and "sized_headers (r_headers_in (req w))"
  shows "\<exists>new. inspected_headers E (coraza_transaction (ctxs w i)) (trace w @ new) w w' \<and>
    same_but_logged (ctxs w i) (ctxs w' i)"
proof -
  let ?t = "coraza_transaction (ctxs w i)"
  obtain client w1 where a: "addr_to_char E (r_client (req w)) w = (client, w1)" by fastforce
  let ?w2 = "emit (Local_sockaddr (local_sockaddr E (trace w1))) w1"
  obtain sa where sa: "local_sockaddr E (trace w1) = Some sa"
    using assms(1) a by (auto simp: rewrite_new_ctx_def Let_def split: option.splits)
  obtain server w3 where b: "addr_to_char E sa ?w2 = (server, w3)" by fastforce
  obtain ca cp ba bp where cs: "client = Some (ca, cp)" "server = Some (ba, bp)"
    using assms(1) a sa b by (auto simp: rewrite_new_ctx_def Let_def split: option.splits)
  obtain n w4 where c: "coraza_process_connection E ?t ca cp ba bp w3 = (n, w4)" by fastforce
  have r: "rewrite_request E i ?t w4 = (NGX_DECLINED, w')"
    using assms(1) a sa b c cs by (simp add: rewrite_new_ctx_def)
  have w4: "req w4 = req w" "ctxs w4 = ctxs w" "\<exists>new. trace w4 = trace w @ new"
    using addr_to_char_world [OF a, of ?t] addr_to_char_world [OF b, of ?t] c
    by (auto simp: coraza_wrapper_defs cgo_def Let_def)
  obtain a where a: "trace w4 = trace w @ a" using w4(3) by blast
  have "coraza_transaction (ctxs w4 i) = ?t" "sized_headers (r_headers_in (req w4))"
    using w4 assms(2) by simp_all
  from rewrite_request_declined [OF r this] obtain b where
    "inspected_headers E ?t (trace w @ a @ b) w4 w'" "same_but_logged (ctxs w i) (ctxs w' i)"
    unfolding w4(2) by (auto simp: a)
  then show ?thesis using inspected_headers_req [OF w4(1)] by blast
qed

lemma rewrite_handler_declined:
  assumes "module_ctx w = None" and "mcf w = Some m" and "lc_enable m = 1"
    and "sized_headers (r_headers_in (req w))"
    and "ngx_http_coraza_rewrite_handler E w = (NGX_DECLINED, w')"
  shows "\<exists>i created. module_ctx w' = Some i \<and> coraza_transaction (ctxs w' i) \<noteq> 0 \<and> untouched (ctxs w' i) \<and>
    inspected_headers E (coraza_transaction (ctxs w' i)) (trace w @ created) w w'"
proof -
  obtain i w1 where c: "ngx_http_coraza_create_ctx E m w = (Some i, w1)"
    and r: "rewrite_new_ctx E i w1 = (NGX_DECLINED, w')"
    using assms(1-3,5)
    by (auto simp: ngx_http_coraza_rewrite_handler_def split: prod.splits option.splits)
  note w1 = create_ctx_Some [OF c]
  then obtain a where a: "trace w1 = trace w @ a" by blast
  have "sized_headers (r_headers_in (req w1))" using w1 assms(4) by simp
  from rewrite_new_ctx_declined [OF r this] obtain b where
    b: "inspected_headers E (coraza_transaction (ctxs w1 i)) (trace w @ a @ b) w1 w'"
    and s: "same_but_logged (ctxs w1 i) (ctxs w' i)" by (auto simp: a)
  have "inspected_headers E (coraza_transaction (ctxs w1 i)) (trace w @ a @ b) w w'"
    using b inspected_headers_req [of w1 w] w1 by simp
  moreover have "module_ctx w' = Some i"
  proof -
    have "prims E w1 w'"
      using runs_rewrite_new_ctx [OF refl, of E i w1] r w1 assms(2,3) by (auto simp: runs_def enabled_def)
    then show ?thesis using prims_current w1 by blast
  qed
  moreover have "untouched (ctxs w' i)" "coraza_transaction (ctxs w' i) = coraza_transaction (ctxs w1 i)"
    using w1 same_but_logged_sel [OF s] by (simp_all add: untouched_def)
  ultimately show ?thesis using w1 by metis
qed

text \<open>
  C1: in a location with \<open>coraza on\<close>, let a request without a context
  (its header lengths fit a \<open>size_t\<close>) go on from the rewrite handler,
  that is, the handler returns \<open>NGX_DECLINED\<close>. Then, on one transaction
  handle that is not null, the engine has seen every live request header in order
  with its exact bytes (whichever of the two submission paths was taken), and phase
  1 was run after that. Unless an error page is being served, its run did not fail,
  and if it reported an interruption then the intervention, if there is one, has the
  status 200 or 0. While an error page is being served nothing is claimed of the
  verdict: the handler lets the request go on whatever it is.
\<close>

theorem rewrite_lets_pass_only_inspected:
  assumes "module_ctx w = None" and "mcf w = Some m" and "lc_enable m = 1"
    and "sized_headers (r_headers_in (req w))"
    and "ngx_http_coraza_rewrite_handler E w = (NGX_DECLINED, w')"
  shows "\<exists>t created. t \<noteq> 0 \<and> inspected_headers E t (trace w @ created) w w'"
  using rewrite_handler_declined [OF assms] by blast

text \<open>A request the sample engine lets pass.\<close>

lemmas rewrite_defs =
  ngx_http_coraza_rewrite_handler_def ngx_http_coraza_create_ctx_def create_ctx_install_def
  rewrite_new_ctx_def rewrite_request_def rewrite_phase1_def submit_request_headers_def
  bulk_request_headers_def live_pairs_def elt_pair_def ngx_http_coraza_pack_headers_def
  addr_to_char_def ngx_str_to_char_def palloc_def coraza_new_transaction_def
  coraza_new_transaction_with_id_def coraza_wrapper_defs cgo_def has_transaction_id_def
  ngx_http_coraza_poll_after_process_def

lemma rewrite_sample:
  "fst (ngx_http_coraza_rewrite_handler sample_env sample_world) = NGX_DECLINED"
  by (simp add: rewrite_defs sample_defs Let_def)

theorem rewrite_lets_pass_only_inspected_witness:
  "\<exists>t created. t \<noteq> 0 \<and> inspected_headers sample_env t (trace sample_world @ created) sample_world
     (snd (ngx_http_coraza_rewrite_handler sample_env sample_world))"
proof (rule rewrite_lets_pass_only_inspected)
  show "module_ctx sample_world = None" "mcf sample_world = Some sample_conf"
    "lc_enable sample_conf = 1" "sized_headers (r_headers_in (req sample_world))"
    by (simp_all add: sample_defs sized_headers_def)
  show "ngx_http_coraza_rewrite_handler sample_env sample_world =
      (NGX_DECLINED, snd (ngx_http_coraza_rewrite_handler sample_env sample_world))"
    using rewrite_sample by (simp add: prod_eq_iff)
qed

end
