(* ===== verification/Pre_Access.thy ===== *)
theory Pre_Access
  imports Rewrite
begin

text \<open>
  \<open>src/src/ngx_http_coraza_pre_access.c\<close>: the preaccess-phase handler.  It asks
  nginx for the request body when the engine wants one, hands the body to the
  engine (from memory, or from nginx's temporary file in chunks of 64 KiB), and
  evaluates phase 2.

  The loop over the file is a \<open>function\<close> with a termination proof: every round
  that does not leave the loop has read at least one byte.
\<close>

section \<open>Operations\<close>

abbreviation NGX_HTTP_CORAZA_REQUEST_BODY_FILE_CHUNK_SIZE :: nat where
  "NGX_HTTP_CORAZA_REQUEST_BODY_FILE_CHUNK_SIZE \<equiv> 65536"

abbreviation trigger :: "nat \<Rightarrow> world \<Rightarrow> world" where
  "trigger i \<equiv> upd_ctx i (\<lambda>c. c\<lparr>intervention_triggered := True\<rparr>)"

text \<open>
  The completion callback nginx calls once the body has arrived.  Without a
  context the source dereferences a null pointer: \<open>None\<close>.
\<close>

definition request_read_ctx :: "nat \<Rightarrow> world \<Rightarrow> world" where
  "request_read_ctx i w =
     (let w = upd_req (\<lambda>r. r\<lparr>r_main_count := r_main_count r - 1\<rparr>) w in
      if waiting_more_body (ctxs w i) then
        (let w = upd_ctx i (\<lambda>c. c\<lparr>waiting_more_body := False\<rparr>) w;
             w = upd_req (\<lambda>r. r\<lparr>r_write_event_run_phases := True\<rparr>) w
         in emit Run_phases w)
      else w)"

definition ngx_http_coraza_request_read :: "world \<Rightarrow> world option" where
  "ngx_http_coraza_request_read w = map_option (\<lambda>i. request_read_ctx i w) (module_ctx w)"

definition ngx_http_coraza_process_request_body_phase :: "env \<Rightarrow> nat \<Rightarrow> world \<Rightarrow> int \<times> world" where
  "ngx_http_coraza_process_request_body_phase E i w =
     (let (pret, w) = coraza_process_request_body E (coraza_transaction (ctxs w i)) w in
      if ngx_http_coraza_process_body_failed pret then
        (NGX_HTTP_INTERNAL_SERVER_ERROR, trigger i w)
      else
        (let (ret, w) = ngx_http_coraza_poll_after_process E (Some i) False pret w in
         if r_error_page (req w) then (NGX_DECLINED, w)
         else if ret < 0 then (NGX_HTTP_INTERNAL_SERVER_ERROR, trigger i w)
         else if ret > 0 then (ret, trigger i w)
         else (NGX_DECLINED, w)))"

text \<open>
  \<open>ngx_read_file\<close> on the descriptor opened for the temporary file: \<open>None\<close> is
  \<open>NGX_ERROR\<close>, and at most \<open>len\<close> bytes are read.
\<close>

definition read_temp_file :: "env \<Rightarrow> ngx_str \<Rightarrow> nat \<Rightarrow> int \<Rightarrow> world \<Rightarrow> bytes option \<times> world" where
  "read_temp_file E name len offset w =
     (let d = map_option (take len) (read_temp E (trace w) name len offset)
      in (d, emit (Read_file 0 offset len d) w))"

function append_request_body_loop ::
  "env \<Rightarrow> nat \<Rightarrow> ngx_str \<Rightarrow> int \<Rightarrow> int \<Rightarrow> world \<Rightarrow> int \<times> world" where
  "append_request_body_loop E i name body_size offset w =
     (if offset < body_size then
        (let size = (if body_size - offset > int NGX_HTTP_CORAZA_REQUEST_BODY_FILE_CHUNK_SIZE
                     then NGX_HTTP_CORAZA_REQUEST_BODY_FILE_CHUNK_SIZE
                     else nat (body_size - offset));
             (n, w) = read_temp_file E name size offset w in
         case n of
           None \<Rightarrow> (NGX_HTTP_INTERNAL_SERVER_ERROR, w)
         | Some data \<Rightarrow>
             if length data = 0 then (NGX_HTTP_INTERNAL_SERVER_ERROR, w)
             else
               (let (ret, w) = coraza_append_request_body E (coraza_transaction (ctxs w i)) data
                                 (c_int (length data)) w in
                if ret \<noteq> 0 then (NGX_HTTP_INTERNAL_SERVER_ERROR, w)
                else if offset + int (length data) < body_size then
                  (let (ret, w) = ngx_http_coraza_process_intervention E (Some i) False w in
                   if r_error_page (req w) then (NGX_DECLINED, w)
                   else if ret < 0 then (NGX_HTTP_INTERNAL_SERVER_ERROR, w)
                   else if ret > 0 then (ret, trigger i w)
                   else append_request_body_loop E i name body_size (offset + int (length data)) w)
                else append_request_body_loop E i name body_size (offset + int (length data)) w))
      else (NGX_OK, w))"
  by pat_completeness auto
termination
  by (relation "measure (\<lambda>(E, i, name, body_size, offset, w). nat (body_size - offset))") auto

declare append_request_body_loop.simps [simp del]

definition ngx_http_coraza_append_request_body_file ::
  "env \<Rightarrow> nat \<Rightarrow> ngx_str \<times> int \<Rightarrow> world \<Rightarrow> int \<times> world" where
  "ngx_http_coraza_append_request_body_file E i temp_file w =
     (let (name, body_size) = temp_file in
      if body_size = 0 then (NGX_OK, w)
      else if body_size < 0 then (NGX_HTTP_INTERNAL_SERVER_ERROR, trigger i w)
      else
        (let fd = open_file E (trace w) name; w = emit (Open_file name fd) w in
         if \<not> fd then (NGX_HTTP_INTERNAL_SERVER_ERROR, trigger i w)
         else
           (let (rc, w) = append_request_body_loop E i name body_size 0 w;
                w = emit (Close_file name) w
            in (rc, if rc \<noteq> NGX_OK \<and> rc \<noteq> NGX_DECLINED then trigger i w else w))))"

text \<open>
  The check for an intervention between chunks and after the last one; a result
  is an early \<open>return\<close>.
\<close>

definition request_body_poll :: "env \<Rightarrow> nat \<Rightarrow> world \<Rightarrow> int option \<times> world" where
  "request_body_poll E i w =
     (let (ret, w) = ngx_http_coraza_process_intervention E (Some i) False w in
      if r_error_page (req w) then (Some NGX_DECLINED, w)
      else if ret < 0 then (Some NGX_HTTP_INTERNAL_SERVER_ERROR, trigger i w)
      else if ret > 0 then (Some ret, trigger i w)
      else (None, w))"

fun append_request_body_bufs :: "env \<Rightarrow> nat \<Rightarrow> ngx_buf list \<Rightarrow> world \<Rightarrow> int option \<times> world" where
  "append_request_body_bufs E i [] w = (None, w)"
| "append_request_body_bufs E i (b # chain) w =
     (let blen = length (b_data b) in
      if blen > INT_MAX then (Some NGX_HTTP_INTERNAL_SERVER_ERROR, trigger i w)
      else
        (let (ret, w) = (if blen > 0
                         then coraza_append_request_body E (coraza_transaction (ctxs w i)) (b_data b)
                                (c_int blen) w
                         else (0, w)) in
         if ret \<noteq> 0 then (Some NGX_HTTP_INTERNAL_SERVER_ERROR, trigger i w)
         else if b_last_buf b then (None, w)
         else
           (let (early, w) = request_body_poll E i w in
            case early of
              Some rc \<Rightarrow> (Some rc, w)
            | None \<Rightarrow> append_request_body_bufs E i chain w)))"

text \<open>Handing over the body, from the file or from memory.\<close>

definition submit_request_body :: "env \<Rightarrow> nat \<Rightarrow> request_body \<Rightarrow> world \<Rightarrow> int option \<times> world" where
  "submit_request_body E i rb w =
     (case rb_temp_file rb of
        Some temp_file \<Rightarrow>
          (let (rc, w) = ngx_http_coraza_append_request_body_file E i temp_file w in
           if rc \<noteq> NGX_OK then (Some rc, w) else (None, w))
      | None \<Rightarrow> append_request_body_bufs E i (rb_bufs rb) w)"

text \<open>The second half of the handler: \<open>waiting_more_body == 0 && body_submitted == 0\<close>.\<close>

definition pre_access_inspect :: "env \<Rightarrow> nat \<Rightarrow> world \<Rightarrow> int \<times> world" where
  "pre_access_inspect E i w =
     (case r_request_body (req w) of
        None \<Rightarrow> (NGX_DECLINED, w)
      | Some rb \<Rightarrow>
          (let w = upd_ctx i (\<lambda>c. c\<lparr>body_submitted := True\<rparr>) w;
               w = upd_req (\<lambda>r. r\<lparr>r_write_event_run_phases := True\<rparr>) w;
               (early, w) = submit_request_body E i rb w in
           case early of
             Some rc \<Rightarrow> (rc, w)
           | None \<Rightarrow>
               (let (early, w) = request_body_poll E i w in
                case early of
                  Some rc \<Rightarrow> (rc, w)
                | None \<Rightarrow> ngx_http_coraza_process_request_body_phase E i w)))"

definition pre_access_continue :: "env \<Rightarrow> nat \<Rightarrow> world \<Rightarrow> int \<times> world" where
  "pre_access_continue E i w =
     (if \<not> waiting_more_body (ctxs w i) \<and> \<not> body_submitted (ctxs w i)
      then pre_access_inspect E i w
      else (NGX_DECLINED, w))"

text \<open>
  \<open>ngx_http_read_client_request_body\<close>: the environment gives its result, the
  request it leaves, and whether the body was complete, in which case it has
  called the completion callback before returning.
\<close>

definition ngx_http_read_client_request_body :: "env \<Rightarrow> nat \<Rightarrow> world \<Rightarrow> int \<times> world" where
  "ngx_http_read_client_request_body E i w =
     (let (rc, called, r) = read_client_body E (trace w) (req w);
          w = emit (Read_client_body rc) (upd_req (\<lambda>_. r) w)
      in (rc, if called then request_read_ctx i w else w))"

text \<open>Asking nginx for the body; a result is an early \<open>return\<close>.\<close>

definition pre_access_read_body :: "env \<Rightarrow> nat \<Rightarrow> world \<Rightarrow> int option \<times> world" where
  "pre_access_read_body E i w =
     (let w = upd_ctx i (\<lambda>c. c\<lparr>body_requested := True\<rparr>) w;
          w = upd_req (\<lambda>r. r\<lparr>r_request_body_in_persistent_file := True\<rparr>) w;
          w = (if \<not> r_request_body_in_file_only (req w)
               then upd_req (\<lambda>r. r\<lparr>r_request_body_in_clean_file := True\<rparr>) w
               else w);
          (rc, w) = ngx_http_read_client_request_body E i w in
      if rc = NGX_ERROR \<or> rc \<ge> NGX_HTTP_SPECIAL_RESPONSE then (Some rc, w)
      else if rc = NGX_AGAIN then
        (Some NGX_DONE, upd_ctx i (\<lambda>c. c\<lparr>waiting_more_body := True\<rparr>) w)
      else (None, w))"

definition ngx_http_coraza_pre_access_handler :: "env \<Rightarrow> world \<Rightarrow> int \<times> world" where
  "ngx_http_coraza_pre_access_handler E w =
     (case mcf w of
        None \<Rightarrow> (NGX_DECLINED, w)
      | Some m \<Rightarrow>
          if lc_enable m \<noteq> 1 then (NGX_DECLINED, w)
          else
            (case module_ctx w of
               None \<Rightarrow> (NGX_HTTP_INTERNAL_SERVER_ERROR, w)
             | Some i \<Rightarrow>
                 if intervention_triggered (ctxs w i) then (NGX_DECLINED, w)
                 else if waiting_more_body (ctxs w i) then (NGX_DONE, w)
                 else if \<not> body_requested (ctxs w i) then
                   (let (accessible, w) = ngx_http_coraza_is_request_body_accessible E
                                            (coraza_transaction (ctxs w i)) w in
                    if accessible = 0 then ngx_http_coraza_process_request_body_phase E i w
                    else
                      (let (early, w) = pre_access_read_body E i w in
                       case early of
                         Some rc \<Rightarrow> (rc, w)
                       | None \<Rightarrow> pre_access_continue E i w))
                 else pre_access_continue E i w))"

section \<open>The handler acts by primitive effects\<close>

lemma runs_flag:
  assumes "runs E en i t w w'"
  shows "runs E en i t w (upd_ctx i (\<lambda>c. c\<lparr>waiting_more_body := b\<rparr>) w')"
    "runs E en i t w (upd_ctx i (\<lambda>c. c\<lparr>body_requested := True\<rparr>) w')"
    "runs E en i t w (upd_ctx i (\<lambda>c. c\<lparr>body_submitted := True\<rparr>) w')"
  by (rule runs_upd_ctx [OF assms], simp add: keeps_def)+

lemma runs_emit_run_phases: "runs E en i t w (emit Run_phases w)"
  by (rule runs_emit) simp_all

lemma runs_request_read_ctx: "runs E en i t w (request_read_ctx i w)"
  unfolding request_read_ctx_def
  by (rule runs_structure runs_emit_run_phases runs_flag runs_refl runs_upd_req)+

lemma runs_wrappers_ctx:
  "runs E en i t w (snd (coraza_append_request_body E (coraza_transaction (ctxs w i)) d l w))"
  "runs E en i t w (snd (coraza_process_request_body E (coraza_transaction (ctxs w i)) w))"
  "runs E en i t w (snd (ngx_http_coraza_is_request_body_accessible E (coraza_transaction (ctxs w i)) w))"
  by (rule runs_current, simp add: coraza_wrapper_defs runs_cgo plain_def)+

lemma runs_polls:
  "runs E en i t w (snd (ngx_http_coraza_process_intervention E (Some i) False w))"
  "runs E en i t w (snd (ngx_http_coraza_poll_after_process E (Some i) False pret w))"
  by (simp_all add: runs_process_intervention runs_poll_after_process)

lemma runs_process_request_body_phase:
  "runs E en i t w (snd (ngx_http_coraza_process_request_body_phase E i w))"
  unfolding ngx_http_coraza_process_request_body_phase_def
  by (rule runs_structure runs_wrappers_ctx runs_polls runs_trigger runs_refl)+

lemma runs_read_temp_file: "runs E en i t w (snd (read_temp_file E name len offset w))"
  by (simp add: read_temp_file_def Let_def runs_emit)

lemma runs_append_request_body_loop:
  "runs E en i t w (snd (append_request_body_loop E i name body_size offset w))"
proof (induction "nat (body_size - offset)" arbitrary: offset w rule: less_induct)
  case less
  have IH: "runs E en i t w' (snd (append_request_body_loop E i name body_size (offset + int k) w'))"
    if "offset < body_size" "k \<noteq> 0" for w' k
    using that by (intro less) auto
  show ?case
    by (subst append_request_body_loop.simps)
      (rule runs_structure runs_wrappers_ctx runs_polls runs_trigger runs_read_temp_file runs_refl
        IH | assumption)+
qed

lemma runs_append_request_body_file:
  "runs E en i t w (snd (ngx_http_coraza_append_request_body_file E i f w))"
  unfolding ngx_http_coraza_append_request_body_file_def
  by (rule runs_structure runs_case_pair runs_append_request_body_loop runs_trigger runs_refl
      | rule runs_emit; simp?)+

lemma runs_request_body_poll: "runs E en i t w (snd (request_body_poll E i w))"
  unfolding request_body_poll_def
  by (rule runs_structure runs_polls runs_trigger runs_refl)+

lemma runs_append_request_body_bufs:
  "runs E en i t w (snd (append_request_body_bufs E i chain w))"
proof (induction chain arbitrary: w)
  case (Cons b chain)
  show ?case
    unfolding append_request_body_bufs.simps
    by (rule runs_structure runs_wrappers_ctx runs_request_body_poll runs_trigger Cons.IH runs_refl)+
qed simp

lemma runs_submit_request_body: "runs E en i t w (snd (submit_request_body E i rb w))"
  unfolding submit_request_body_def
  by (rule runs_structure runs_append_request_body_file runs_append_request_body_bufs runs_refl)+

lemma runs_pre_access_inspect: "runs E en i t w (snd (pre_access_inspect E i w))"
  unfolding pre_access_inspect_def
  by (rule runs_structure runs_submit_request_body runs_request_body_poll
      runs_process_request_body_phase runs_flag runs_upd_req runs_refl)+

lemma runs_pre_access_continue: "runs E en i t w (snd (pre_access_continue E i w))"
  unfolding pre_access_continue_def
  by (rule runs_structure runs_pre_access_inspect runs_refl)+

lemma runs_read_client_request_body:
  "runs E en i t w (snd (ngx_http_read_client_request_body E i w))"
  unfolding ngx_http_read_client_request_body_def
  by (rule runs_structure runs_case_pair runs_request_read_ctx runs_upd_req runs_refl
      | rule runs_emit; simp?)+

lemma runs_pre_access_read_body: "runs E en i t w (snd (pre_access_read_body E i w))"
  unfolding pre_access_read_body_def
  by (rule runs_structure runs_read_client_request_body runs_flag runs_upd_req runs_refl)+

interpretation pre_access: handler ngx_http_coraza_pre_access_handler
proof (rule handler_of_runs)
  show "module_ctx w = None \<Longrightarrow> snd (ngx_http_coraza_pre_access_handler E w) = w \<or>
      prims E w (snd (ngx_http_coraza_pre_access_handler E w))" for E w
    by (simp add: ngx_http_coraza_pre_access_handler_def split: option.split)
next
  fix E :: env and w :: world and i
  assume m: "module_ctx w = Some i"
  show "runs E False i (coraza_transaction (ctxs w i)) w
      (snd (ngx_http_coraza_pre_access_handler E w))"
    unfolding ngx_http_coraza_pre_access_handler_def m option.case
    by (rule runs_structure runs_wrappers_ctx runs_process_request_body_phase
        runs_pre_access_continue runs_pre_access_read_body runs_refl)+
qed

section \<open>Which body bytes the engine has seen\<close>

text \<open>What an engine call adds to the request body of transaction \<open>t\<close>.\<close>

definition request_chunk :: "tx \<Rightarrow> event \<Rightarrow> bytes" where
  "request_chunk t e =
     (case e of
        Eng t' (Append_request_body d l) n \<Rightarrow> if t' = t \<and> n = 0 then take (nat l) d else []
      | _ \<Rightarrow> [])"

definition body_seen :: "tx \<Rightarrow> event list \<Rightarrow> bytes" where
  "body_seen t es = concat (map (request_chunk t) es)"

lemma body_seen_simps [simp]:
  "body_seen t [] = []"
  "body_seen t (es @ es') = body_seen t es @ body_seen t es'"
  "body_seen t (e # es) = request_chunk t e @ body_seen t es"
  by (simp_all add: body_seen_def)

lemma request_chunk_simps [simp]:
  "request_chunk t (Eng t (Append_request_body d l) 0) = take (nat l) d"
  "request_chunk t (Eng t Is_request_body_accessible n) = []"
  "request_chunk t (Read_client_body rc) = []" "request_chunk t Run_phases = []"
  "request_chunk t (Open_file s b) = []" "request_chunk t (Close_file s) = []"
  "request_chunk t (Read_file f p z rd) = []"
  by (simp_all add: request_chunk_def)

lemma body_seen_verdict: "\<forall>e \<in> set es. verdict_event e \<Longrightarrow> body_seen t es = []"
proof (induction es)
  case (Cons e es)
  then show ?case by (cases e rule: verdict_event.cases) (auto simp: request_chunk_def)
qed simp

text \<open>
  The body of a request: the buffers up to the one marked last, or the content
  of the temporary file.  \<open>serves E name content\<close> is what reading a file means:
  a read gives some prefix of what the file holds from that offset on.
\<close>

fun until_last :: "ngx_buf list \<Rightarrow> ngx_buf list" where
  "until_last [] = []"
| "until_last (b # bs) = b # (if b_last_buf b then [] else until_last bs)"

definition serves :: "env \<Rightarrow> ngx_str \<Rightarrow> bytes \<Rightarrow> bool" where
  "serves E name content \<longleftrightarrow>
     (\<forall>tr len off d. 0 \<le> off \<longrightarrow> read_temp E tr name len off = Some d
        \<longrightarrow> (\<exists>k. d = take k (drop (nat off) content)))"

definition body_of :: "env \<Rightarrow> request_body \<Rightarrow> bytes \<Rightarrow> bool" where
  "body_of E rb content \<longleftrightarrow>
     (case rb_temp_file rb of
        None \<Rightarrow> content = concat (map b_data (until_last (rb_bufs rb)))
      | Some (name, body_size) \<Rightarrow> body_size = int (length content) \<and> serves E name content)"

text \<open>A stretch of the handler that goes on: it has shown the engine \<open>bs\<close>.\<close>

definition shows_body :: "tx \<Rightarrow> bytes \<Rightarrow> world \<Rightarrow> world \<Rightarrow> bool" where
  "shows_body t bs w w' \<longleftrightarrow> same_request w w' \<and> ctxs w' = ctxs w \<and>
     (\<exists>new. trace w' = trace w @ new \<and> body_seen t new = bs)"

lemma shows_body_refl: "shows_body t [] w w"
  by (simp add: shows_body_def same_request_refl)

lemma shows_body_trans:
  assumes "shows_body t a w w'" "shows_body t b w' w''"
  shows "shows_body t (a @ b) w w''"
  using assms same_request_trans by (fastforce simp: shows_body_def)

lemma shows_body_emit: "shows_body t (request_chunk t e) w (emit e w)"
  by (simp add: shows_body_def same_request_refl)

lemma shows_body_process_intervention:
  assumes "ngx_http_coraza_process_intervention E c False w = (ret, w')"
  shows "shows_body t [] w w'"
  using adds_process_intervention [of w E c False]
    same_request_process_intervention [of w E c False]
    process_intervention_ctxs_quiet [of E c w] assms
  by (auto simp: shows_body_def adds_def body_seen_verdict)

lemma request_body_poll_None:
  assumes "request_body_poll E i w = (None, w')"
  shows "shows_body t [] w w'" "\<not> r_error_page (req w')"
  using assms shows_body_process_intervention
  by (auto simp: request_body_poll_def Let_def split: prod.splits if_splits)

lemma append_request_body_shows:
  assumes "coraza_append_request_body E t d (c_int (length d)) w = (0, w')" "length d \<le> INT_MAX"
  shows "shows_body t d w w'"
  using assms shows_body_emit [of t "Eng t (Append_request_body d (c_int (length d))) 0" w]
  by (auto simp: coraza_wrapper_defs cgo_def Let_def)

lemma append_request_body_bufs_None:
  assumes "append_request_body_bufs E i chain w = (None, w')" "coraza_transaction (ctxs w i) = t"
  shows "shows_body t (concat (map b_data (until_last chain))) w w'"
  using assms
proof (induction chain arbitrary: w)
  case Nil
  then show ?case by (simp add: shows_body_refl)
next
  case (Cons b chain)
  let ?c = "(if length (b_data b) > 0
      then coraza_append_request_body E t (b_data b) (c_int (length (b_data b))) w else (0, w))"
  obtain w1 where c: "?c = (0, w1)" and le: "length (b_data b) \<le> INT_MAX"
    using Cons.prems by (auto simp: Let_def split: if_splits prod.splits)
  have s1: "shows_body t (b_data b) w w1"
    using c append_request_body_shows [OF _ le] by (auto simp: shows_body_refl split: if_splits)
  show ?case
  proof (cases "b_last_buf b")
    case True
    then show ?thesis using Cons.prems c le s1 by auto
  next
    case False
    obtain w2 where p: "request_body_poll E i w1 = (None, w2)"
      and r: "append_request_body_bufs E i chain w2 = (None, w')"
      using Cons.prems c le False by (auto simp: Let_def split: prod.splits option.splits)
    note s2 = request_body_poll_None(1) [OF p, of t]
    have "coraza_transaction (ctxs w2 i) = t"
      using s1 s2 Cons.prems(2) by (simp add: shows_body_def)
    then show ?thesis
      using shows_body_trans [OF s1 shows_body_trans [OF s2 Cons.IH [OF r]]] False by simp
  qed
qed

lemma read_temp_file_serves:
  assumes "read_temp_file E name len off w = (Some d, w')" "serves E name content" "0 \<le> off"
  shows "shows_body t [] w w' \<and> (\<exists>k. d = take k (drop (nat off) content)) \<and> length d \<le> len"
  using assms shows_body_emit [of t "Read_file 0 off len (Some d)" w]
  by (auto simp: read_temp_file_def serves_def Let_def min_def dest!: spec)

text \<open>The size of the next read, and one full round of the loop.\<close>

abbreviation next_size :: "int \<Rightarrow> nat" where
  "next_size left \<equiv> (if left > int NGX_HTTP_CORAZA_REQUEST_BODY_FILE_CHUNK_SIZE
     then NGX_HTTP_CORAZA_REQUEST_BODY_FILE_CHUNK_SIZE else nat left)"

lemma append_request_body_loop_step:
  assumes lt: "off < sz" and len: "len = next_size (sz - off)"
    and rd: "read_temp_file E name len off w = (Some d, w1)" and ne: "d \<noteq> []"
    and ap: "coraza_append_request_body E (coraza_transaction (ctxs w1 i)) d (c_int (length d)) w1
      = (ret, w2)"
    and iv: "ngx_http_coraza_process_intervention E (Some i) False w2 = (r3, w3)"
  shows "append_request_body_loop E i name sz off w =
      (if ret \<noteq> 0 then (NGX_HTTP_INTERNAL_SERVER_ERROR, w2)
       else if off + int (length d) < sz then
         if r_error_page (req w3) then (NGX_DECLINED, w3)
         else if r3 < 0 then (NGX_HTTP_INTERNAL_SERVER_ERROR, w3)
         else if r3 > 0 then (r3, trigger i w3)
         else append_request_body_loop E i name sz (off + int (length d)) w3
       else append_request_body_loop E i name sz (off + int (length d)) w2)"
  unfolding append_request_body_loop.simps [of E i name sz off w] Let_def rd [unfolded len]
    prod.case option.case ap iv
  using lt ne by (simp only: if_True if_False length_0_conv)

lemma append_request_body_loop_round:
  assumes "append_request_body_loop E i name sz off w = (NGX_OK, w')" and "off < sz"
  obtains d w1 w2 w3 where "read_temp_file E name (next_size (sz - off)) off w = (Some d, w1)"
    and "d \<noteq> []"
    and "coraza_append_request_body E (coraza_transaction (ctxs w1 i)) d (c_int (length d)) w1 = (0, w2)"
    and "w3 = w2 \<or> w3 = snd (ngx_http_coraza_process_intervention E (Some i) False w2)"
    and "append_request_body_loop E i name sz (off + int (length d)) w3 = (NGX_OK, w')"
proof -
  obtain n w1 where rd: "read_temp_file E name (next_size (sz - off)) off w = (n, w1)" by fastforce
  note unf = assms(1) [unfolded append_request_body_loop.simps [of E i name sz off w]]
  obtain d where n: "n = Some d" "d \<noteq> []"
    using unf assms(2) rd by (cases n) (auto split: if_splits)
  obtain ret w2 where ap: "coraza_append_request_body E (coraza_transaction (ctxs w1 i)) d
      (c_int (length d)) w1 = (ret, w2)" by fastforce
  obtain r3 w3 where iv: "ngx_http_coraza_process_intervention E (Some i) False w2 = (r3, w3)"
    by fastforce
  show thesis
  proof (rule that [OF rd [unfolded n] n(2)])
    show "coraza_append_request_body E (coraza_transaction (ctxs w1 i)) d (c_int (length d)) w1 = (0, w2)"
      using unf assms(2) rd n ap by (simp split: if_splits)
    show "append_request_body_loop E i name sz (off + int (length d))
        (if off + int (length d) < sz then w3 else w2) = (NGX_OK, w')"
      using unf assms(2) rd n ap iv by (simp split: if_splits)
  qed (use iv in simp)
qed

lemma take_drop_rest:
  "take k (drop off xs) @ drop (off + length (take k (drop off xs))) xs = drop off xs"
proof -
  have "drop (off + length (take k (drop off xs))) xs = drop (length (take k (drop off xs))) (drop off xs)"
    by (simp add: add.commute)
  also have "\<dots> = drop k (drop off xs)" by (cases "k \<le> length xs - off") auto
  finally show ?thesis by (simp only: append_take_drop_id)
qed

lemma append_request_body_loop_OK:
  assumes "append_request_body_loop E i name (int (length content)) (int off) w = (NGX_OK, w')"
    and "serves E name content" "coraza_transaction (ctxs w i) = t"
  shows "shows_body t (drop off content) w w'"
  using assms(1,3)
proof (induction "length content - off" arbitrary: off w rule: less_induct)
  case less
  show ?case
  proof (cases "off < length content")
    case False
    then show ?thesis using less.prems
      by (simp add: append_request_body_loop.simps shows_body_refl)
  next
    case True
    then have "int off < int (length content)" by simp
    from append_request_body_loop_round [OF less.prems(1) this] obtain d w1 w2 w3 where
      rd: "read_temp_file E name (next_size (int (length content) - int off)) (int off) w = (Some d, w1)"
      and ne: "d \<noteq> []"
      and ap: "coraza_append_request_body E (coraza_transaction (ctxs w1 i)) d (c_int (length d)) w1 = (0, w2)"
      and w3: "w3 = w2 \<or> w3 = snd (ngx_http_coraza_process_intervention E (Some i) False w2)"
      and rec: "append_request_body_loop E i name (int (length content)) (int (off + length d)) w3 = (NGX_OK, w')"
      unfolding of_nat_add by blast
    from read_temp_file_serves [OF rd assms(2), of t] obtain k where
      s1: "shows_body t [] w w1" and d: "d = take k (drop off content)"
      and le: "length d \<le> next_size (int (length content) - int off)" by auto
    have t1: "coraza_transaction (ctxs w1 i) = t"
      using s1 less.prems(2) by (simp add: shows_body_def)
    have "length d \<le> INT_MAX" using le by (simp split: if_splits)
    note s2 = append_request_body_shows [OF ap [unfolded t1] this]
    have s3: "shows_body t [] w2 w3"
      using w3 shows_body_refl shows_body_process_intervention [OF prod.collapse [symmetric]] by auto
    have t3: "coraza_transaction (ctxs w3 i) = t"
      using s1 s2 s3 less.prems(2) by (simp add: shows_body_def)
    have lt: "length content - (off + length d) < length content - off"
      using True ne by (cases d) auto
    have cont: "d @ drop (off + length d) content = drop off content"
      unfolding d by (rule take_drop_rest)
    show ?thesis
      using shows_body_trans [OF s1 shows_body_trans [OF s2 shows_body_trans [OF s3 less.hyps [OF lt rec t3]]]]
      by (simp add: cont)
  qed
qed

lemma append_request_body_file_OK:
  assumes "ngx_http_coraza_append_request_body_file E i (name, int (length content)) w = (NGX_OK, w')"
    and "serves E name content" "coraza_transaction (ctxs w i) = t"
  shows "shows_body t content w w'"
proof (cases "content = []")
  case True
  then show ?thesis using assms(1)
    by (simp add: ngx_http_coraza_append_request_body_file_def shows_body_refl)
next
  case False
  let ?w1 = "emit (Open_file name True) w"
  obtain rc w2 where l: "append_request_body_loop E i name (int (length content)) (int 0) ?w1 = (rc, w2)"
    by fastforce
  have rc: "rc = NGX_OK" "w' = emit (Close_file name) w2"
    using assms(1) False l
    by (auto simp: ngx_http_coraza_append_request_body_file_def Let_def split: if_splits)
  have "shows_body t (drop 0 content) ?w1 w2"
    using append_request_body_loop_OK [OF l [unfolded rc] assms(2)] assms(3) by simp
  from shows_body_trans [OF shows_body_emit [of t "Open_file name True"] shows_body_trans [OF this
      shows_body_emit [of t "Close_file name" w2]]]
  show ?thesis by (simp add: rc)
qed

lemma submit_request_body_None:
  assumes "submit_request_body E i rb w = (None, w')" "body_of E rb content"
    and "coraza_transaction (ctxs w i) = t"
  shows "shows_body t content w w'"
proof (cases "rb_temp_file rb")
  case None
  then show ?thesis
    using append_request_body_bufs_None [OF _ assms(3)] assms(1,2)
    by (simp add: submit_request_body_def body_of_def)
next
  case (Some f)
  then obtain name where "f = (name, int (length content))" "serves E name content"
    using assms(2) by (cases f) (simp add: body_of_def)
  then show ?thesis
    using append_request_body_file_OK [OF _ _ assms(3)] assms(1) Some
    by (auto simp: submit_request_body_def Let_def split: prod.splits if_splits)
qed

section \<open>Properties\<close>

text \<open>
  Phase 2 was evaluated after the events \<open>new\<close>, and let the request pass.
\<close>

definition passed_phase2 :: "env \<Rightarrow> tx \<Rightarrow> event list \<Rightarrow> event list \<Rightarrow> bool" where
  "passed_phase2 E t before tr \<longleftrightarrow>
     (\<exists>n after. tr = before @ Eng t Process_request_body n # after \<and> 0 \<le> n \<and>
        (n = CORAZA_INTERRUPTION \<longrightarrow>
           (\<forall>iv. eng_intervention E (before @ [Eng t Process_request_body n]) t = Some iv
              \<longrightarrow> iv_status iv = 200 \<or> iv_status iv = 0)))"

lemma process_request_body_phase_declined:
  assumes "ngx_http_coraza_process_request_body_phase E i w = (NGX_DECLINED, w')"
    and "\<not> r_error_page (req w')" "coraza_transaction (ctxs w i) = t"
  shows "passed_phase2 E t (trace w) (trace w') \<and> same_request w w' \<and> ctxs w' = ctxs w"
proof -
  define n where "n = eng E (trace w) t Process_request_body"
  let ?w1 = "emit (Eng t Process_request_body n) w"
  obtain ret w2 where p: "ngx_http_coraza_poll_after_process E (Some i) False n ?w1 = (ret, w2)"
    by fastforce
  have d: "w' = w2" "ret = 0"
    using assms p
    by (auto simp: ngx_http_coraza_process_request_body_phase_def coraza_wrapper_defs cgo_def
        Let_def n_def split: if_splits)
  have v: "0 \<le> n" "n = CORAZA_INTERRUPTION \<longrightarrow> lets_pass E i ?w1"
    using poll_OK_iff [of E i False n ?w1] p d by simp_all
  obtain new where "trace w2 = trace ?w1 @ new"
    using ext_poll [of ?w1 E "Some i" False n] p by (auto simp: ext_def)
  moreover have "same_request w w2" "ctxs w2 = ctxs w"
    using same_request_poll [of ?w1 E "Some i" False n] poll_ctxs_quiet [of E "Some i" n ?w1] p
    by (simp_all add: same_request_def)
  ultimately show ?thesis using d v assms(3)
    by (auto simp: lets_pass_def passed_phase2_def split: option.splits)
qed

lemma request_body_poll_Some:
  "request_body_poll E i w = (Some NGX_DECLINED, w') \<Longrightarrow> r_error_page (req w')"
  by (auto simp: request_body_poll_def Let_def split: if_splits prod.splits)

lemma append_request_body_bufs_Some:
  "append_request_body_bufs E i chain w = (Some NGX_DECLINED, w') \<Longrightarrow> r_error_page (req w')"
proof (induction chain arbitrary: w)
  case (Cons b chain)
  then show ?case
    by (fastforce simp: Let_def dest: request_body_poll_Some
        split: if_splits prod.splits option.splits)
qed simp

lemma append_request_body_loop_declined:
  "append_request_body_loop E i name sz off w = (NGX_DECLINED, w') \<Longrightarrow> r_error_page (req w')"
proof (induction "nat (sz - off)" arbitrary: off w rule: less_induct)
  case less
  note unf = less.prems [unfolded append_request_body_loop.simps [of E i name sz off w]]
  have lt: "off < sz" using unf by (simp split: if_splits)
  obtain n w1 where rd: "read_temp_file E name (next_size (sz - off)) off w = (n, w1)" by fastforce
  obtain d where n: "n = Some d" "d \<noteq> []"
    using unf lt rd by (cases n) (auto split: if_splits)
  obtain ret w2 where ap: "coraza_append_request_body E (coraza_transaction (ctxs w1 i)) d
      (c_int (length d)) w1 = (ret, w2)" by fastforce
  obtain r3 w3 where iv: "ngx_http_coraza_process_intervention E (Some i) False w2 = (r3, w3)"
    by fastforce
  have IH: "append_request_body_loop E i name sz (off + int (length d)) v = (NGX_DECLINED, w')
      \<Longrightarrow> r_error_page (req w')" for v
    by (rule less.hyps) (use lt n in auto)
  show ?case
    using unf lt rd n ap iv IH by (simp split: if_splits)
qed

lemma submit_request_body_declined:
  assumes "submit_request_body E i rb w = (Some NGX_DECLINED, w')"
  shows "r_error_page (req w')"
proof (cases "rb_temp_file rb")
  case None
  then show ?thesis using assms append_request_body_bufs_Some by (simp add: submit_request_body_def)
next
  case (Some f)
  show ?thesis
  proof (cases "append_request_body_loop E i (fst f) (snd f) 0 (emit (Open_file (fst f) True) w)")
    case (Pair rc w2)
    then show ?thesis
      using assms Some append_request_body_loop_declined [of E i "fst f" "snd f"]
      by (auto simp: submit_request_body_def ngx_http_coraza_append_request_body_file_def Let_def
          split: prod.splits if_splits)
  qed
qed

text \<open>Handing over the body leaves the request as it was, whatever the outcome.\<close>

lemma same_request_append:
  "same_request v (snd (coraza_append_request_body E t d l w)) = same_request v w"
  by (simp add: coraza_wrapper_defs snd_cgo)

lemma same_request_read:
  "same_request v (snd (read_temp_file E name len off w)) = same_request v w"
  by (simp add: read_temp_file_def Let_def)

lemma same_request_intervention:
  "same_request v w \<Longrightarrow> same_request v (snd (ngx_http_coraza_process_intervention E c early w))"
  using same_request_process_intervention same_request_trans by blast

lemma append_request_body_loop_same:
  "same_request v w \<Longrightarrow> same_request v (snd (append_request_body_loop E i name sz off w))"
proof (induction "nat (sz - off)" arbitrary: off w rule: less_induct)
  case less
  obtain n w1 where rd: "read_temp_file E name (next_size (sz - off)) off w = (n, w1)" by fastforce
  have w1: "same_request v w1" using same_request_read [of v] less.prems rd by (metis snd_conv)
  have IH: "same_request v u \<Longrightarrow> off < sz \<Longrightarrow> d \<noteq> [] \<Longrightarrow>
      same_request v (snd (append_request_body_loop E i name sz (off + int (length d)) u))"
    for u and d :: bytes by (rule less.hyps) auto
  show ?case
  proof (cases n)
    case None
    then show ?thesis using w1 less.prems rd by (subst append_request_body_loop.simps) simp
  next
    case (Some d)
    obtain ret w2 where ap: "coraza_append_request_body E (coraza_transaction (ctxs w1 i)) d
        (c_int (length d)) w1 = (ret, w2)" by fastforce
    have w2: "same_request v w2" using same_request_append [of v] w1 ap by (metis snd_conv)
    obtain r3 w3 where iv: "ngx_http_coraza_process_intervention E (Some i) False w2 = (r3, w3)"
      by fastforce
    have w3: "same_request v w3" using same_request_intervention [OF w2] iv by (metis snd_conv)
    show ?thesis
      using rd Some ap iv less.prems w1 w2 w3 IH
      by (subst append_request_body_loop.simps) simp
  qed
qed

lemma request_body_poll_same:
  "same_request v w \<Longrightarrow> same_request v (snd (request_body_poll E i w))"
  using same_request_intervention [of v w E "Some i" False]
  by (auto simp: request_body_poll_def Let_def split: prod.split)

lemma append_request_body_bufs_same:
  "same_request v w \<Longrightarrow> same_request v (snd (append_request_body_bufs E i chain w))"
proof (induction chain arbitrary: w)
  case (Cons b chain)
  let ?c = "(if length (b_data b) > 0
      then coraza_append_request_body E (coraza_transaction (ctxs w i)) (b_data b)
        (c_int (length (b_data b))) w else (0, w))"
  obtain r1 w1 where c: "?c = (r1, w1)" by fastforce
  have w1: "same_request v w1"
    using c Cons.prems same_request_append [of v E "coraza_transaction (ctxs w i)" "b_data b"
        "c_int (length (b_data b))" w] by (auto split: if_splits)
  obtain e w2 where p: "request_body_poll E i w1 = (e, w2)" by fastforce
  have w2: "same_request v w2" using request_body_poll_same [OF w1, of E i] p by simp
  show ?case
    unfolding append_request_body_bufs.simps Let_def c prod.case p
    using Cons.prems w1 w2 Cons.IH [OF w2] by (cases e) simp_all
qed simp

lemma submit_request_body_same: "same_request w (snd (submit_request_body E i rb w))"
proof -
  have "append_request_body_loop E i name sz off (emit e w) = (r, u) \<Longrightarrow> same_request w u"
    for name sz off e r u
    using append_request_body_loop_same [of w "emit e w" E i name sz off] same_request_refl by simp
  then show ?thesis
    using append_request_body_bufs_same [OF same_request_refl]
    by (auto simp: submit_request_body_def ngx_http_coraza_append_request_body_file_def Let_def
        same_request_refl split: option.split prod.split)
qed

lemma pre_access_inspect_declined:
  assumes "pre_access_inspect E i w = (NGX_DECLINED, w')" "\<not> r_error_page (req w')"
    and "r_request_body (req w') = Some rb" "body_of E rb content"
    and "coraza_transaction (ctxs w i) = t"
  shows "\<exists>new. body_seen t new = content \<and> passed_phase2 E t (trace w @ new) (trace w')"
proof -
  obtain rb' where rb': "r_request_body (req w) = Some rb'"
    using assms(1,3) by (cases "r_request_body (req w)") (auto simp: pre_access_inspect_def)
  let ?w1 = "upd_req (\<lambda>r. r\<lparr>r_write_event_run_phases := True\<rparr>)
      (upd_ctx i (\<lambda>c. c\<lparr>body_submitted := True\<rparr>) w)"
  obtain e1 w2 where s: "submit_request_body E i rb' ?w1 = (e1, w2)" by fastforce
  have e1: "e1 = None"
    using assms(1,2) rb' s submit_request_body_declined [of E i rb' ?w1 w2]
    by (cases e1) (auto simp: pre_access_inspect_def)
  obtain e2 w3 where p: "request_body_poll E i w2 = (e2, w3)" by fastforce
  have e2: "e2 = None"
    using assms(1,2) rb' s e1 p request_body_poll_Some [of E i w2 w3]
    by (cases e2) (auto simp: pre_access_inspect_def)
  have ph: "ngx_http_coraza_process_request_body_phase E i w3 = (NGX_DECLINED, w')"
    using assms(1) rb' s e1 p e2 by (simp add: pre_access_inspect_def)
  note d = process_request_body_phase_declined [OF ph assms(2) refl]
  have "r_request_body (req w') = Some rb'"
    using same_request_sel(3) [of ?w1 w2] same_request_sel(3) [of w2 w3] same_request_sel(3) [of w3 w']
      submit_request_body_same [of ?w1 E i rb'] request_body_poll_same [OF same_request_refl, of w2 E i]
      s p d rb' by simp
  then have sb: "shows_body t content ?w1 w2"
    using submit_request_body_None [OF s [unfolded e1]] assms(3-5) by simp
  note q = shows_body_trans [OF sb request_body_poll_None(1) [OF p [unfolded e2]]]
  then have "coraza_transaction (ctxs w3 i) = t" using assms(5) by (simp add: shows_body_def)
  moreover obtain new where "trace w3 = trace w @ new" "body_seen t new = content"
    using q by (auto simp: shows_body_def)
  ultimately show ?thesis using d by auto
qed

lemma request_read_ctx_world:
  "r_request_body (req (request_read_ctx i w)) = r_request_body (req w)"
  "coraza_transaction (ctxs (request_read_ctx i w) j) = coraza_transaction (ctxs w j)"
  "body_submitted (ctxs (request_read_ctx i w) j) = body_submitted (ctxs w j)"
  "\<not> waiting_more_body (ctxs w i) \<Longrightarrow> waiting_more_body (ctxs (request_read_ctx i w) j) = waiting_more_body (ctxs w j)"
  "\<exists>new. trace (request_read_ctx i w) = trace w @ new \<and> body_seen t new = []"
  by (auto simp: request_read_ctx_def Let_def)

lemma pre_access_read_body_None:
  assumes "pre_access_read_body E i w = (None, w')" "\<not> waiting_more_body (ctxs w i)"
    "\<not> body_submitted (ctxs w i)"
  shows "coraza_transaction (ctxs w' i) = coraza_transaction (ctxs w i)"
    "\<not> waiting_more_body (ctxs w' i)" "\<not> body_submitted (ctxs w' i)"
    "\<exists>new. trace w' = trace w @ new \<and> body_seen t new = []"
proof -
  obtain v rc where "w' = v \<or> w' = request_read_ctx i v"
    and v: "trace v = trace w @ [Read_client_body rc]"
      "ctxs v = (ctxs w)(i := (ctxs w i)\<lparr>body_requested := True\<rparr>)"
    using assms(1)
    by (fastforce simp: pre_access_read_body_def ngx_http_read_client_request_body_def Let_def
        split: prod.splits if_splits)
  then show "coraza_transaction (ctxs w' i) = coraza_transaction (ctxs w i)"
    "\<not> waiting_more_body (ctxs w' i)" "\<not> body_submitted (ctxs w' i)"
    using assms(2,3) request_read_ctx_world(2,3) [of i v] request_read_ctx_world(4) [of v i] by auto
  show "\<exists>new. trace w' = trace w @ new \<and> body_seen t new = []"
    using v(1) \<open>w' = v \<or> w' = request_read_ctx i v\<close> request_read_ctx_world(5) [of i v t] by fastforce
qed

lemma pre_access_read_body_Some:
  "pre_access_read_body E i w = (Some rc, w') \<Longrightarrow> rc \<noteq> NGX_DECLINED"
  by (auto simp: pre_access_read_body_def Let_def split: prod.splits if_splits)

lemma pre_access_continue_declined:
  assumes "pre_access_continue E i w = (NGX_DECLINED, w')" "\<not> r_error_page (req w')"
    and "r_request_body (req w') = Some rb" "body_of E rb content"
    and "coraza_transaction (ctxs w i) = t"
    and "\<not> waiting_more_body (ctxs w i)" "\<not> body_submitted (ctxs w i)"
  shows "\<exists>new. body_seen t new = content \<and> passed_phase2 E t (trace w @ new) (trace w')"
  using pre_access_inspect_declined [OF _ assms(2-5)] assms(1,6,7)
  by (simp add: pre_access_continue_def)

lemma pre_access_handler_declined:
  assumes "module_ctx w = Some i" and "mcf w = Some m" and "lc_enable m = 1"
    and "\<not> intervention_triggered (ctxs w i)" and "\<not> body_submitted (ctxs w i)"
    and "ngx_http_coraza_pre_access_handler E w = (NGX_DECLINED, w')"
    and "\<not> r_error_page (req w')"
    and "r_request_body (req w') = Some rb" and "body_of E rb content"
    and t_def: "t = coraza_transaction (ctxs w i)"
  shows "\<exists>new. passed_phase2 E t (trace w @ new) (trace w') \<and>
    (body_seen t new = content \<or> new = [Eng t Is_request_body_accessible 0])"
proof (cases "body_requested (ctxs w i)")
  case True
  then have "pre_access_continue E i w = (NGX_DECLINED, w')" "\<not> waiting_more_body (ctxs w i)"
    using assms(1-4,6) by (auto simp: ngx_http_coraza_pre_access_handler_def split: if_splits)
  then show ?thesis
    using pre_access_continue_declined [OF _ assms(7-9)] assms(5) t_def by blast
next
  case False
  have nw: "\<not> waiting_more_body (ctxs w i)"
    using assms(1-4,6) by (auto simp: ngx_http_coraza_pre_access_handler_def split: if_splits)
  define n where "n = eng E (trace w) t Is_request_body_accessible"
  define w1 where "w1 = emit (Eng t Is_request_body_accessible n) w"
  have acc: "ngx_http_coraza_is_request_body_accessible E t w = (n, w1)"
    by (simp add: coraza_wrapper_defs cgo_def Let_def n_def w1_def)
  have t1: "coraza_transaction (ctxs w1 i) = t" by (simp add: w1_def t_def)
  show ?thesis
  proof (cases "n = 0")
    case True
    have "ngx_http_coraza_process_request_body_phase E i w1 = (NGX_DECLINED, w')"
      using assms(1-4,6) nw \<open>\<not> body_requested (ctxs w i)\<close> acc True
      by (simp add: ngx_http_coraza_pre_access_handler_def t_def)
    from process_request_body_phase_declined [OF this assms(7) t1] show ?thesis
      using True by (auto simp: w1_def)
  next
    case n: False
    obtain early w2 where rd: "pre_access_read_body E i w1 = (early, w2)" by fastforce
    have early: "early = None" and co: "pre_access_continue E i w2 = (NGX_DECLINED, w')"
      using assms(1-4,6) nw \<open>\<not> body_requested (ctxs w i)\<close> acc n rd pre_access_read_body_Some [of E i w1]
      by (auto simp: ngx_http_coraza_pre_access_handler_def t_def split: option.splits)
    have "\<not> waiting_more_body (ctxs w1 i)" "\<not> body_submitted (ctxs w1 i)"
      using nw assms(5) by (simp_all add: w1_def)
    note rw = pre_access_read_body_None [OF rd [unfolded early] this]
    from pre_access_continue_declined [OF co assms(7-9) rw(1) [unfolded t1] rw(2,3)] obtain new where
      new: "body_seen t new = content" "passed_phase2 E t (trace w2 @ new) (trace w')" by blast
    obtain a where a: "trace w2 = trace w1 @ a" "body_seen t a = []" using rw(4) by blast
    have "trace w2 @ new = trace w @ (Eng t Is_request_body_accessible n # a @ new)"
      using a by (simp add: w1_def)
    moreover have "body_seen t (Eng t Is_request_body_accessible n # a @ new) = content"
      using a new by simp
    ultimately show ?thesis using new(2) by metis
  qed
qed

text \<open>
  C2: in a location with \<open>coraza on\<close>, let the preaccess handler return \<open>NGX_DECLINED\<close>
  for a request whose context exists, is not marked by an intervention and has not
  submitted a body yet, with a body present after the run and no error page being
  served.  Then phase 2 has been evaluated and has not denied, and before that either
  the engine was given the whole body, byte for byte and in order, wherever nginx
  keeps it (the buffers in memory, or a temporary file read with any pattern of short
  reads), or the engine itself had said it does not want the body, and was given none
  of it.  (While an error page is being served the handler ignores a denial.)
\<close>

theorem pre_access_lets_pass_only_inspected:
  assumes "module_ctx w = Some i" and "mcf w = Some m" and "lc_enable m = 1"
    and "\<not> intervention_triggered (ctxs w i)" and "\<not> body_submitted (ctxs w i)"
    and "ngx_http_coraza_pre_access_handler E w = (NGX_DECLINED, w')"
    and "\<not> r_error_page (req w')"
    and "r_request_body (req w') = Some rb" and "body_of E rb content"
  defines "t \<equiv> coraza_transaction (ctxs w i)"
  shows "\<exists>new. passed_phase2 E t (trace w @ new) (trace w') \<and>
    (body_seen t new = content \<or> new = [Eng t Is_request_body_accessible 0])"
  using pre_access_handler_declined [OF assms(1-9)] by (simp add: t_def)

text \<open>A request with a three-byte body in two buffers, past phase 1.\<close>

definition sample_body_world :: world where
  "sample_body_world = sample_world\<lparr>
     req := sample_request\<lparr>r_request_body := Some \<lparr>rb_bufs =
       [mem_buf [104, 105], (mem_buf [33])\<lparr>b_last_buf := True\<rparr>], rb_temp_file = None\<rparr>\<rparr>,
     ctxs := (\<lambda>_. zero_ctx\<lparr>coraza_transaction := 5\<rparr>), next_ctx := 1, module_ctx := Some 0\<rparr>"

lemmas pre_access_defs =
  ngx_http_coraza_pre_access_handler_def pre_access_read_body_def pre_access_continue_def
  pre_access_inspect_def submit_request_body_def request_body_poll_def
  ngx_http_read_client_request_body_def request_read_ctx_def
  ngx_http_coraza_process_request_body_phase_def ngx_http_coraza_process_body_failed_def
  ngx_http_coraza_poll_after_process_def ngx_http_coraza_process_intervention_def
  coraza_intervention_def coraza_wrapper_defs cgo_def

lemma pre_access_sample:
  "fst (ngx_http_coraza_pre_access_handler sample_env sample_body_world) = NGX_DECLINED"
  "r_error_page (req (snd (ngx_http_coraza_pre_access_handler sample_env sample_body_world))) = False"
  "r_request_body (req (snd (ngx_http_coraza_pre_access_handler sample_env sample_body_world)))
     = r_request_body (req sample_body_world)"
  by (simp_all add: pre_access_defs sample_body_world_def sample_defs mem_buf_def empty_buf_def Let_def)

theorem pre_access_lets_pass_only_inspected_witness:
  "\<exists>new. passed_phase2 sample_env 5 new
      (trace (snd (ngx_http_coraza_pre_access_handler sample_env sample_body_world))) \<and>
    (body_seen 5 new = [104, 105, 33] \<or> new = [Eng 5 Is_request_body_accessible 0])"
proof -
  let ?w = "sample_body_world"
  have "\<exists>new. passed_phase2 sample_env (coraza_transaction (ctxs ?w 0)) (trace ?w @ new)
      (trace (snd (ngx_http_coraza_pre_access_handler sample_env ?w))) \<and>
    (body_seen (coraza_transaction (ctxs ?w 0)) new = [104, 105, 33] \<or>
     new = [Eng (coraza_transaction (ctxs ?w 0)) Is_request_body_accessible 0])"
  proof (rule pre_access_lets_pass_only_inspected)
    show "ngx_http_coraza_pre_access_handler sample_env ?w =
        (NGX_DECLINED, snd (ngx_http_coraza_pre_access_handler sample_env ?w))"
      using pre_access_sample(1) by (simp add: prod_eq_iff)
    show "r_request_body (req (snd (ngx_http_coraza_pre_access_handler sample_env ?w)))
        = Some (the (r_request_body (req ?w)))"
      by (simp add: pre_access_sample(3)) (simp add: sample_body_world_def)
    show "body_of sample_env (the (r_request_body (req ?w))) [104, 105, 33]"
      by (simp add: body_of_def sample_body_world_def mem_buf_def empty_buf_def)
    show "module_ctx ?w = Some 0" "mcf ?w = Some sample_conf" "lc_enable sample_conf = 1"
      "\<not> intervention_triggered (ctxs ?w 0)" "\<not> body_submitted (ctxs ?w 0)"
      by (simp_all add: sample_body_world_def sample_defs)
    show "\<not> r_error_page (req (snd (ngx_http_coraza_pre_access_handler sample_env ?w)))"
      by (simp add: pre_access_sample(2))
  qed
  then show ?thesis by (simp add: sample_body_world_def sample_world_def)
qed

text \<open>
  C24: once the body of a request has been handed over, no later run of the
  preaccess handler on that context touches the engine: whatever the module and
  nginx have done in between, the state is left as it is, and the answer is
  \<open>NGX_DECLINED\<close> (or \<open>NGX_DONE\<close> while waiting).
\<close>

theorem body_not_resubmitted:
  assumes "prims E w w'" and "module_ctx w = Some i"
    and "body_requested (ctxs w i)" and "body_submitted (ctxs w i)"
  shows "snd (ngx_http_coraza_pre_access_handler E w') = w' \<and>
    fst (ngx_http_coraza_pre_access_handler E w') \<in> {NGX_DECLINED, NGX_DONE}"
proof -
  have "module_ctx w' = Some i" "body_requested (ctxs w' i)" "body_submitted (ctxs w' i)"
    using prims_current [OF assms(1,2)] assms(3,4) by (simp_all add: grows_def)
  then show ?thesis
    by (simp add: ngx_http_coraza_pre_access_handler_def pre_access_continue_def split: option.split)
qed

lemma pre_access_sample_flags:
  "body_submitted (ctxs (snd (ngx_http_coraza_pre_access_handler sample_env sample_body_world)) 0)"
  "body_requested (ctxs (snd (ngx_http_coraza_pre_access_handler sample_env sample_body_world)) 0)"
  by (simp_all add: pre_access_defs sample_body_world_def sample_defs mem_buf_def empty_buf_def Let_def)

theorem body_not_resubmitted_witness:
  "let w = snd (ngx_http_coraza_pre_access_handler sample_env sample_body_world)
   in snd (ngx_http_coraza_pre_access_handler sample_env w) = w \<and>
      fst (ngx_http_coraza_pre_access_handler sample_env w) \<in> {NGX_DECLINED, NGX_DONE}"
  unfolding Let_def
  by (rule body_not_resubmitted [OF rtranclp.rtrancl_refl _ pre_access_sample_flags(2,1)])
    (rule pre_access.keeps_current, simp add: sample_body_world_def)

text \<open>
  Refusals: the engine did not take a chunk, or could not evaluate phase 2.
\<close>

fun refused :: "event \<Rightarrow> bool" where
  "refused (Eng _ (Append_request_body _ _) n) = (n \<noteq> 0)"
| "refused (Eng _ Process_request_body n) = (n < 0)"
| "refused _ = False"

lemma verdict_not_refused: "verdict_event e \<Longrightarrow> \<not> refused e"
  by (cases e rule: verdict_event.cases) simp_all

text \<open>
  A stretch of the handler with its outcome: it refuses only with a 500.  The
  flag \<open>armed\<close> says that the context is then marked as intervened.
\<close>

definition fails_closed :: "bool \<Rightarrow> nat \<Rightarrow> world \<Rightarrow> int option \<times> world \<Rightarrow> bool" where
  "fails_closed armed i w res \<longleftrightarrow>
     (\<exists>new. trace (snd res) = trace w @ new \<and>
        ((\<exists>e \<in> set new. refused e) \<longrightarrow> fst res = Some NGX_HTTP_INTERNAL_SERVER_ERROR \<and>
           (armed \<longrightarrow> intervention_triggered (ctxs (snd res) i))))"

lemma fails_closed_quiet: "adds (Not \<circ> refused) w w' \<Longrightarrow> fails_closed armed i w (e, w')"
  by (auto simp: fails_closed_def adds_def)

lemma fails_closed_refl: "fails_closed armed i w (e, w)"
  by (simp add: fails_closed_quiet adds_refl)

lemma fails_closed_500:
  "trace w' = trace w @ new \<Longrightarrow> (armed \<longrightarrow> intervention_triggered (ctxs w' i)) \<Longrightarrow>
   fails_closed armed i w (Some NGX_HTTP_INTERNAL_SERVER_ERROR, w')"
  by (auto simp: fails_closed_def)

lemma fails_closed_then:
  "adds (Not \<circ> refused) w w' \<Longrightarrow> fails_closed armed i w' res \<Longrightarrow> fails_closed armed i w res"
  by (cases res) (force simp: fails_closed_def adds_def)

lemma fails_closed_None: "fails_closed armed i w (None, w') \<Longrightarrow> adds (Not \<circ> refused) w w'"
  by (auto simp: fails_closed_def adds_def)

lemma quiet_process_intervention:
  "ngx_http_coraza_process_intervention E c early w = (ret, w') \<Longrightarrow> adds (Not \<circ> refused) w w'"
  using adds_mono [OF adds_process_intervention [of w E c early], of "Not \<circ> refused"]
    verdict_not_refused by simp

lemma quiet_poll:
  "ngx_http_coraza_poll_after_process E c early pret w = (ret, w') \<Longrightarrow> adds (Not \<circ> refused) w w'"
  using adds_mono [OF adds_poll [of w E c early pret], of "Not \<circ> refused"]
    verdict_not_refused by simp

lemma fails_closed_poll: "fails_closed armed i w (request_body_poll E i w)"
  using quiet_process_intervention [of E "Some i" False w]
  by (auto simp: request_body_poll_def Let_def intro!: fails_closed_quiet adds_upd_ctx split: prod.split)

lemma append_request_body_trace:
  assumes "coraza_append_request_body E t d l w = (ret, w')"
  shows "trace w' = trace w @ [Eng t (Append_request_body d l) ret]"
  using assms by (auto simp: coraza_wrapper_defs cgo_def Let_def)

lemma quiet_append_request_body:
  "coraza_append_request_body E t d l w = (0, w') \<Longrightarrow> adds (Not \<circ> refused) w w'"
  using append_request_body_trace by (fastforce simp: adds_def)

lemma fails_closed_bufs: "fails_closed armed i w (append_request_body_bufs E i chain w)"
proof (induction chain arbitrary: w)
  case Nil
  show ?case by (simp add: fails_closed_refl)
next
  case (Cons b chain)
  let ?t = "coraza_transaction (ctxs w i)" and ?d = "b_data b"
  let ?c = "(if length ?d > 0 then coraza_append_request_body E ?t ?d (c_int (length ?d)) w else (0, w))"
  obtain ret w1 where c: "?c = (ret, w1)" by fastforce
  have tr: "\<exists>new. trace w1 = trace w @ new" and q: "ret = 0 \<Longrightarrow> adds (Not \<circ> refused) w w1"
    using c append_request_body_trace quiet_append_request_body adds_refl
    by (auto split: if_splits)
  obtain e w2 where p: "request_body_poll E i w1 = (e, w2)" by fastforce
  have pc: "fails_closed armed i w1 (e, w2)" using fails_closed_poll p by metis
  show ?case
  proof (cases "length ?d > INT_MAX \<or> ret \<noteq> 0")
    case True
    then show ?thesis
      using c tr by (auto simp: Let_def intro!: fails_closed_500)
  next
    case False
    then have eq: "append_request_body_bufs E i (b # chain) w =
        (if b_last_buf b then (None, w1) else case e of Some rc \<Rightarrow> (Some rc, w2)
           | None \<Rightarrow> append_request_body_bufs E i chain w2)"
      using c p by (simp add: Let_def)
    have q': "adds (Not \<circ> refused) w w1" using q False by simp
    show ?thesis
      unfolding eq
      using fails_closed_quiet [OF q'] fails_closed_then [OF q' pc]
        fails_closed_then [OF q' fails_closed_then [OF fails_closed_None Cons.IH]] pc
      by (cases e) auto
  qed
qed

lemma quiet_read_temp_file:
  "read_temp_file E name len off w = (n, w') \<Longrightarrow> adds (Not \<circ> refused) w w'"
  by (auto simp: read_temp_file_def Let_def intro!: adds_emit adds_refl)

text \<open>The outcome of the file loop as an early return.\<close>

abbreviation as_early :: "int \<times> world \<Rightarrow> int option \<times> world" where
  "as_early res \<equiv> (if fst res = NGX_OK then None else Some (fst res), snd res)"

lemma fails_closed_loop: "fails_closed False i w (as_early (append_request_body_loop E i name sz off w))"
proof (induction "nat (sz - off)" arbitrary: off w rule: less_induct)
  case less
  show ?case
  proof (cases "off < sz")
    case False
    then show ?thesis by (simp add: append_request_body_loop.simps fails_closed_refl)
  next
    case True
    obtain n w1 where rd: "read_temp_file E name (next_size (sz - off)) off w = (n, w1)" by fastforce
    note q1 = quiet_read_temp_file [OF rd]
    show ?thesis
    proof (cases "n = None \<or> n = Some []")
      case fail: True
      have "append_request_body_loop E i name sz off w = (NGX_HTTP_INTERNAL_SERVER_ERROR, w1)"
        unfolding append_request_body_loop.simps [of E i name sz off w] Let_def rd prod.case
        using fail True by (cases n) simp_all
      then show ?thesis by (simp add: fails_closed_quiet [OF q1])
    next
      case False
      then obtain d where n: "n = Some d" "d \<noteq> []" by (cases n) auto
      let ?t = "coraza_transaction (ctxs w1 i)"
      obtain ret w2 where ap: "coraza_append_request_body E ?t d (c_int (length d)) w1 = (ret, w2)"
        by fastforce
      obtain r3 w3 where iv: "ngx_http_coraza_process_intervention E (Some i) False w2 = (r3, w3)"
        by fastforce
      have IH: "fails_closed False i v (as_early (append_request_body_loop E i name sz (off + int (length d)) v))"
        for v by (rule less.hyps) (use True n in auto)
      have q3: "adds (Not \<circ> refused) w w2" "adds (Not \<circ> refused) w w3" if "ret = 0"
      proof -
        from adds_trans [OF q1 quiet_append_request_body [OF ap [unfolded that]]]
        show "adds (Not \<circ> refused) w w2" .
        from adds_trans [OF this quiet_process_intervention [OF iv]]
        show "adds (Not \<circ> refused) w w3" .
      qed
      have tr: "\<exists>new. trace w2 = trace w @ new"
        using q1 append_request_body_trace [OF ap] by (auto simp: adds_def)
      let ?rec = "append_request_body_loop E i name sz (off + int (length d))"
      note eq = append_request_body_loop_step [OF True refl rd [unfolded n(1)] n(2) ap iv]
      show ?thesis
      proof (cases "ret = 0")
        case False
        have "fails_closed False i w (Some NGX_HTTP_INTERNAL_SERVER_ERROR, w2)"
          by (rule exE [OF tr]) (erule fails_closed_500, simp)
        then show ?thesis using False by (simp add: eq)
      next
        case ret: True
        note q = q3 [OF ret]
        define P where "P = (\<lambda>res. fails_closed False i w (as_early res))"
        have "P (?rec w2)" "P (?rec w3)"
          unfolding P_def by (rule fails_closed_then [OF q(1) IH], rule fails_closed_then [OF q(2) IH])
        moreover have "P (rc, w3)" "P (rc, trigger i w3)" for rc
          unfolding P_def snd_conv
          by (intro fails_closed_quiet q(2), intro fails_closed_quiet adds_upd_ctx q(2))
        ultimately have "P (append_request_body_loop E i name sz off w)"
          using ret by (simp add: eq)
        then show ?thesis by (simp only: P_def)
      qed
    qed
  qed
qed

lemma fails_closed_submit: "fails_closed True i w (submit_request_body E i rb w)"
proof (cases "rb_temp_file rb")
  case None
  then show ?thesis using fails_closed_bufs by (simp add: submit_request_body_def)
next
  case (Some f)
  obtain name sz where f: "f = (name, sz)" by fastforce
  have q: "adds (Not \<circ> refused) w (emit (Open_file name b) w)" for b
    by (simp add: adds_emit adds_refl)
  obtain rc w2 where l: "append_request_body_loop E i name sz 0 (emit (Open_file name True) w) = (rc, w2)"
    by fastforce
  have "fails_closed False i w (as_early (rc, w2))"
    using fails_closed_then [OF q fails_closed_loop] l by metis
  then have "fails_closed True i w (if rc \<noteq> NGX_OK then Some rc else None,
      if rc \<noteq> NGX_OK \<and> rc \<noteq> NGX_DECLINED then trigger i (emit (Close_file name) w2)
      else emit (Close_file name) w2)"
    by (auto simp: fails_closed_def)
  then show ?thesis
    using Some f l fails_closed_refl fails_closed_quiet [OF adds_upd_ctx [OF q]]
      fails_closed_quiet [OF adds_upd_ctx [OF adds_refl]]
    by (auto simp: submit_request_body_def ngx_http_coraza_append_request_body_file_def Let_def)
qed

lemma fails_closed_phase:
  "fails_closed True i w (apfst Some (ngx_http_coraza_process_request_body_phase E i w))"
proof -
  let ?t = "coraza_transaction (ctxs w i)"
  let ?n = "eng E (trace w) ?t Process_request_body"
  let ?w1 = "emit (Eng ?t Process_request_body ?n) w"
  obtain ret w2 where p: "ngx_http_coraza_poll_after_process E (Some i) False ?n ?w1 = (ret, w2)"
    by fastforce
  have eq: "ngx_http_coraza_process_request_body_phase E i w =
      (if ?n < 0 then (NGX_HTTP_INTERNAL_SERVER_ERROR, trigger i ?w1)
       else if r_error_page (req w2) then (NGX_DECLINED, w2)
       else if ret < 0 then (NGX_HTTP_INTERNAL_SERVER_ERROR, trigger i w2)
       else if ret > 0 then (ret, trigger i w2) else (NGX_DECLINED, w2))"
    using p by (simp add: ngx_http_coraza_process_request_body_phase_def coraza_wrapper_defs cgo_def
        ngx_http_coraza_process_body_failed_def Let_def)
  show ?thesis
  proof (cases "?n < 0")
    case True
    have "fails_closed True i w (Some NGX_HTTP_INTERNAL_SERVER_ERROR, trigger i ?w1)"
      by (rule fails_closed_500) simp_all
    then show ?thesis using True unfolding eq by simp
  next
    case False
    then have "adds (Not \<circ> refused) w ?w1" by (simp add: adds_emit adds_refl)
    from adds_trans [OF this quiet_poll [OF p]] have "adds (Not \<circ> refused) w w2" .
    from fails_closed_quiet [OF this] fails_closed_quiet [OF adds_upd_ctx [OF this]]
    show ?thesis using False unfolding eq by simp
  qed
qed

lemma fails_closed_inspect: "fails_closed True i w (apfst Some (pre_access_inspect E i w))"
proof (cases "r_request_body (req w)")
  case None
  then show ?thesis by (simp add: pre_access_inspect_def fails_closed_refl)
next
  case (Some rb)
  let ?w1 = "upd_req (\<lambda>r. r\<lparr>r_write_event_run_phases := True\<rparr>)
      (upd_ctx i (\<lambda>c. c\<lparr>body_submitted := True\<rparr>) w)"
  have q1: "adds (Not \<circ> refused) w ?w1" by (simp add: adds_def)
  obtain e2 w2 where s: "submit_request_body E i rb ?w1 = (e2, w2)" by fastforce
  obtain e3 w3 where p: "request_body_poll E i w2 = (e3, w3)" by fastforce
  have s2: "fails_closed True i w (e2, w2)" using fails_closed_then [OF q1 fails_closed_submit] s by metis
  have s3: "fails_closed True i w2 (e3, w3)" using fails_closed_poll p by metis
  note th = fails_closed_then [OF fails_closed_None]
  have "e2 = None \<Longrightarrow> fails_closed True i w (e3, w3)" using th s2 s3 by blast
  moreover have "e2 = None \<Longrightarrow> e3 = None \<Longrightarrow>
      fails_closed True i w (apfst Some (ngx_http_coraza_process_request_body_phase E i w3))"
    using th s2 s3 fails_closed_phase by blast
  ultimately show ?thesis
    using Some s p s2 by (cases e2; cases e3) (simp_all add: pre_access_inspect_def)
qed

text \<open>
  C22: a refusal of the engine, of a body chunk or of phase 2, always ends in a
  500 for the client with the context marked, whatever else happens in the same
  run (an error page being served included): a body the engine did not take is
  never forwarded.
\<close>

theorem pre_access_refusal_is_500:
  assumes "module_ctx w = Some i"
    and "ngx_http_coraza_pre_access_handler E w = (rc, w')"
    and "trace w' = trace w @ new" and "e \<in> set new" and "refused e"
  shows "rc = NGX_HTTP_INTERNAL_SERVER_ERROR \<and> intervention_triggered (ctxs w' i)"
proof -
  let ?t = "coraza_transaction (ctxs w i)"
  let ?n = "eng E (trace w) ?t Is_request_body_accessible"
  let ?w1 = "emit (Eng ?t Is_request_body_accessible ?n) w"
  have q1: "adds (Not \<circ> refused) w ?w1" by (simp add: adds_emit adds_refl)
  have co: "fails_closed True i v (apfst Some (pre_access_continue E i v))" for v
    by (simp add: pre_access_continue_def fails_closed_inspect fails_closed_refl)
  obtain early w2 where rd: "pre_access_read_body E i ?w1 = (early, w2)" by fastforce
  have "adds (Not \<circ> refused) ?w1 w2"
    using rd by (auto simp: pre_access_read_body_def ngx_http_read_client_request_body_def
        request_read_ctx_def Let_def adds_def split: prod.splits if_splits)
  note q2 = adds_trans [OF q1 this]
  have "fails_closed True i w (apfst Some (ngx_http_coraza_pre_access_handler E w))"
    using assms(1) rd co fails_closed_refl fails_closed_quiet [OF q2]
      fails_closed_then [OF q1 fails_closed_phase] fails_closed_then [OF q2 co]
    by (auto simp: ngx_http_coraza_pre_access_handler_def coraza_wrapper_defs cgo_def Let_def
        split: option.split)
  then show ?thesis using assms(2-5) by (auto simp: fails_closed_def)
qed

text \<open>An engine that takes no body chunk.\<close>

definition full_env :: env where
  "full_env = sample_env\<lparr>eng := (\<lambda>_ _ c. case c of Append_request_body _ _ \<Rightarrow> 1
     | Is_request_body_accessible \<Rightarrow> 1 | _ \<Rightarrow> 0)\<rparr>"

lemma full_sample:
  "trace (snd (ngx_http_coraza_pre_access_handler full_env sample_body_world)) =
     trace sample_body_world @ [Eng 5 Is_request_body_accessible 1, Read_client_body 0,
       Eng 5 (Append_request_body [104, 105] 2) 1]"
  by (simp add: pre_access_defs sample_body_world_def sample_defs mem_buf_def empty_buf_def
      full_env_def Let_def)

theorem pre_access_refusal_is_500_witness:
  "fst (ngx_http_coraza_pre_access_handler full_env sample_body_world) = NGX_HTTP_INTERNAL_SERVER_ERROR \<and>
   intervention_triggered (ctxs (snd (ngx_http_coraza_pre_access_handler full_env sample_body_world)) 0)"
  by (rule pre_access_refusal_is_500 [OF _ prod.collapse [symmetric] full_sample,
        of 0 "Eng 5 (Append_request_body [104, 105] 2) 1"])
    (simp_all add: sample_body_world_def)

section \<open>The file path accepts what it should\<close>

text \<open>
  An engine and a file system that do their part: every chunk is taken, nobody
  intervenes, and a read before the end of the file gives at least one byte.
\<close>

definition cooperative :: "env \<Rightarrow> ngx_str \<Rightarrow> bytes \<Rightarrow> bool" where
  "cooperative E name content \<longleftrightarrow> serves E name content \<and>
     (\<forall>tr t d l. eng E tr t (Append_request_body d l) = 0) \<and>
     (\<forall>tr t. eng_intervention E tr t = None) \<and> (\<forall>tr. open_file E tr name) \<and>
     (\<forall>tr len off. 0 < len \<and> 0 \<le> off \<and> off < int (length content)
        \<longrightarrow> (\<exists>d. read_temp E tr name len off = Some d \<and> d \<noteq> []))"

lemma append_request_body_loop_accepts:
  assumes "cooperative E name content" "\<not> r_error_page (req w)"
  shows "fst (append_request_body_loop E i name (int (length content)) (int off) w) = NGX_OK"
  using assms(2)
proof (induction "length content - off" arbitrary: off w rule: less_induct)
  case less
  show ?case
  proof (cases "off < length content")
    case False
    then show ?thesis by (simp add: append_request_body_loop.simps)
  next
    case True
    define len where "len = next_size (int (length content) - int off)"
    have "0 < len" using True by (simp add: len_def)
    then obtain d where d: "read_temp E (trace w) name len (int off) = Some d" "d \<noteq> []"
      using assms(1) True unfolding cooperative_def
      by (metis of_nat_0_le_iff of_nat_less_iff)
    define w1 where "w1 = emit (Read_file 0 (int off) len (Some (take len d))) w"
    have rd: "read_temp_file E name len (int off) w = (Some (take len d), w1)"
      using d by (simp add: read_temp_file_def w1_def Let_def)
    let ?c = "Append_request_body (take len d) (c_int (length (take len d)))"
    let ?t = "coraza_transaction (ctxs w1 i)"
    define w2 where "w2 = emit (Eng ?t ?c 0) w1"
    have ap: "coraza_append_request_body E ?t (take len d) (c_int (length (take len d))) w1 = (0, w2)"
      using assms(1) by (simp add: coraza_wrapper_defs cgo_def Let_def cooperative_def w2_def)
    let ?t2 = "coraza_transaction (ctxs w2 i)"
    have iv: "ngx_http_coraza_process_intervention E (Some i) False w2 = (NGX_OK, emit (Polled ?t2 None) w2)"
      using assms(1)
      by (simp add: ngx_http_coraza_process_intervention_def coraza_intervention_def Let_def cooperative_def)
    have IH: "fst (append_request_body_loop E i name (int (length content))
        (int (off + length (take len d))) v) = NGX_OK" if "\<not> r_error_page (req v)" for v
      by (rule less.hyps)
        (use True d(2) \<open>0 < len\<close> that in \<open>(cases d; auto simp: min_def)+\<close>)
    have "\<not> r_error_page (req w2)" using less.prems by (simp add: w1_def w2_def)
    then show ?thesis
      using True d \<open>0 < len\<close> IH [of w2] IH [of "emit (Polled ?t2 None) w2"]
        append_request_body_loop_step [OF _ len_def rd _ ap iv]
      by simp
  qed
qed

text \<open>
  C25: a body in a temporary file is handed over completely: if the file can be
  opened and read (in reads of any positive size), the engine takes every chunk
  and never asks for an intervention, and no error page is being served, the function
  returns \<open>NGX_OK\<close> and the engine has seen exactly the content of the file.
\<close>

theorem append_request_body_file_complete:
  assumes "cooperative E name content" and "\<not> r_error_page (req w)"
  shows "\<exists>w' new. ngx_http_coraza_append_request_body_file E i (name, int (length content)) w = (NGX_OK, w') \<and>
    trace w' = trace w @ new \<and> body_seen (coraza_transaction (ctxs w i)) new = content"
proof -
  obtain rc w' where f: "ngx_http_coraza_append_request_body_file E i (name, int (length content)) w = (rc, w')"
    by fastforce
  have "\<not> r_error_page (req (emit (Open_file name True) w))" using assms(2) by simp
  from append_request_body_loop_accepts [OF assms(1) this, of i 0] have "rc = NGX_OK"
    using f assms(1)
    by (auto simp: ngx_http_coraza_append_request_body_file_def cooperative_def Let_def
        split: prod.splits if_splits)
  with f append_request_body_file_OK [OF f [unfolded this] _ refl] assms(1) show ?thesis
    by (auto simp: cooperative_def shows_body_def)
qed

text \<open>A file of seven bytes on a file system that reads at most three bytes at a time.\<close>

definition short_reads_env :: env where
  "short_reads_env = sample_env\<lparr>
     read_temp := (\<lambda>_ _ len off. Some (take (min 3 len) (drop (nat off) [1, 2, 3, 4, 5, 6, 7])))\<rparr>"

lemma short_reads_cooperative: "cooperative short_reads_env [102] [1, 2, 3, 4, 5, 6, 7]"
  unfolding cooperative_def serves_def
  by (auto simp: short_reads_env_def sample_env_def)

theorem append_request_body_file_complete_witness:
  "\<exists>w' new. ngx_http_coraza_append_request_body_file short_reads_env 0 ([102], 7) sample_body_world
      = (NGX_OK, w') \<and> trace w' = trace sample_body_world @ new \<and>
    body_seen 5 new = [1, 2, 3, 4, 5, 6, 7]"
proof -
  have "\<not> r_error_page (req sample_body_world)"
    by (simp add: sample_body_world_def sample_request_def)
  from append_request_body_file_complete [OF short_reads_cooperative this, of 0]
  show ?thesis by (simp add: sample_body_world_def)
qed

end
