(* ===== verification/Header_Filter.thy ===== *)
theory Header_Filter
  imports Pre_Access
begin

text \<open>
  \<open>src/src/ngx_http_coraza_header_filter.c\<close>: the response-header filter.  It
  hands the engine the headers of the response (those it derives from the dedicated
  fields of \<open>headers_out\<close>, then the list), evaluates phase 3, and
  forwards the headers, holds them back for phase 4, or replaces the response.

  The build options that only select protocol support (\<open>NGX_HTTP_V2\<close>,
  \<open>NGX_HTTP_GZIP\<close>, an nginx with HTTP/3) are taken as on.
\<close>

section \<open>Operations\<close>

text \<open>
  Adding one response header.  In the collecting mode the pair is copied into
  the pool; when an allocation fails the filter gives up at once and never reads
  the collector again, so the half-filled entry is not kept in the list.
\<close>

definition alloc_str :: "env \<Rightarrow> ngx_str \<Rightarrow> world \<Rightarrow> bool \<times> world" where
  "alloc_str E s w = (if length s \<noteq> 0 then palloc E (length s) w else (True, w))"

definition ngx_http_coraza_add_response_header ::
  "env \<Rightarrow> nat option \<Rightarrow> ngx_str \<Rightarrow> ngx_str \<Rightarrow> world \<Rightarrow> int \<times> world" where
  "ngx_http_coraza_add_response_header E ctx name val w =
     (case ctx of
        None \<Rightarrow> (NGX_ERROR, w)
      | Some i \<Rightarrow>
          (case resp_hdr_collect (ctxs w i) of
             Some pairs \<Rightarrow>
               (let (ok, w) = palloc E SIZEOF_HEADER w in
                if \<not> ok then (NGX_ERROR, w)
                else
                  (let (ok, w) = alloc_str E name w in
                   if \<not> ok then (NGX_ERROR, w)
                   else
                     (let (ok, w) = alloc_str E val w in
                      if \<not> ok then (NGX_ERROR, w)
                      else (NGX_OK, upd_ctx i (\<lambda>c. c\<lparr>resp_hdr_collect :=
                              Some (pairs @ [\<lparr>h_name = name, h_value = val\<rparr>])\<rparr>) w))))
           | None \<Rightarrow>
               (let (ret, w) = coraza_add_response_header E (coraza_transaction (ctxs w i))
                                 name (c_int (length name)) val (c_int (length val)) w
                in if ret < 0 then (NGX_ERROR, w) else (NGX_OK, w))))"

text \<open>The element a dedicated field of \<open>headers_out\<close> points at.\<close>

abbreviation header_at :: "request \<Rightarrow> nat \<Rightarrow> ngx_table_elt" where
  "header_at r k \<equiv> ho_headers (r_headers_out r) ! k"

text \<open>Printing a number (\<open>ngx_sprintf\<close> with \<open>%O\<close> or \<open>%T\<close>) in decimal.\<close>

fun dec :: "nat \<Rightarrow> bytes" where
  "dec n = (if n < 10 then [word_of_nat (48 + n)] else dec (n div 10) @ [word_of_nat (48 + n mod 10)])"

declare dec.simps [simp del]

definition ngx_http_coraza_resolv_header_server :: "env \<Rightarrow> ngx_str \<Rightarrow> world \<Rightarrow> int \<times> world" where
  "ngx_http_coraza_resolv_header_server E name w =
     (let val = (case ho_server (r_headers_out (req w)) of
                   None \<Rightarrow> if server_tokens (clcf w) then nginx_ver E else ngx_string ''nginx''
                 | Some k \<Rightarrow> elt_value (header_at (req w) k))
      in ngx_http_coraza_add_response_header E (module_ctx w) name val w)"

definition ngx_http_coraza_resolv_header_date :: "env \<Rightarrow> ngx_str \<Rightarrow> world \<Rightarrow> int \<times> world" where
  "ngx_http_coraza_resolv_header_date E name w =
     (let date = (case ho_date (r_headers_out (req w)) of
                    None \<Rightarrow> cached_http_time w
                  | Some k \<Rightarrow> elt_value (header_at (req w) k))
      in ngx_http_coraza_add_response_header E (module_ctx w) name date w)"

definition ngx_http_coraza_resolv_header_content_length :: "env \<Rightarrow> ngx_str \<Rightarrow> world \<Rightarrow> int \<times> world" where
  "ngx_http_coraza_resolv_header_content_length E name w =
     (if ho_content_length_n (r_headers_out (req w)) \<ge> 0
      then ngx_http_coraza_add_response_header E (module_ctx w) name
             (dec (nat (ho_content_length_n (r_headers_out (req w))))) w
      else (NGX_OK, w))"

definition ngx_http_coraza_resolv_header_content_type :: "env \<Rightarrow> ngx_str \<Rightarrow> world \<Rightarrow> int \<times> world" where
  "ngx_http_coraza_resolv_header_content_type E name w =
     (if length (ho_content_type (r_headers_out (req w))) > 0
      then ngx_http_coraza_add_response_header E (module_ctx w) name
             (ho_content_type (r_headers_out (req w))) w
      else (NGX_OK, w))"

definition ngx_http_coraza_resolv_header_last_modified :: "env \<Rightarrow> ngx_str \<Rightarrow> world \<Rightarrow> int \<times> world" where
  "ngx_http_coraza_resolv_header_last_modified E name w =
     (if ho_last_modified_time (r_headers_out (req w)) = - 1 then (NGX_OK, w)
      else ngx_http_coraza_add_response_header E (module_ctx w) name
             (http_time E (ho_last_modified_time (r_headers_out (req w)))) w)"

definition ngx_http_coraza_resolv_header_connection :: "env \<Rightarrow> ngx_str \<Rightarrow> world \<Rightarrow> int \<times> world" where
  "ngx_http_coraza_resolv_header_connection E name w =
     (if r_http_version (req w) \<ge> NGX_HTTP_VERSION_20 then (NGX_OK, w)
      else if ho_status (r_headers_out (req w)) = NGX_HTTP_SWITCHING_PROTOCOLS
      then ngx_http_coraza_add_response_header E (module_ctx w) name (ngx_string ''upgrade'') w
      else if r_keepalive (req w) then
        (if keepalive_header (clcf w) \<noteq> 0 then
           (let (rc, w) = ngx_http_coraza_add_response_header E (module_ctx w) (ngx_string ''Keep-Alive'')
                            (ngx_string ''timeout='' @ dec (keepalive_header (clcf w))) w in
            if rc \<noteq> NGX_OK then (NGX_ERROR, w)
            else ngx_http_coraza_add_response_header E (module_ctx w) name (ngx_string ''keep-alive'') w)
         else ngx_http_coraza_add_response_header E (module_ctx w) name (ngx_string ''keep-alive'') w)
      else ngx_http_coraza_add_response_header E (module_ctx w) name (ngx_string ''close'') w)"

definition ngx_http_coraza_resolv_header_transfer_encoding :: "env \<Rightarrow> ngx_str \<Rightarrow> world \<Rightarrow> int \<times> world" where
  "ngx_http_coraza_resolv_header_transfer_encoding E name w =
     (if r_chunked (req w)
      then ngx_http_coraza_add_response_header E (module_ctx w) name (ngx_string ''chunked'') w
      else (NGX_OK, w))"

definition ngx_http_coraza_resolv_header_vary :: "env \<Rightarrow> ngx_str \<Rightarrow> world \<Rightarrow> int \<times> world" where
  "ngx_http_coraza_resolv_header_vary E name w =
     (if r_gzip_vary (req w) \<and> gzip_vary (clcf w)
      then ngx_http_coraza_add_response_header E (module_ctx w) name (ngx_string ''Accept-Encoding'') w
      else (NGX_OK, w))"

definition ngx_http_coraza_headers_out ::
  "(ngx_str \<times> (env \<Rightarrow> ngx_str \<Rightarrow> world \<Rightarrow> int \<times> world)) list" where
  "ngx_http_coraza_headers_out =
     [(ngx_string ''Server'', ngx_http_coraza_resolv_header_server),
      (ngx_string ''Date'', ngx_http_coraza_resolv_header_date),
      (ngx_string ''Content-Length'', ngx_http_coraza_resolv_header_content_length),
      (ngx_string ''Content-Type'', ngx_http_coraza_resolv_header_content_type),
      (ngx_string ''Last-Modified'', ngx_http_coraza_resolv_header_last_modified),
      (ngx_string ''Connection'', ngx_http_coraza_resolv_header_connection),
      (ngx_string ''Transfer-Encoding'', ngx_http_coraza_resolv_header_transfer_encoding),
      (ngx_string ''Vary'', ngx_http_coraza_resolv_header_vary)]"

text \<open>Server-Sent Events: the media type, case-insensitively, then OWS, then a
  parameter list or the end.\<close>

fun sse_tail :: "bytes \<Rightarrow> bool" where
  "sse_tail [] = True"
| "sse_tail (c # cs) = (if c = 0x20 \<or> c = 0x09 then sse_tail cs else c = 0x3b)"

definition ngx_http_coraza_is_sse_response :: "request \<Rightarrow> bool" where
  "ngx_http_coraza_is_sse_response r =
     (let ct = ho_content_type (r_headers_out r); sse = ngx_string ''text/event-stream'' in
      if length ct < length sse then False
      else if map ngx_tolower (take (length sse) ct) \<noteq> sse then False
      else sse_tail (drop (length sse) ct))"

text \<open>The first pass, over the table of resolvers; a result is an early \<open>return\<close>.\<close>

fun resolve_headers ::
  "env \<Rightarrow> (ngx_str \<times> (env \<Rightarrow> ngx_str \<Rightarrow> world \<Rightarrow> int \<times> world)) list \<Rightarrow> world \<Rightarrow> int option \<times> world" where
  "resolve_headers E [] w = (None, w)"
| "resolve_headers E ((name, resolver) # tab) w =
     (let (rc, w) = resolver E name w in
      if rc \<noteq> NGX_OK then (Some rc, w) else resolve_headers E tab w)"

text \<open>
  The second pass, over the header list from index \<open>k\<close> on.  Pointer identity
  with a dedicated field is equality of indexes.
\<close>

definition hoisted :: "request \<Rightarrow> nat \<Rightarrow> bool" where
  "hoisted r k \<longleftrightarrow> ho_server (r_headers_out r) = Some k \<or> ho_date (r_headers_out r) = Some k
     \<or> (ho_last_modified (r_headers_out r) = Some k \<and> ho_last_modified_time (r_headers_out r) \<noteq> - 1)"

fun list_headers :: "env \<Rightarrow> nat \<Rightarrow> nat \<Rightarrow> ngx_table_elt list \<Rightarrow> world \<Rightarrow> int option \<times> world" where
  "list_headers E i k [] w = (None, w)"
| "list_headers E i k (e # es) w =
     (if elt_hash e = 0 then list_headers E i (Suc k) es w
      else if hoisted (req w) k then list_headers E i (Suc k) es w
      else
        (let (rc, w) = ngx_http_coraza_add_response_header E (Some i) (elt_key e) (elt_value e) w in
         if rc \<noteq> NGX_OK then (Some rc, w) else list_headers E i (Suc k) es w))"

text \<open>Submitting the collected pairs: in one batch, or one by one.\<close>

fun replay_headers :: "env \<Rightarrow> nat \<Rightarrow> header list \<Rightarrow> world \<Rightarrow> int option \<times> world" where
  "replay_headers E i [] w = (None, w)"
| "replay_headers E i (h # hs) w =
     (let (rc, w) = ngx_http_coraza_add_response_header E (Some i) (h_name h) (h_value h) w in
      if rc \<noteq> NGX_OK then (Some rc, w) else replay_headers E i hs w)"

definition bulk_response_headers :: "env \<Rightarrow> nat \<Rightarrow> header list \<Rightarrow> world \<Rightarrow> bool \<times> world" where
  "bulk_response_headers E i collected w =
     (if length collected > 0 then
        (let (res, w) = ngx_http_coraza_pack_headers E collected w in
         case res of
           None \<Rightarrow> (False, w)
         | Some (packed, packed_len) \<Rightarrow>
             (let (n, w) = coraza_add_response_headers E (coraza_transaction (ctxs w i))
                     (case packed of None \<Rightarrow> [] | Some b \<Rightarrow> b)
                     (c_int (unat packed_len)) (c_int (length collected)) w
              in (n \<ge> 0, w)))
      else (False, w))"

definition flush_response_headers :: "env \<Rightarrow> nat \<Rightarrow> world \<Rightarrow> int option \<times> world" where
  "flush_response_headers E i w =
     (case resp_hdr_collect (ctxs w i) of
        None \<Rightarrow> (None, w)
      | Some collected \<Rightarrow>
          (let w = upd_ctx i (\<lambda>c. c\<lparr>resp_hdr_collect := None\<rparr>) w;
               (bulk_ok, w) = bulk_response_headers E i collected w in
           if \<not> bulk_ok then replay_headers E i collected w else (None, w)))"

definition ngx_http_coraza_is_redirect_status :: "int \<Rightarrow> bool" where
  "ngx_http_coraza_is_redirect_status status \<longleftrightarrow>
     status = NGX_HTTP_MOVED_PERMANENTLY \<or> status = NGX_HTTP_MOVED_TEMPORARILY
     \<or> status = NGX_HTTP_SEE_OTHER \<or> status = NGX_HTTP_TEMPORARY_REDIRECT
     \<or> status = NGX_HTTP_PERMANENT_REDIRECT"

text \<open>\<open>ptr->hash = 0\<close> for the element a dedicated field points at, if any.\<close>

definition clear_header :: "nat option \<Rightarrow> ngx_table_elt list \<Rightarrow> ngx_table_elt list" where
  "clear_header ptr hs = (case ptr of None \<Rightarrow> hs | Some k \<Rightarrow> hs[k := (hs ! k)\<lparr>elt_hash := 0\<rparr>])"

definition ngx_http_coraza_prepare_redirect :: "int \<Rightarrow> world \<Rightarrow> world" where
  "ngx_http_coraza_prepare_redirect status w =
     (let w = upd_headers_out (\<lambda>ho. ho\<lparr>ho_status := status, ho_status_line := []\<rparr>) w;
          w = upd_req (\<lambda>r. r\<lparr>r_err_status := 0, r_header_only := True\<rparr>) w;
          w = upd_headers_out (\<lambda>ho. ho\<lparr>ho_content_length_n := - 1,
                ho_headers := clear_header (ho_content_length ho) (ho_headers ho),
                ho_content_length := None\<rparr>) w;
          w = upd_headers_out (\<lambda>ho. ho\<lparr>ho_content_type := [], ho_content_type_len := 0,
                ho_last_modified_time := - 1,
                ho_headers := clear_header (ho_last_modified ho) (ho_headers ho),
                ho_last_modified := None\<rparr>) w;
          w = upd_headers_out (\<lambda>ho. ho\<lparr>
                ho_headers := clear_header (ho_content_encoding ho) (ho_headers ho),
                ho_content_encoding := None\<rparr>) w;
          w = upd_headers_out (\<lambda>ho. ho\<lparr>ho_headers := clear_header (ho_etag ho) (ho_headers ho),
                ho_etag := None\<rparr>) w;
          w = upd_req (\<lambda>r. r\<lparr>r_allow_ranges := False\<rparr>) w
      in upd_headers_out (\<lambda>ho. ho\<lparr>ho_headers := clear_header (ho_accept_ranges ho) (ho_headers ho),
                ho_accept_ranges := None\<rparr>) w)"

definition response_version :: "nat \<Rightarrow> ngx_str" where
  "response_version v =
     (if v = NGX_HTTP_VERSION_30 then ngx_string ''HTTP/3.0''
      else if v = NGX_HTTP_VERSION_20 then ngx_string ''HTTP/2.0''
      else ngx_string ''HTTP/1.1'')"

definition response_status :: "request \<Rightarrow> int" where
  "response_status r = (if r_err_status r \<noteq> 0 then r_err_status r else ho_status (r_headers_out r))"

text \<open>The condition under which the headers are held back.\<close>

definition delays_headers :: "ngx_http_coraza_conf \<Rightarrow> request \<Rightarrow> bool" where
  "delays_headers m r \<longleftrightarrow> lc_delay_response_headers m \<noteq> 0 \<and> r_method r \<noteq> NGX_HTTP_HEAD
     \<and> \<not> r_header_only r \<and> \<not> r_error_page r \<and> r_is_main r
     \<and> ho_status (r_headers_out r) \<noteq> NGX_HTTP_SWITCHING_PROTOCOLS
     \<and> \<not> ngx_http_coraza_is_sse_response r"

text \<open>
  Phase 3, its verdict, and what becomes of the headers.  The flag
  \<open>response_body_processable\<close> is a one-bit field: it takes the low bit.
\<close>

definition header_verdict ::
  "env \<Rightarrow> nat \<Rightarrow> ngx_http_coraza_conf \<Rightarrow> int \<Rightarrow> world \<Rightarrow> int \<times> world" where
  "header_verdict E i m pret w =
     (let (processable, w) = ngx_http_coraza_is_response_body_processable E
                               (coraza_transaction (ctxs w i)) w;
          w = upd_ctx i (\<lambda>c. c\<lparr>response_body_processable := odd processable\<rparr>) w;
          (ret, w) = ngx_http_coraza_poll_after_process E (Some i) False pret w in
      if r_error_page (req w) then run_next_header_filter E w
      else if ret > 0 then
        (let w = trigger i w in
         if ngx_http_coraza_is_redirect_status ret \<and> ho_location (r_headers_out (req w)) \<noteq> None
         then run_next_header_filter E (ngx_http_coraza_prepare_redirect ret w)
         else ngx_http_filter_finalize_request E ret w)
      else if delays_headers m (req w) then
        (let w = (if response_body_processable (ctxs w i)
                  then upd_req (\<lambda>r. r\<lparr>r_filter_need_in_memory := True\<rparr>) w else w)
         in (NGX_OK, upd_ctx i (\<lambda>c. c\<lparr>headers_delayed := True, pending_chain := []\<rparr>) w))
      else run_next_header_filter E w)"

definition header_phase3 :: "env \<Rightarrow> nat \<Rightarrow> ngx_http_coraza_conf \<Rightarrow> world \<Rightarrow> int \<times> world" where
  "header_phase3 E i m w =
     (let status = response_status (req w);
          ver = response_version (r_http_version (req w));
          (pret, w) = coraza_process_response_headers E (coraza_transaction (ctxs w i)) status ver w
      in header_verdict E i m pret w)"

abbreviation SIZEOF_ARRAY :: nat where "SIZEOF_ARRAY \<equiv> 552"

text \<open>From arming the collector to its flush; a result is an early \<open>return\<close>.\<close>

definition submit_response_headers :: "env \<Rightarrow> nat \<Rightarrow> world \<Rightarrow> int option \<times> world" where
  "submit_response_headers E i w =
     (let (ok, w) = palloc E SIZEOF_ARRAY w;
          w = upd_ctx i (\<lambda>c. c\<lparr>resp_hdr_collect := (if ok then Some [] else None)\<rparr>) w;
          (early, w) = resolve_headers E ngx_http_coraza_headers_out w in
      case early of
        Some rc \<Rightarrow> (Some rc, w)
      | None \<Rightarrow>
          (let (early, w) = list_headers E i 0 (ho_headers (r_headers_out (req w))) w in
           case early of
             Some rc \<Rightarrow> (Some rc, w)
           | None \<Rightarrow> flush_response_headers E i w))"

definition ngx_http_coraza_header_filter :: "env \<Rightarrow> world \<Rightarrow> int \<times> world" where
  "ngx_http_coraza_header_filter E w =
     (case module_ctx w of
        None \<Rightarrow> run_next_header_filter E w
      | Some i \<Rightarrow>
          (case mcf w of
             None \<Rightarrow> run_next_header_filter E w
           | Some m \<Rightarrow>
               if intervention_triggered (ctxs w i) then run_next_header_filter E w
               else if processed (ctxs w i) then run_next_header_filter E w
               else
                 (let w = upd_ctx i (\<lambda>c. c\<lparr>processed := True\<rparr>) w;
                      (early, w) = submit_response_headers E i w in
                  case early of
                    Some rc \<Rightarrow> (rc, w)
                  | None \<Rightarrow> header_phase3 E i m w)))"

definition ngx_http_coraza_forward_header :: "env \<Rightarrow> world \<Rightarrow> int \<times> world" where
  "ngx_http_coraza_forward_header E w = run_next_header_filter E w"

section \<open>The filter acts by primitive effects\<close>

lemma runs_collect:
  "runs E en i t w w' \<Longrightarrow> runs E en i t w (upd_ctx i (\<lambda>c. c\<lparr>resp_hdr_collect := x\<rparr>) w')"
  "runs E en i t w w' \<Longrightarrow> runs E en i t w (upd_ctx i (\<lambda>c. c\<lparr>processed := True\<rparr>) w')"
  "runs E en i t w w' \<Longrightarrow> runs E en i t w (upd_ctx i (\<lambda>c. c\<lparr>response_body_processable := b\<rparr>) w')"
  "runs E en i t w w' \<Longrightarrow> runs E en i t w (upd_ctx i (\<lambda>c. c\<lparr>headers_delayed := d, pending_chain := p\<rparr>) w')"
  by (erule runs_upd_ctx, simp add: keeps_def)+

lemma runs_alloc_str: "runs E en i t w (snd (alloc_str E s w))"
  unfolding alloc_str_def by (rule runs_structure runs_palloc runs_refl)+

lemma runs_wrappers_response:
  "runs E en i t w (snd (coraza_add_response_header E (coraza_transaction (ctxs w i)) n l s k w))"
  "runs E en i t w (snd (coraza_add_response_headers E (coraza_transaction (ctxs w i)) pk l k w))"
  "runs E en i t w (snd (coraza_process_response_headers E (coraza_transaction (ctxs w i)) st v w))"
  "runs E en i t w (snd (ngx_http_coraza_is_response_body_processable E (coraza_transaction (ctxs w i)) w))"
  by (rule runs_current, simp add: coraza_wrapper_defs runs_cgo plain_def)+

lemma runs_add_response_header:
  "runs E en i t w (snd (ngx_http_coraza_add_response_header E (Some i) n v w))"
  unfolding ngx_http_coraza_add_response_header_def option.case
  by (rule runs_structure runs_palloc runs_alloc_str runs_wrappers_response runs_collect runs_refl)+

lemma runs_module_ctx:
  assumes "module_ctx w = Some i \<Longrightarrow> runs E en i t w w'"
  shows "runs E en i t w w'"
  using assms by (auto simp: runs_def)

lemma runs_add_response_header_module:
  "runs E en i t w (snd (ngx_http_coraza_add_response_header E (module_ctx w) n v w))"
  by (rule runs_module_ctx) (simp add: runs_add_response_header)

lemmas resolver_defs =
  ngx_http_coraza_resolv_header_server_def ngx_http_coraza_resolv_header_date_def
  ngx_http_coraza_resolv_header_content_length_def ngx_http_coraza_resolv_header_content_type_def
  ngx_http_coraza_resolv_header_last_modified_def ngx_http_coraza_resolv_header_connection_def
  ngx_http_coraza_resolv_header_transfer_encoding_def ngx_http_coraza_resolv_header_vary_def

lemma runs_resolvers:
  "(n, f) \<in> set ngx_http_coraza_headers_out \<Longrightarrow> runs E en i t w (snd (f E n w))"
  unfolding ngx_http_coraza_headers_out_def set_simps insert_iff empty_iff prod.inject
  by (elim disjE conjE FalseE; hypsubst; unfold resolver_defs)
    (rule runs_structure runs_add_response_header_module runs_refl)+

lemma runs_resolve_headers:
  "set tab \<subseteq> set ngx_http_coraza_headers_out \<Longrightarrow> runs E en i t w (snd (resolve_headers E tab w))"
proof (induction tab arbitrary: w)
  case (Cons x tab)
  obtain n f where x: "x = (n, f)" by fastforce
  have f: "runs E en i t v (snd (f E n v))" for v using Cons.prems runs_resolvers x by simp
  have IH: "runs E en i t v (snd (resolve_headers E tab v))" for v using Cons by simp
  show ?case unfolding x resolve_headers.simps by (rule runs_structure f IH runs_refl)+
qed simp

lemma runs_list_headers: "runs E en i t w (snd (list_headers E i k es w))"
proof (induction es arbitrary: k w)
  case (Cons e es)
  show ?case
    unfolding list_headers.simps
    by (rule runs_structure runs_add_response_header Cons.IH runs_refl)+
qed simp

lemma runs_replay_headers: "runs E en i t w (snd (replay_headers E i hs w))"
proof (induction hs arbitrary: w)
  case (Cons h hs)
  show ?case
    unfolding replay_headers.simps
    by (rule runs_structure runs_add_response_header Cons.IH runs_refl)+
qed simp

lemma runs_bulk_response_headers: "runs E en i t w (snd (bulk_response_headers E i hs w))"
  unfolding bulk_response_headers_def
  by (rule runs_structure runs_case_pair runs_pack_headers runs_wrappers_response runs_refl)+

lemma runs_flush_response_headers: "runs E en i t w (snd (flush_response_headers E i w))"
  unfolding flush_response_headers_def
  by (rule runs_structure runs_collect runs_bulk_response_headers runs_replay_headers runs_refl)+

lemma runs_prepare_redirect: "runs E en i t w w' \<Longrightarrow> runs E en i t w (ngx_http_coraza_prepare_redirect s w')"
  by (simp add: ngx_http_coraza_prepare_redirect_def Let_def runs_upd_headers_out runs_upd_req)

lemma runs_redirect:
  "runs E en i t w (snd (run_next_header_filter E (ngx_http_coraza_prepare_redirect s w)))"
  by (rule runs_trans [OF runs_prepare_redirect [OF runs_refl] runs_next_header_filter])

lemma runs_header_verdict: "runs E en i t w (snd (header_verdict E i m pret w))"
  unfolding header_verdict_def
  by (rule runs_structure runs_wrappers_response runs_collect runs_polls runs_trigger runs_redirect
      runs_next_header_filter runs_finalize runs_upd_req runs_refl)+

lemma runs_header_phase3: "runs E en i t w (snd (header_phase3 E i m w))"
  unfolding header_phase3_def
  by (rule runs_structure runs_wrappers_response runs_header_verdict)+

lemma runs_submit_response_headers: "runs E en i t w (snd (submit_response_headers E i w))"
  unfolding submit_response_headers_def
  by (rule runs_structure runs_palloc runs_collect runs_resolve_headers [OF order_refl]
      runs_list_headers runs_flush_response_headers runs_refl)+

interpretation header_filter: handler ngx_http_coraza_header_filter
proof (rule handler_of_runs)
  show "module_ctx w = None \<Longrightarrow> snd (ngx_http_coraza_header_filter E w) = w \<or>
      prims E w (snd (ngx_http_coraza_header_filter E w))" for E w
    by (simp add: ngx_http_coraza_header_filter_def prims_next_filters)
next
  fix E :: env and w :: world and i
  assume m: "module_ctx w = Some i"
  show "runs E False i (coraza_transaction (ctxs w i)) w (snd (ngx_http_coraza_header_filter E w))"
    unfolding ngx_http_coraza_header_filter_def m option.case
    by (rule runs_structure runs_next_header_filter runs_collect runs_submit_response_headers
        runs_header_phase3 runs_refl)+
qed

section \<open>Which response headers the engine has seen\<close>

text \<open>Events that hand the response, or a replacement of it, to the client side.\<close>

fun forwards :: "event \<Rightarrow> bool" where
  "forwards (Next_header_filter _ _) = True"
| "forwards (Next_body_filter _ _) = True"
| "forwards (Filter_finalize _ _) = True"
| "forwards _ = False"

definition holds_back :: "event \<Rightarrow> bool" where
  "holds_back e \<longleftrightarrow> \<not> forwards e"

definition response_header_of :: "tx \<Rightarrow> event \<Rightarrow> header list" where
  "response_header_of t e =
     (case e of
        Eng t' (Add_response_header nm nl v vl) n \<Rightarrow>
          if t' = t \<and> n \<ge> 0 then [\<lparr>h_name = take (nat nl) nm, h_value = take (nat vl) v\<rparr>] else []
      | Eng t' (Add_response_headers p l k) n \<Rightarrow>
          if t' = t \<and> n \<ge> 0 then
            (case decode_n unpack_pair (nat k) (take (nat l) p) of Some (hs, _) \<Rightarrow> hs | None \<Rightarrow> [])
          else []
      | _ \<Rightarrow> [])"

definition response_seen :: "tx \<Rightarrow> event list \<Rightarrow> header list" where
  "response_seen t es = concat (map (response_header_of t) es)"

lemma response_seen_simps [simp]:
  "response_seen t [] = []"
  "response_seen t (es @ es') = response_seen t es @ response_seen t es'"
  "response_seen t (e # es) = response_header_of t e @ response_seen t es"
  "response_header_of t (Alloc z ok) = []"
  by (simp_all add: response_seen_def response_header_of_def)

text \<open>
  The headers the engine is to be shown, as a function of the request: those the
  module derives from the dedicated fields of \<open>headers_out\<close> (one definition per
  field, with the values of the resolvers), then the live entries of the list that
  no dedicated field already stands for.  The list nginx writes later is built
  outside the module; that the two agree is not claimed here.
\<close>

definition server_pairs :: "env \<Rightarrow> world \<Rightarrow> header list" where
  "server_pairs E w =
     [\<lparr>h_name = ngx_string ''Server'', h_value = (case ho_server (r_headers_out (req w)) of
         None \<Rightarrow> if server_tokens (clcf w) then nginx_ver E else ngx_string ''nginx''
       | Some k \<Rightarrow> elt_value (header_at (req w) k))\<rparr>]"

definition date_pairs :: "env \<Rightarrow> world \<Rightarrow> header list" where
  "date_pairs E w =
     [\<lparr>h_name = ngx_string ''Date'', h_value = (case ho_date (r_headers_out (req w)) of
         None \<Rightarrow> cached_http_time w | Some k \<Rightarrow> elt_value (header_at (req w) k))\<rparr>]"

definition content_length_pairs :: "env \<Rightarrow> world \<Rightarrow> header list" where
  "content_length_pairs E w =
     (let n = ho_content_length_n (r_headers_out (req w)) in
      if n \<ge> 0 then [\<lparr>h_name = ngx_string ''Content-Length'', h_value = dec (nat n)\<rparr>] else [])"

definition content_type_pairs :: "env \<Rightarrow> world \<Rightarrow> header list" where
  "content_type_pairs E w =
     (let ct = ho_content_type (r_headers_out (req w)) in
      if ct \<noteq> [] then [\<lparr>h_name = ngx_string ''Content-Type'', h_value = ct\<rparr>] else [])"

definition last_modified_pairs :: "env \<Rightarrow> world \<Rightarrow> header list" where
  "last_modified_pairs E w =
     (let n = ho_last_modified_time (r_headers_out (req w)) in
      if n = - 1 then [] else [\<lparr>h_name = ngx_string ''Last-Modified'', h_value = http_time E n\<rparr>])"

definition connection_pairs :: "env \<Rightarrow> world \<Rightarrow> header list" where
  "connection_pairs E w =
     (if r_http_version (req w) \<ge> NGX_HTTP_VERSION_20 then []
      else if ho_status (r_headers_out (req w)) = NGX_HTTP_SWITCHING_PROTOCOLS
      then [\<lparr>h_name = ngx_string ''Connection'', h_value = ngx_string ''upgrade''\<rparr>]
      else if r_keepalive (req w) then
        (if keepalive_header (clcf w) \<noteq> 0
         then [\<lparr>h_name = ngx_string ''Keep-Alive'',
                h_value = ngx_string ''timeout='' @ dec (keepalive_header (clcf w))\<rparr>] else []) @
        [\<lparr>h_name = ngx_string ''Connection'', h_value = ngx_string ''keep-alive''\<rparr>]
      else [\<lparr>h_name = ngx_string ''Connection'', h_value = ngx_string ''close''\<rparr>])"

definition transfer_encoding_pairs :: "env \<Rightarrow> world \<Rightarrow> header list" where
  "transfer_encoding_pairs E w =
     (if r_chunked (req w)
      then [\<lparr>h_name = ngx_string ''Transfer-Encoding'', h_value = ngx_string ''chunked''\<rparr>] else [])"

definition vary_pairs :: "env \<Rightarrow> world \<Rightarrow> header list" where
  "vary_pairs E w =
     (if r_gzip_vary (req w) \<and> gzip_vary (clcf w)
      then [\<lparr>h_name = ngx_string ''Vary'', h_value = ngx_string ''Accept-Encoding''\<rparr>] else [])"

definition dedicated_specs :: "(env \<Rightarrow> world \<Rightarrow> header list) list" where
  "dedicated_specs = [server_pairs, date_pairs, content_length_pairs, content_type_pairs,
     last_modified_pairs, connection_pairs, transfer_encoding_pairs, vary_pairs]"

definition dedicated_pairs :: "env \<Rightarrow> world \<Rightarrow> header list" where
  "dedicated_pairs E w = concat (map (\<lambda>g. g E w) dedicated_specs)"

lemmas pairs_defs = server_pairs_def date_pairs_def content_length_pairs_def content_type_pairs_def
  last_modified_pairs_def connection_pairs_def transfer_encoding_pairs_def vary_pairs_def

fun listed_pairs :: "request \<Rightarrow> nat \<Rightarrow> ngx_table_elt list \<Rightarrow> header list" where
  "listed_pairs r k [] = []"
| "listed_pairs r k (e # es) =
     (if elt_hash e \<noteq> 0 \<and> \<not> hoisted r k then [elt_pair e] else []) @ listed_pairs r (Suc k) es"

definition response_pairs :: "env \<Rightarrow> world \<Rightarrow> header list" where
  "response_pairs E w = dedicated_pairs E w @ listed_pairs (req w) 0 (ho_headers (r_headers_out (req w)))"

definition int_sized :: "header \<Rightarrow> bool" where
  "int_sized h \<longleftrightarrow> length (h_name h) \<le> INT_MAX \<and> length (h_value h) \<le> INT_MAX"

text \<open>
  Progress of the filter by the pairs \<open>hs\<close>: collected if the collector is armed,
  shown to the engine if not.
\<close>

abbreviation same_response :: "ngx_http_coraza_ctx \<Rightarrow> ngx_http_coraza_ctx \<Rightarrow> bool" where
  "same_response c c' \<equiv> coraza_transaction c' = coraza_transaction c \<and>
     intervention_triggered c' = intervention_triggered c \<and> headers_delayed c' = headers_delayed c \<and>
     pending_bytes c' = pending_bytes c"

definition progress :: "tx \<Rightarrow> nat \<Rightarrow> header list \<Rightarrow> world \<Rightarrow> world \<Rightarrow> bool" where
  "progress t i hs w w' \<longleftrightarrow>
     req w' = req w \<and> clcf w' = clcf w \<and> cached_http_time w' = cached_http_time w \<and>
     module_ctx w' = module_ctx w \<and> same_response (ctxs w i) (ctxs w' i) \<and>
     (\<exists>new. trace w' = trace w @ new \<and>
        (case resp_hdr_collect (ctxs w i) of
           None \<Rightarrow> resp_hdr_collect (ctxs w' i) = None \<and> response_seen t new = hs
         | Some ps \<Rightarrow> resp_hdr_collect (ctxs w' i) = Some (ps @ hs) \<and> response_seen t new = []))"

lemma progress_refl: "progress t i [] w w"
  by (auto simp: progress_def split: option.split)

lemma progress_trans:
  "progress t i a w w' \<Longrightarrow> progress t i b w' w'' \<Longrightarrow> progress t i (a @ b) w w''"
  by (fastforce simp: progress_def split: option.splits)

lemma alloc_str_world:
  assumes "alloc_str E s w = (ok, w')"
  shows "(\<exists>a. w' = emit (Alloc (length s) a) w) \<or> w' = w"
  using assms by (auto simp: alloc_str_def palloc_def Let_def split: if_splits)

lemma add_response_header_OK:
  assumes "ngx_http_coraza_add_response_header E (Some i) nm v w = (NGX_OK, w')"
    and "coraza_transaction (ctxs w i) = t" and "int_sized \<lparr>h_name = nm, h_value = v\<rparr>"
  shows "progress t i [\<lparr>h_name = nm, h_value = v\<rparr>] w w'"
proof (cases "resp_hdr_collect (ctxs w i)")
  case None
  then show ?thesis
    using assms
    by (auto simp: ngx_http_coraza_add_response_header_def coraza_wrapper_defs cgo_def Let_def
        progress_def response_header_of_def int_sized_def split: if_splits)
next
  case (Some ps)
  obtain ok1 w1 where a1: "palloc E SIZEOF_HEADER w = (ok1, w1)" by fastforce
  obtain ok2 w2 where a2: "alloc_str E nm w1 = (ok2, w2)" by fastforce
  obtain ok3 w3 where a3: "alloc_str E v w2 = (ok3, w3)" by fastforce
  have w1: "w1 = emit (Alloc SIZEOF_HEADER ok1) w" using a1 by (auto simp: palloc_def Let_def)
  have "w' = upd_ctx i (\<lambda>c. c\<lparr>resp_hdr_collect := Some (ps @ [\<lparr>h_name = nm, h_value = v\<rparr>])\<rparr>) w3"
    using assms(1) Some a1 a2 a3
    by (auto simp: ngx_http_coraza_add_response_header_def split: if_splits)
  then show ?thesis
    using Some w1 alloc_str_world [OF a2] alloc_str_world [OF a3] by (auto simp: progress_def)
qed

lemma add_response_header_rc:
  "ngx_http_coraza_add_response_header E c nm v w = (rc, w') \<Longrightarrow> rc = NGX_OK \<or> rc = NGX_ERROR"
  by (auto simp: ngx_http_coraza_add_response_header_def Let_def
      split: option.splits if_splits prod.splits)

lemma quiet_add_response_header:
  "adds holds_back w (snd (ngx_http_coraza_add_response_header E c nm v w))"
  by (auto simp: ngx_http_coraza_add_response_header_def coraza_wrapper_defs cgo_def Let_def
      palloc_def alloc_str_def adds_def holds_back_def split: option.splits prod.splits)

text \<open>
  The interface of a resolver: on success it has contributed exactly the pairs
  its specification gives, which depend only on what no resolver changes; it
  answers \<open>NGX_OK\<close> or \<open>NGX_ERROR\<close> and forwards nothing.
\<close>

locale response_resolver =
  fixes resolver :: "env \<Rightarrow> ngx_str \<Rightarrow> world \<Rightarrow> int \<times> world"
    and name :: ngx_str
    and pairs :: "env \<Rightarrow> world \<Rightarrow> header list"
  assumes contributes: "resolver E name w = (NGX_OK, w') \<Longrightarrow> module_ctx w = Some i \<Longrightarrow>
      coraza_transaction (ctxs w i) = t \<Longrightarrow> \<forall>h \<in> set (pairs E w). int_sized h \<Longrightarrow>
      progress t i (pairs E w) w w'"
    and stable: "req w' = req w \<Longrightarrow> clcf w' = clcf w \<Longrightarrow>
      cached_http_time w' = cached_http_time w \<Longrightarrow> pairs E w' = pairs E w"
    and outcome: "fst (resolver E name w) \<in> {NGX_OK, NGX_ERROR}"
    and quiet: "adds holds_back w (snd (resolver E name w))"
begin

lemma same_after:
  "progress t i hs w w' \<Longrightarrow> pairs E w' = pairs E w"
  by (rule stable) (simp_all add: progress_def)

end

text \<open>A resolver that adds one header under a condition is one.\<close>

lemma response_resolver_cond:
  fixes v :: "env \<Rightarrow> world \<Rightarrow> ngx_str" and b :: "env \<Rightarrow> world \<Rightarrow> bool"
  assumes "\<And>E w. f E name w = (if b E w
      then ngx_http_coraza_add_response_header E (module_ctx w) name (v E w) w else (NGX_OK, w))"
    and "\<And>E w. g E w = (if b E w then [\<lparr>h_name = name, h_value = v E w\<rparr>] else [])"
    and "\<And>E w w'. req w' = req w \<Longrightarrow> clcf w' = clcf w \<Longrightarrow>
      cached_http_time w' = cached_http_time w \<Longrightarrow> b E w' = b E w \<and> v E w' = v E w"
  shows "response_resolver f name g"
proof
  show "fst (f E name w) \<in> {NGX_OK, NGX_ERROR}" for E w
    using add_response_header_rc [of E "module_ctx w" name "v E w" w]
    by (cases "ngx_http_coraza_add_response_header E (module_ctx w) name (v E w) w") (auto simp: assms(1))
  show "adds holds_back w (snd (f E name w))" for E w
    by (simp add: assms(1) quiet_add_response_header adds_refl)
  show "g E w' = g E w" if "req w' = req w" "clcf w' = clcf w"
    "cached_http_time w' = cached_http_time w" for E w w'
    using assms(3) [OF that, of E] by (simp add: assms(2))
  show "progress t i (g E w) w w'" if "f E name w = (NGX_OK, w')" "module_ctx w = Some i"
    "coraza_transaction (ctxs w i) = t" "\<forall>h \<in> set (g E w). int_sized h" for E w w' i t
    using that add_response_header_OK [of E i name "v E w" w w' t]
    by (cases "b E w") (simp_all add: assms(1,2) progress_refl)
qed

interpretation server: response_resolver ngx_http_coraza_resolv_header_server "ngx_string ''Server''" server_pairs
  by (rule response_resolver_cond [where b = "\<lambda>_ _. True"
        and v = "\<lambda>E w. h_value (hd (server_pairs E w))"])
    (auto simp: ngx_http_coraza_resolv_header_server_def server_pairs_def Let_def split: option.split)

interpretation date: response_resolver ngx_http_coraza_resolv_header_date "ngx_string ''Date''" date_pairs
  by (rule response_resolver_cond [where b = "\<lambda>_ _. True"
        and v = "\<lambda>E w. h_value (hd (date_pairs E w))"])
    (auto simp: ngx_http_coraza_resolv_header_date_def date_pairs_def Let_def split: option.split)

interpretation content_length: response_resolver ngx_http_coraza_resolv_header_content_length
    "ngx_string ''Content-Length''" content_length_pairs
  by (rule response_resolver_cond [where b = "\<lambda>_ w. ho_content_length_n (r_headers_out (req w)) \<ge> 0"
        and v = "\<lambda>E w. h_value (hd (content_length_pairs E w))"])
    (auto simp: ngx_http_coraza_resolv_header_content_length_def content_length_pairs_def Let_def)

interpretation content_type: response_resolver ngx_http_coraza_resolv_header_content_type
    "ngx_string ''Content-Type''" content_type_pairs
  by (rule response_resolver_cond [where b = "\<lambda>_ w. ho_content_type (r_headers_out (req w)) \<noteq> []"
        and v = "\<lambda>E w. h_value (hd (content_type_pairs E w))"])
    (auto simp: ngx_http_coraza_resolv_header_content_type_def content_type_pairs_def Let_def)

interpretation last_modified: response_resolver ngx_http_coraza_resolv_header_last_modified
    "ngx_string ''Last-Modified''" last_modified_pairs
  by (rule response_resolver_cond [where b = "\<lambda>_ w. ho_last_modified_time (r_headers_out (req w)) \<noteq> - 1"
        and v = "\<lambda>E w. h_value (hd (last_modified_pairs E w))"])
    (auto simp: ngx_http_coraza_resolv_header_last_modified_def last_modified_pairs_def Let_def)

interpretation transfer_encoding: response_resolver ngx_http_coraza_resolv_header_transfer_encoding
    "ngx_string ''Transfer-Encoding''" transfer_encoding_pairs
  by (rule response_resolver_cond [where b = "\<lambda>_ w. r_chunked (req w)"])
    (auto simp: ngx_http_coraza_resolv_header_transfer_encoding_def transfer_encoding_pairs_def)

interpretation vary: response_resolver ngx_http_coraza_resolv_header_vary "ngx_string ''Vary''" vary_pairs
  by (rule response_resolver_cond [where b = "\<lambda>_ w. r_gzip_vary (req w) \<and> gzip_vary (clcf w)"])
    (auto simp: ngx_http_coraza_resolv_header_vary_def vary_pairs_def)

interpretation connection: response_resolver ngx_http_coraza_resolv_header_connection
    "ngx_string ''Connection''" connection_pairs
proof
  let ?n = "ngx_string ''Connection''" and ?f = ngx_http_coraza_resolv_header_connection
  let ?add = ngx_http_coraza_add_response_header
  let ?ka = "\<lambda>w. ngx_string ''timeout='' @ dec (keepalive_header (clcf w))"
  show "connection_pairs E w' = connection_pairs E w" if "req w' = req w" "clcf w' = clcf w" for E w w'
    using that by (simp add: connection_pairs_def)
  show "fst (?f E ?n w) \<in> {NGX_OK, NGX_ERROR}" for E w
  proof -
    have "fst (?add E c nm v u) \<in> {NGX_OK, NGX_ERROR}" for c nm v u
      using add_response_header_rc [of E c nm v u] by (cases "?add E c nm v u") auto
    then show ?thesis
      by (simp add: ngx_http_coraza_resolv_header_connection_def Let_def split: prod.split)
  qed
  show "adds holds_back w (snd (?f E ?n w))" for E w
  proof -
    obtain rc w1 where k: "?add E (module_ctx w) (ngx_string ''Keep-Alive'') (?ka w) w = (rc, w1)"
      by fastforce
    then have "adds holds_back w w1"
      using quiet_add_response_header [of w E "module_ctx w" "ngx_string ''Keep-Alive''" "?ka w"] by simp
    then show ?thesis
      using quiet_add_response_header adds_trans k
      by (simp add: ngx_http_coraza_resolv_header_connection_def adds_refl)
  qed
  show "progress t i (connection_pairs E w) w w'" if "?f E ?n w = (NGX_OK, w')" "module_ctx w = Some i"
    "coraza_transaction (ctxs w i) = t" "\<forall>h \<in> set (connection_pairs E w). int_sized h" for E w w' i t
  proof (cases "r_http_version (req w) < NGX_HTTP_VERSION_20 \<and>
      ho_status (r_headers_out (req w)) \<noteq> NGX_HTTP_SWITCHING_PROTOCOLS \<and> r_keepalive (req w) \<and>
      keepalive_header (clcf w) \<noteq> 0")
    case True
    let ?h1 = "\<lparr>h_name = ngx_string ''Keep-Alive'', h_value = ?ka w\<rparr>"
    let ?h2 = "\<lparr>h_name = ?n, h_value = ngx_string ''keep-alive''\<rparr>"
    have p: "connection_pairs E w = [?h1] @ [?h2]" using True by (simp add: connection_pairs_def)
    obtain rc w1 where k: "?add E (Some i) (ngx_string ''Keep-Alive'') (?ka w) w = (rc, w1)" by fastforce
    have rc: "rc = NGX_OK" and k2: "?add E (module_ctx w1) ?n (ngx_string ''keep-alive'') w1 = (NGX_OK, w')"
      using that(1,2) True k
      by (auto simp: ngx_http_coraza_resolv_header_connection_def split: if_splits)
    have p1: "progress t i [?h1] w w1"
      using add_response_header_OK [OF k [unfolded rc] that(3)] that(4) p by simp
    then have "module_ctx w1 = Some i" "coraza_transaction (ctxs w1 i) = t"
      using that(2,3) by (simp_all add: progress_def)
    then have "progress t i [?h2] w1 w'"
      using add_response_header_OK [of E i ?n "ngx_string ''keep-alive''" w1 w' t] k2 that(4) p by simp
    with p1 show ?thesis unfolding p by (rule progress_trans)
  next
    case False
    then show ?thesis
      using that add_response_header_OK [of E i ?n _ w w' t]
      by (auto simp: ngx_http_coraza_resolv_header_connection_def connection_pairs_def progress_refl
          split: if_splits)
  qed
qed

text \<open>The first pass: all resolvers, in the order of the table.\<close>

abbreviation resolves :: "(ngx_str \<times> (env \<Rightarrow> ngx_str \<Rightarrow> world \<Rightarrow> int \<times> world)) \<Rightarrow>
    (env \<Rightarrow> world \<Rightarrow> header list) \<Rightarrow> bool" where
  "resolves x g \<equiv> response_resolver (snd x) (fst x) g"

lemma headers_out_resolve: "list_all2 resolves ngx_http_coraza_headers_out dedicated_specs"
  by (simp add: ngx_http_coraza_headers_out_def dedicated_specs_def server.response_resolver_axioms
      date.response_resolver_axioms content_length.response_resolver_axioms
      content_type.response_resolver_axioms last_modified.response_resolver_axioms
      connection.response_resolver_axioms transfer_encoding.response_resolver_axioms
      vary.response_resolver_axioms)

lemma resolve_headers_None:
  assumes "list_all2 resolves tab specs" "resolve_headers E tab w = (None, w')"
    and "module_ctx w = Some i" "coraza_transaction (ctxs w i) = t"
    and "\<forall>h \<in> set (concat (map (\<lambda>g. g E w) specs)). int_sized h"
  shows "progress t i (concat (map (\<lambda>g. g E w) specs)) w w'"
  using assms
proof (induction arbitrary: w rule: list_all2_induct)
  case Nil
  then show ?case by (simp add: progress_refl)
next
  case (Cons x tab g specs)
  obtain nm f where x: "x = (nm, f)" by fastforce
  obtain rc w1 where r: "f E nm w = (rc, w1)" by fastforce
  have rc: "rc = NGX_OK" and rest: "resolve_headers E tab w1 = (None, w')"
    using Cons.prems(1) r x by (auto split: if_splits)
  have p1: "progress t i (g E w) w w1"
    using response_resolver.contributes [OF Cons.hyps(1), of E w w1 i t] Cons.prems r x rc by simp
  have same: "k E w1 = k E w" if k: "k \<in> set specs" for k
  proof -
    obtain j where "k = specs ! j" "j < length specs" using k by (auto simp: in_set_conv_nth)
    then have "resolves (tab ! j) k" using Cons.hyps(2) by (simp add: list_all2_conv_all_nth)
    then show ?thesis using response_resolver.same_after [OF _ p1] by blast
  qed
  then have eq: "map (\<lambda>g. g E w1) specs = map (\<lambda>g. g E w) specs" by simp
  have "progress t i (concat (map (\<lambda>g. g E w1) specs)) w1 w'"
    using Cons.IH [OF rest] p1 Cons.prems(2-4) unfolding eq by (simp add: progress_def)
  with p1 show ?case unfolding eq by (simp add: progress_trans)
qed

lemma resolve_headers_quiet:
  assumes "list_all2 resolves tab specs" "resolve_headers E tab w = (early, w')"
  shows "adds holds_back w w' \<and> early \<in> {None, Some NGX_ERROR}"
  using assms
proof (induction arbitrary: w rule: list_all2_induct)
  case (Cons x tab g specs)
  obtain nm f where x: "x = (nm, f)" by fastforce
  obtain rc w1 where r: "f E nm w = (rc, w1)" by fastforce
  have "adds holds_back w w1" "rc \<in> {NGX_OK, NGX_ERROR}"
    using response_resolver.quiet [OF Cons.hyps(1), of w E]
      response_resolver.outcome [OF Cons.hyps(1), of E w] x r by simp_all
  then show ?case
    using Cons.prems Cons.IH [of w1] x r adds_trans by (auto split: if_splits)
qed (simp add: adds_refl)

text \<open>The second pass.\<close>

lemma list_headers_None:
  assumes "list_headers E i k es w = (None, w')" "coraza_transaction (ctxs w i) = t"
    and "\<forall>h \<in> set (listed_pairs (req w) k es). int_sized h"
  shows "progress t i (listed_pairs (req w) k es) w w'"
  using assms
proof (induction es arbitrary: k w)
  case Nil
  then show ?case by (simp add: progress_refl)
next
  case (Cons e es)
  show ?case
  proof (cases "elt_hash e \<noteq> 0 \<and> \<not> hoisted (req w) k")
    case False
    then show ?thesis using Cons.prems Cons.IH [of "Suc k" w] by (auto split: if_splits)
  next
    case True
    obtain rc w1 where a: "ngx_http_coraza_add_response_header E (Some i) (elt_key e) (elt_value e) w = (rc, w1)"
      by fastforce
    have rc: "rc = NGX_OK" and rest: "list_headers E i (Suc k) es w1 = (None, w')"
      using Cons.prems(1) True a by (auto split: if_splits)
    have p1: "progress t i [elt_pair e] w w1"
      using add_response_header_OK [OF a [unfolded rc] Cons.prems(2)] Cons.prems(3) True
      by (simp add: elt_pair_def)
    then have "req w1 = req w" "coraza_transaction (ctxs w1 i) = t"
      using Cons.prems(2) by (simp_all add: progress_def)
    with Cons.IH [OF rest] Cons.prems(3) have "progress t i (listed_pairs (req w) (Suc k) es) w1 w'"
      by simp
    from progress_trans [OF p1 this] show ?thesis using True by simp
  qed
qed

lemma list_headers_quiet:
  "list_headers E i k es w = (early, w') \<Longrightarrow>
     adds holds_back w w' \<and> early \<in> {None, Some NGX_ERROR}"
proof (induction es arbitrary: k w)
  case (Cons e es)
  obtain rc w1 where a: "ngx_http_coraza_add_response_header E (Some i) (elt_key e) (elt_value e) w = (rc, w1)"
    by fastforce
  have q: "adds holds_back w w1" "rc = NGX_OK \<or> rc = NGX_ERROR"
    using quiet_add_response_header [of w E "Some i" "elt_key e" "elt_value e"]
      add_response_header_rc [OF a] a by simp_all
  show ?case
    using Cons.prems Cons.IH [of "Suc k" w] Cons.IH [of "Suc k" w1] a q adds_trans
    by (auto split: if_splits)
qed (simp add: adds_refl)

text \<open>The flush: afterwards every collected pair has been seen.\<close>

lemma replay_headers_None:
  assumes "replay_headers E i hs w = (None, w')" "coraza_transaction (ctxs w i) = t"
    and "\<forall>h \<in> set hs. int_sized h"
  shows "progress t i hs w w'"
  using assms
proof (induction hs arbitrary: w)
  case Nil
  then show ?case by (simp add: progress_refl)
next
  case (Cons h hs)
  obtain rc w1 where a: "ngx_http_coraza_add_response_header E (Some i) (h_name h) (h_value h) w = (rc, w1)"
    by fastforce
  have rc: "rc = NGX_OK" and rest: "replay_headers E i hs w1 = (None, w')"
    using Cons.prems(1) a by (auto split: if_splits)
  have p1: "progress t i [h] w w1"
    using add_response_header_OK [OF a [unfolded rc] Cons.prems(2)] Cons.prems(3) by (cases h) simp
  then have "coraza_transaction (ctxs w1 i) = t" using Cons.prems(2) by (simp add: progress_def)
  from progress_trans [OF p1 Cons.IH [OF rest this]] Cons.prems(3) show ?case by simp
qed

lemma replay_headers_quiet:
  "replay_headers E i hs w = (early, w') \<Longrightarrow> adds holds_back w w' \<and> early \<in> {None, Some NGX_ERROR}"
proof (induction hs arbitrary: w)
  case (Cons h hs)
  obtain rc w1 where a: "ngx_http_coraza_add_response_header E (Some i) (h_name h) (h_value h) w = (rc, w1)"
    by fastforce
  have q: "adds holds_back w w1" "rc = NGX_OK \<or> rc = NGX_ERROR"
    using quiet_add_response_header [of w E "Some i" "h_name h" "h_value h"]
      add_response_header_rc [OF a] a by simp_all
  show ?case
    using Cons.prems Cons.IH [of w1] a q adds_trans by (auto split: if_splits)
qed (simp add: adds_refl)

lemma response_batch_seen:
  "response_header_of t (Eng t (Add_response_headers p l k) n) = seen_header t (Eng t (Add_request_headers p l k) n)"
  by (simp add: response_header_of_def seen_header_def)

lemma int_sized_sized: "int_sized h \<Longrightarrow> sized h"
  by (simp add: int_sized_def sized_def)

lemma pack_headers_quiet:
  assumes "ngx_http_coraza_pack_headers E hs w = (res, w')"
  shows "req w' = req w \<and> ctxs w' = ctxs w \<and> clcf w' = clcf w \<and> cached_http_time w' = cached_http_time w \<and>
    module_ctx w' = module_ctx w \<and> adds holds_back w w' \<and>
    (\<exists>new. trace w' = trace w @ new \<and> response_seen t new = [])"
  using assms
  by (auto simp: ngx_http_coraza_pack_headers_def palloc_def Let_def adds_def holds_back_def
      split: option.splits if_splits)

lemma bulk_response_headers_world:
  assumes "bulk_response_headers E i hs w = (d, w')" "coraza_transaction (ctxs w i) = t"
    and "\<forall>h \<in> set hs. int_sized h" "resp_hdr_collect (ctxs w i) = None"
  shows "adds holds_back w w' \<and> progress t i (if d then hs else []) w w'"
proof (cases "hs = []")
  case True
  then show ?thesis using assms by (simp add: bulk_response_headers_def adds_refl progress_refl)
next
  case False
  obtain res w1 where p: "ngx_http_coraza_pack_headers E hs w = (res, w1)" by fastforce
  note q = pack_headers_quiet [OF p, of t]
  show ?thesis
  proof (cases res)
    case None
    then show ?thesis using assms p q False by (auto simp: bulk_response_headers_def progress_def)
  next
    case (Some x)
    obtain out len where x: "x = (out, len)" by fastforce
    let ?b = "case out of None \<Rightarrow> [] | Some b \<Rightarrow> b"
    let ?c = "Add_response_headers ?b (c_int (unat len)) (c_int (length hs))"
    have w': "w' = emit (Eng t ?c (eng E (trace w1) t ?c)) w1" and d: "d \<longleftrightarrow> eng E (trace w1) t ?c \<ge> 0"
      using assms(1,2) p Some x q False
      by (auto simp: bulk_response_headers_def coraza_wrapper_defs cgo_def Let_def)
    have "response_header_of t (Eng t ?c (eng E (trace w1) t ?c)) = (if d then hs else [])"
      unfolding response_batch_seen
      using packed_batch_seen [OF _ p [unfolded Some x]] assms(3) int_sized_sized d by auto
    then show ?thesis
      using q assms(4) w' by (auto simp: progress_def adds_def holds_back_def)
  qed
qed

lemma flush_response_headers_quiet:
  assumes "flush_response_headers E i w = (early, w')" "coraza_transaction (ctxs w i) = t"
    and "\<forall>ps. resp_hdr_collect (ctxs w i) = Some ps \<longrightarrow> (\<forall>h \<in> set ps. int_sized h)"
  shows "adds holds_back w w' \<and> early \<in> {None, Some NGX_ERROR} \<and>
    (early = None \<longrightarrow> req w' = req w \<and> coraza_transaction (ctxs w' i) = t \<and>
      same_response (ctxs w i) (ctxs w' i) \<and>
      (\<exists>new. trace w' = trace w @ new \<and>
        response_seen t new = (case resp_hdr_collect (ctxs w i) of None \<Rightarrow> [] | Some ps \<Rightarrow> ps)))"
proof (cases "resp_hdr_collect (ctxs w i)")
  case None
  then show ?thesis using assms by (simp add: flush_response_headers_def adds_refl)
next
  case (Some ps)
  let ?w1 = "upd_ctx i (\<lambda>c. c\<lparr>resp_hdr_collect := None\<rparr>) w"
  have sz: "\<forall>h \<in> set ps. int_sized h" using assms(3) Some by blast
  obtain d w2 where b: "bulk_response_headers E i ps ?w1 = (d, w2)" by fastforce
  have q: "adds holds_back ?w1 w2" "progress t i (if d then ps else []) ?w1 w2"
    using bulk_response_headers_world [OF b _ sz] assms(2) by simp_all
  have h: "adds holds_back w w2" using q(1) by (simp add: adds_def)
  show ?thesis
  proof (cases d)
    case True
    then have "early = None" "w' = w2" using assms(1) Some b by (simp_all add: flush_response_headers_def)
    then show ?thesis using h q(2) True Some assms(2) by (auto simp: progress_def)
  next
    case False
    then have r: "replay_headers E i ps w2 = (early, w')"
      using assms(1) Some b by (simp add: flush_response_headers_def)
    have t2: "coraza_transaction (ctxs w2 i) = t" using q(2) assms(2) by (simp add: progress_def)
    have "early = None \<Longrightarrow> progress t i ([] @ ps) ?w1 w'"
      using q(2) False progress_trans replay_headers_None [OF _ t2 sz] r by fastforce
    moreover have "adds holds_back w w'" "early \<in> {None, Some NGX_ERROR}"
      using replay_headers_quiet [OF r] adds_trans [OF h] by blast+
    ultimately show ?thesis using Some assms(2) by (auto simp: progress_def)
  qed
qed

section \<open>Properties\<close>

text \<open>
  The response headers reached the engine and phase 3 was evaluated, before
  anything was handed on.
\<close>

definition inspected_response :: "env \<Rightarrow> tx \<Rightarrow> world \<Rightarrow> world \<Rightarrow> bool" where
  "inspected_response E t w w' \<longleftrightarrow>
     (\<exists>pre n post. trace w' = trace w @ pre @
          Eng t (Process_response_headers (response_status (req w))
                   (response_version (r_http_version (req w)))) n # post \<and>
        response_seen t pre = response_pairs E w \<and> (\<forall>e \<in> set pre. \<not> forwards e))"

lemma header_phase3_trace:
  assumes "coraza_transaction (ctxs w i) = t" "module_ctx w = Some i"
  shows "\<exists>n post. trace (snd (header_phase3 E i m w)) = trace w @
    Eng t (Process_response_headers (response_status (req w)) (response_version (r_http_version (req w)))) n # post"
proof -
  let ?c = "Process_response_headers (response_status (req w)) (response_version (r_http_version (req w)))"
  let ?w1 = "emit (Eng t ?c (eng E (trace w) t ?c)) w"
  have "header_phase3 E i m w = header_verdict E i m (eng E (trace w) t ?c) ?w1"
    using assms(1) by (simp add: header_phase3_def coraza_wrapper_defs cgo_def Let_def)
  moreover have "prims E ?w1 (snd (header_verdict E i m (eng E (trace w) t ?c) ?w1))"
    using runs_prims [of ?w1 i E] runs_header_verdict assms by simp
  ultimately show ?thesis using prims_frame [of E ?w1] by fastforce
qed

lemma collected_pairs:
  assumes "progress t i hs w w'" "resp_hdr_collect (ctxs w i) = (if ok then Some [] else None)"
  obtains new where "trace w' = trace w @ new"
    and "resp_hdr_collect (ctxs w' i) = (if ok then Some hs else None)"
    and "response_seen t new = (if ok then [] else hs)"
  using assms by (auto simp: progress_def split: if_splits)

lemma response_pairs_same:
  assumes "req w' = req w" "clcf w' = clcf w" "cached_http_time w' = cached_http_time w"
  shows "response_pairs E w' = response_pairs E w"
  using server.stable [OF assms, of E] date.stable [OF assms, of E] content_length.stable [OF assms, of E]
    content_type.stable [OF assms, of E] last_modified.stable [OF assms, of E]
    connection.stable [OF assms, of E] transfer_encoding.stable [OF assms, of E] vary.stable [OF assms, of E]
  by (simp add: response_pairs_def dedicated_pairs_def dedicated_specs_def assms(1))

text \<open>The two passes together, from a state with the collector armed or not.\<close>

lemma passes_None:
  assumes "resolve_headers E ngx_http_coraza_headers_out w = (None, w1)"
    and "list_headers E i 0 (ho_headers (r_headers_out (req w1))) w1 = (None, w2)"
    and "module_ctx w = Some i" "coraza_transaction (ctxs w i) = t"
    and "\<forall>h \<in> set (response_pairs E w). int_sized h"
  shows "progress t i (response_pairs E w) w w2"
proof -
  have p1: "progress t i (dedicated_pairs E w) w w1"
    unfolding dedicated_pairs_def
    by (rule resolve_headers_None [OF headers_out_resolve assms(1,3,4)])
      (use assms(5) in \<open>auto simp: response_pairs_def dedicated_pairs_def\<close>)
  then have w1: "req w1 = req w" "coraza_transaction (ctxs w1 i) = t"
    using assms(4) by (simp_all add: progress_def)
  have "progress t i (listed_pairs (req w1) 0 (ho_headers (r_headers_out (req w1)))) w1 w2"
    by (rule list_headers_None [OF assms(2) w1(2)])
      (use w1 assms(5) in \<open>auto simp: response_pairs_def\<close>)
  from progress_trans [OF p1 this] w1(1) show ?thesis by (simp add: response_pairs_def)
qed

lemma submit_response_headers_seen:
  assumes "submit_response_headers E i w = (early, w')"
    and "module_ctx w = Some i" "coraza_transaction (ctxs w i) = t"
    and "\<forall>h \<in> set (response_pairs E w). int_sized h"
  shows "adds holds_back w w' \<and> early \<in> {None, Some NGX_ERROR} \<and>
    (early = None \<longrightarrow> req w' = req w \<and> coraza_transaction (ctxs w' i) = t \<and>
      same_response (ctxs w i) (ctxs w' i) \<and>
      (\<exists>pre. trace w' = trace w @ pre \<and> response_seen t pre = response_pairs E w))"
proof -
  define ok where "ok = alloc_ok E (trace w) SIZEOF_ARRAY"
  define w0 where "w0 = upd_ctx i (\<lambda>c. c\<lparr>resp_hdr_collect := (if ok then Some [] else None)\<rparr>)
      (emit (Alloc SIZEOF_ARRAY ok) w)"
  have w0: "req w0 = req w" "module_ctx w0 = Some i" "coraza_transaction (ctxs w0 i) = t"
    "same_response (ctxs w i) (ctxs w0 i)"
    "resp_hdr_collect (ctxs w0 i) = (if ok then Some [] else None)"
    "trace w0 = trace w @ [Alloc SIZEOF_ARRAY ok]" "response_pairs E w0 = response_pairs E w"
    using assms(2,3) response_pairs_same [of w0 w E] by (simp_all add: w0_def)
  have h0: "adds holds_back w w0" using w0(6) by (simp add: adds_def holds_back_def)
  obtain e1 w1 where r: "resolve_headers E ngx_http_coraza_headers_out w0 = (e1, w1)" by fastforce
  obtain e2 w2 where l: "list_headers E i 0 (ho_headers (r_headers_out (req w1))) w1 = (e2, w2)" by fastforce
  have eq: "(early, w') = (case e1 of Some rc \<Rightarrow> (Some rc, w1) | None \<Rightarrow>
      case e2 of Some rc \<Rightarrow> (Some rc, w2) | None \<Rightarrow> flush_response_headers E i w2)"
    using assms(1) r l by (cases e1; cases e2)
      (auto simp: submit_response_headers_def palloc_def Let_def ok_def w0_def)
  have h1: "adds holds_back w w1" "e1 \<in> {None, Some NGX_ERROR}"
    using resolve_headers_quiet [OF headers_out_resolve r] adds_trans [OF h0] by blast+
  have h2: "adds holds_back w w2" "e2 \<in> {None, Some NGX_ERROR}"
    using list_headers_quiet [OF l] adds_trans [OF h1(1)] by blast+
  show ?thesis
  proof (cases "e1 = None \<and> e2 = None")
    case False
    then show ?thesis using eq h1 h2 by auto
  next
    case True
    have p: "progress t i (response_pairs E w) w0 w2"
      using passes_None [of E w0 w1 i w2 t] r l True w0 assms(4) by simp
    from collected_pairs [OF p w0(5)] obtain new where new: "trace w2 = trace w0 @ new"
      "resp_hdr_collect (ctxs w2 i) = (if ok then Some (response_pairs E w) else None)"
      "response_seen t new = (if ok then [] else response_pairs E w)" by blast
    have w2: "coraza_transaction (ctxs w2 i) = t" "req w2 = req w" "same_response (ctxs w i) (ctxs w2 i)"
      using p w0 assms(3) by (simp_all add: progress_def)
    have f: "flush_response_headers E i w2 = (early, w')" using eq True by simp
    from flush_response_headers_quiet [OF f w2(1)] new(2) assms(4)
    have q: "adds holds_back w2 w'" "early \<in> {None, Some NGX_ERROR}"
      "early = None \<longrightarrow> req w' = req w2 \<and> coraza_transaction (ctxs w' i) = t \<and>
        same_response (ctxs w2 i) (ctxs w' i) \<and> (\<exists>b. trace w' = trace w2 @ b \<and> response_seen t b = (if ok then response_pairs E w else []))"
      by (auto split: if_splits)
    have "early = None \<longrightarrow> (\<exists>pre. trace w' = trace w @ pre \<and> response_seen t pre = response_pairs E w)"
      using q(3) new w0(6) by (cases ok) auto
    then show ?thesis using q adds_trans [OF h2(1)] w2(2,3) by auto
  qed
qed

text \<open>The filter up to phase 3: it gives up, or the headers have been shown.\<close>

lemma header_filter_phase3:
  assumes "module_ctx w = Some i" and "mcf w = Some m"
    and "\<not> intervention_triggered (ctxs w i)" and "\<not> processed (ctxs w i)"
    and "\<forall>h \<in> set (response_pairs E w). int_sized h"
    and "ngx_http_coraza_header_filter E w = (rc, w')"
  shows "(rc = NGX_ERROR \<and> adds holds_back w w') \<or>
    (\<exists>pre w1. trace w1 = trace w @ pre \<and> (\<forall>e \<in> set pre. \<not> forwards e) \<and>
       response_seen (coraza_transaction (ctxs w i)) pre = response_pairs E w \<and> req w1 = req w \<and>
       same_response (ctxs w i) (ctxs w1 i) \<and> module_ctx w1 = Some i \<and> header_phase3 E i m w1 = (rc, w'))"
proof -
  let ?t = "coraza_transaction (ctxs w i)"
  let ?w0 = "upd_ctx i (\<lambda>c. c\<lparr>processed := True\<rparr>) w"
  obtain early w1 where s: "submit_response_headers E i ?w0 = (early, w1)" by fastforce
  have eq: "(rc, w') = (case early of Some rc \<Rightarrow> (rc, w1) | None \<Rightarrow> header_phase3 E i m w1)"
    using assms(1-4,6) s by (simp add: ngx_http_coraza_header_filter_def split: option.splits)
  have "response_pairs E ?w0 = response_pairs E w" by (rule response_pairs_same) simp_all
  with submit_response_headers_seen [OF s, of ?t] assms(1,5)
  have q: "adds holds_back ?w0 w1" "early \<in> {None, Some NGX_ERROR}"
    "early = None \<longrightarrow> req w1 = req w \<and> same_response (ctxs w i) (ctxs w1 i) \<and>
      (\<exists>pre. trace w1 = trace w @ pre \<and> response_seen ?t pre = response_pairs E w)" by auto
  have h: "adds holds_back w w1" using q(1) by (simp add: adds_def)
  show ?thesis
  proof (cases early)
    case (Some x)
    then show ?thesis using eq q(2) h by auto
  next
    case None
    then obtain pre where pre: "trace w1 = trace w @ pre" "response_seen ?t pre = response_pairs E w"
      and w1: "req w1 = req w" "same_response (ctxs w i) (ctxs w1 i)" using q(3) by blast
    have quiet: "\<forall>e \<in> set pre. \<not> forwards e" using h pre(1) by (auto simp: adds_def holds_back_def)
    have m0: "module_ctx ?w0 = Some i" using assms(1) by simp
    have "module_ctx w1 = Some i"
      using prims_current [OF runs_prims [OF m0 runs_submit_response_headers] m0, of E] s by simp
    moreover have "header_phase3 E i m w1 = (rc, w')" using eq None by simp
    ultimately show ?thesis using pre quiet w1 by blast
  qed
qed

text \<open>
  C8: in the first run of the header filter for a response (existing context, no
  earlier denial, every name and value below fits a C \<open>int\<close>), either it gives up with
  \<open>NGX_ERROR\<close> and hands nothing on, or before anything is handed on the engine has
  seen one and the same list, each header once and in order, and has evaluated
  phase 3.  The list is a function of the request: the headers the module derives
  from the dedicated fields, then the live entries of the header list that no
  dedicated field stands for.  In particular it does not depend on the way the
  headers were submitted: collected and packed (as the decoder of the wire format
  reads the batch), collected and replayed one by one, or one by one from the start.
\<close>

theorem header_filter_inspects:
  assumes "module_ctx w = Some i" and "mcf w = Some m"
    and "\<not> intervention_triggered (ctxs w i)" and "\<not> processed (ctxs w i)"
    and "\<forall>h \<in> set (response_pairs E w). int_sized h"
    and "ngx_http_coraza_header_filter E w = (rc, w')"
  shows "(rc = NGX_ERROR \<and> adds holds_back w w') \<or>
    inspected_response E (coraza_transaction (ctxs w i)) w w'"
  using header_filter_phase3 [OF assms]
proof (elim disjE exE conjE)
  fix pre w1
  assume pre: "trace w1 = trace w @ pre" "\<forall>e \<in> set pre. \<not> forwards e"
      "response_seen (coraza_transaction (ctxs w i)) pre = response_pairs E w"
    and w1: "req w1 = req w" "coraza_transaction (ctxs w1 i) = coraza_transaction (ctxs w i)"
      "module_ctx w1 = Some i" "header_phase3 E i m w1 = (rc, w')"
  from header_phase3_trace [OF w1(2,3), of E m] obtain n post where
    "trace w' = trace w @ pre @ Eng (coraza_transaction (ctxs w i)) (Process_response_headers
       (response_status (req w)) (response_version (r_http_version (req w)))) n # post"
    unfolding w1(1,4) pre(1) by auto
  then show ?thesis unfolding inspected_response_def using pre(2,3) by blast
qed simp

text \<open>A proxied response whose \<open>Date\<close> and \<open>Server\<close> live in the header list.\<close>

definition sample_response_world :: world where
  "sample_response_world = sample_body_world\<lparr>
     req := (req sample_body_world)\<lparr>r_headers_out := sample_headers_out\<lparr>
       ho_headers := [\<lparr>elt_hash = 1, elt_key = [83], elt_value = [1]\<rparr>,
         \<lparr>elt_hash = 1, elt_key = [88], elt_value = [2]\<rparr>,
         \<lparr>elt_hash = 0, elt_key = [89], elt_value = [3]\<rparr>],
       ho_server := Some 0\<rparr>\<rparr>\<rparr>"

lemma sample_response_pairs:
  "response_pairs sample_env sample_response_world =
     [\<lparr>h_name = ngx_string ''Server'', h_value = [1]\<rparr>, \<lparr>h_name = ngx_string ''Date'', h_value = [48]\<rparr>,
      \<lparr>h_name = ngx_string ''Content-Length'', h_value = [49]\<rparr>,
      \<lparr>h_name = ngx_string ''Content-Type'', h_value = [116]\<rparr>,
      \<lparr>h_name = ngx_string ''Connection'', h_value = ngx_string ''keep-alive''\<rparr>,
      \<lparr>h_name = [88], h_value = [2]\<rparr>]"
  by (simp add: response_pairs_def dedicated_pairs_def dedicated_specs_def pairs_defs
      sample_response_world_def sample_body_world_def sample_defs hoisted_def elt_pair_def dec.simps)

theorem header_filter_inspects_witness:
  "let w' = snd (ngx_http_coraza_header_filter sample_env sample_response_world);
       rc = fst (ngx_http_coraza_header_filter sample_env sample_response_world)
   in (rc = NGX_ERROR \<and> adds holds_back sample_response_world w') \<or>
      inspected_response sample_env 5 sample_response_world w'"
proof -
  let ?w = sample_response_world
  have w: "module_ctx ?w = Some 0" "mcf ?w = Some sample_conf"
    "\<not> intervention_triggered (ctxs ?w 0)" "\<not> processed (ctxs ?w 0)"
    "coraza_transaction (ctxs ?w 0) = 5"
    by (simp_all add: sample_response_world_def sample_body_world_def sample_defs)
  have sz: "\<forall>h \<in> set (response_pairs sample_env ?w). int_sized h"
    by (simp add: sample_response_pairs int_sized_def ngx_string_def)
  show ?thesis
    unfolding Let_def
    using header_filter_inspects [OF w(1-4) sz prod.collapse [symmetric]] w(5) by simp
qed

text \<open>
  The filter steps aside, passing the headers on untouched and without a
  word to the engine, when the request has no context, has no configuration, has
  already been denied, or when its headers have been through the filter before.
\<close>

lemma header_filter_transparent:
  assumes "\<forall>i. module_ctx w = Some i \<longrightarrow> mcf w = None \<or> intervention_triggered (ctxs w i) \<or> processed (ctxs w i)"
  shows "ngx_http_coraza_header_filter E w = run_next_header_filter E w"
  using assms by (auto simp: ngx_http_coraza_header_filter_def split: option.split)

section \<open>Event streams\<close>

text \<open>
  An event stream by its content type: the media type, in any case, and after
  optional white space nothing or a parameter list.
\<close>

definition sse_media_type :: "bytes \<Rightarrow> bool" where
  "sse_media_type mt \<longleftrightarrow> map ngx_tolower mt = ngx_string ''text/event-stream''"

definition is_ows :: "u_char \<Rightarrow> bool" where
  "is_ows c \<longleftrightarrow> c = 0x20 \<or> c = 0x09"

definition event_stream :: "request \<Rightarrow> bool" where
  "event_stream r \<longleftrightarrow>
     (\<exists>mt tl. ho_content_type (r_headers_out r) = mt @ tl \<and> sse_media_type mt \<and>
        (dropWhile is_ows tl = [] \<or> hd (dropWhile is_ows tl) = 0x3b))"

lemma sse_tail_iff:
  "sse_tail cs \<longleftrightarrow> (dropWhile is_ows cs = [] \<or> hd (dropWhile is_ows cs) = 0x3b)"
  by (induction cs) (auto simp: is_ows_def)

lemma sse_iff_event_stream: "ngx_http_coraza_is_sse_response r \<longleftrightarrow> event_stream r" (is "?l \<longleftrightarrow> ?r")
proof
  let ?ct = "ho_content_type (r_headers_out r)" and ?k = "length (ngx_string ''text/event-stream'')"
  assume ?l
  then have "sse_media_type (take ?k ?ct)" "sse_tail (drop ?k ?ct)"
    by (simp_all add: ngx_http_coraza_is_sse_response_def Let_def sse_media_type_def split: if_splits)
  then show ?r
    unfolding event_stream_def
    by (intro exI [of _ "take ?k ?ct"] exI [of _ "drop ?k ?ct"]) (simp add: sse_tail_iff)
next
  assume ?r
  then obtain mt tl where ct: "ho_content_type (r_headers_out r) = mt @ tl" and mt: "sse_media_type mt"
    and tl: "sse_tail tl" by (auto simp: sse_tail_iff event_stream_def)
  have "length mt = length (ngx_string ''text/event-stream'')"
    using arg_cong [OF mt [unfolded sse_media_type_def], of length] by simp
  then show ?l using mt tl
    by (simp add: ngx_http_coraza_is_sse_response_def ct sse_media_type_def)
qed

section \<open>The verdict of phase 3\<close>

text \<open>
  What the poll asks for: \<open>Some s\<close> to replace the response by one with status
  \<open>s\<close>, \<open>None\<close> to go on.
\<close>

definition denial :: "env \<Rightarrow> tx \<Rightarrow> int \<Rightarrow> event list \<Rightarrow> int option" where
  "denial E t n tr =
     (if n < 0 then Some NGX_HTTP_INTERNAL_SERVER_ERROR
      else if n \<noteq> CORAZA_INTERRUPTION then None
      else
        (case eng_intervention E tr t of
           None \<Rightarrow> None
         | Some iv \<Rightarrow> if iv_status iv = 200 \<or> iv_status iv = 0 then None else Some (iv_status iv)))"

lemma poll_denial:
  assumes "coraza_transaction (ctxs w i) = t" "\<not> r_header_sent (req w)"
  shows "fst (ngx_http_coraza_poll_after_process E (Some i) early n w) =
    (case denial E t n (trace w) of None \<Rightarrow> 0 | Some s \<Rightarrow> s)"
  using assms
  by (auto simp: ngx_http_coraza_poll_after_process_def fst_process_intervention denial_def split: option.split)

text \<open>A redirect as it leaves the module: no body, and nothing that describes one.\<close>

definition bare_redirect :: "int \<Rightarrow> request \<Rightarrow> bool" where
  "bare_redirect s r \<longleftrightarrow> ngx_http_coraza_is_redirect_status s \<and> r_header_only r \<and>
     r_err_status r = 0 \<and> ho_status (r_headers_out r) = s \<and> ho_status_line (r_headers_out r) = [] \<and>
     ho_location (r_headers_out r) \<noteq> None \<and> ho_content_length_n (r_headers_out r) = - 1 \<and>
     ho_content_length (r_headers_out r) = None \<and> ho_content_type (r_headers_out r) = [] \<and>
     ho_last_modified_time (r_headers_out r) = - 1 \<and> ho_last_modified (r_headers_out r) = None \<and>
     ho_content_encoding (r_headers_out r) = None \<and> ho_etag (r_headers_out r) = None \<and>
     ho_accept_ranges (r_headers_out r) = None \<and> \<not> r_allow_ranges r"

lemma prepare_redirect_bare:
  assumes "ngx_http_coraza_is_redirect_status s" "ho_location (r_headers_out (req w)) \<noteq> None"
  shows "bare_redirect s (req (ngx_http_coraza_prepare_redirect s w))"
  using assms by (simp add: bare_redirect_def ngx_http_coraza_prepare_redirect_def Let_def)

lemma prepare_redirect_trace [simp]: "trace (ngx_http_coraza_prepare_redirect s w) = trace w"
  "ctxs (ngx_http_coraza_prepare_redirect s w) = ctxs w"
  by (simp_all add: ngx_http_coraza_prepare_redirect_def Let_def)

text \<open>
  The entries of the header list that the entity fields of \<open>headers_out\<close> point at
  describe the discarded body.  \<open>discards_entity ho ho'\<close>: from \<open>ho\<close> to \<open>ho'\<close> every one
  of them got the hash 0, with which nginx does not send it, and every other entry
  is as before.
\<close>

definition entity_pointers :: "headers_out \<Rightarrow> nat option list" where
  "entity_pointers ho = [ho_content_length ho, ho_last_modified ho, ho_content_encoding ho, ho_etag ho,
     ho_accept_ranges ho]"

definition discards_entity :: "headers_out \<Rightarrow> headers_out \<Rightarrow> bool" where
  "discards_entity ho ho' \<longleftrightarrow> length (ho_headers ho) \<le> length (ho_headers ho') \<and>
     (\<forall>k < length (ho_headers ho).
        if Some k \<in> set (entity_pointers ho) then elt_hash (ho_headers ho' ! k) = 0
        else ho_headers ho' ! k = ho_headers ho ! k)"

lemma length_clear_header [simp]: "length (clear_header ptr hs) = length hs"
  by (simp add: clear_header_def split: option.split)

lemma nth_clear_header:
  "k < length hs \<Longrightarrow>
   clear_header ptr hs ! k = (if ptr = Some k then (hs ! k)\<lparr>elt_hash := 0\<rparr> else hs ! k)"
  by (auto simp: clear_header_def nth_list_update split: option.split)

lemma prepare_redirect_headers:
  "ho_headers (r_headers_out (req (ngx_http_coraza_prepare_redirect s w))) =
   (let ho = r_headers_out (req w) in
    clear_header (ho_accept_ranges ho) (clear_header (ho_etag ho) (clear_header (ho_content_encoding ho)
      (clear_header (ho_last_modified ho) (clear_header (ho_content_length ho) (ho_headers ho))))))"
  by (simp add: ngx_http_coraza_prepare_redirect_def Let_def)

text \<open>What the poll may do to the headers: append one, the target of a redirect.\<close>

definition appends_headers :: "headers_out \<Rightarrow> headers_out \<Rightarrow> bool" where
  "appends_headers ho ho' \<longleftrightarrow> entity_pointers ho' = entity_pointers ho \<and>
     (\<exists>more. ho_headers ho' = ho_headers ho @ more)"

lemma appends_headers_refl [simp]: "appends_headers ho ho"
  by (simp add: appends_headers_def)

lemma appends_install_location:
  "appends_headers (r_headers_out (req w)) (r_headers_out (req (install_location E data w)))"
  by (auto simp: install_location_def Let_def palloc_def appends_headers_def entity_pointers_def)

lemma appends_poll:
  "appends_headers (r_headers_out (req w))
     (r_headers_out (req (snd (ngx_http_coraza_poll_after_process E (Some i) False n w))))"
proof (cases "n < 0 \<or> n \<noteq> CORAZA_INTERRUPTION")
  case False
  have l: "appends_headers (r_headers_out (req w)) (r_headers_out (req (install_location E data v)))"
    if "req v = req w" for data v
    using appends_install_location [of v E data] that by simp
  show ?thesis
    using False
    by (auto simp: ngx_http_coraza_poll_after_process_def ngx_http_coraza_process_intervention_def
        coraza_intervention_def coraza_wrapper_defs cgo_def Let_def l split: option.split)
qed (auto simp: ngx_http_coraza_poll_after_process_def)

lemma prepare_redirect_discards:
  assumes "appends_headers ho (r_headers_out (req w))"
  shows "discards_entity ho (r_headers_out (req (ngx_http_coraza_prepare_redirect s w)))"
proof -
  let ?ho = "r_headers_out (req w)"
  have p: "Some k \<in> set (entity_pointers ho) \<longleftrightarrow> ho_content_length ?ho = Some k \<or>
      ho_last_modified ?ho = Some k \<or> ho_content_encoding ?ho = Some k \<or> ho_etag ?ho = Some k \<or>
      ho_accept_ranges ?ho = Some k" for k
    using assms by (auto simp: appends_headers_def entity_pointers_def)
  have n: "ho_headers ?ho ! k = ho_headers ho ! k" "k < length (ho_headers ?ho)"
    if "k < length (ho_headers ho)" for k
    using assms that by (auto simp: appends_headers_def nth_append)
  have "length (ho_headers ho) \<le> length (ho_headers ?ho)" using assms by (auto simp: appends_headers_def)
  then show ?thesis
    unfolding discards_entity_def prepare_redirect_headers Let_def p
    by (auto simp: nth_clear_header n)
qed

text \<open>How a replaced response leaves: as an error page, or as a bare redirect.\<close>

definition replaced_by :: "int \<Rightarrow> event \<Rightarrow> bool" where
  "replaced_by s e \<longleftrightarrow> (\<exists>rc. e = Filter_finalize s rc) \<or> (\<exists>r rc. e = Next_header_filter r rc \<and> bare_redirect s r)"

lemma verdict_holds_back: "verdict_event e \<Longrightarrow> holds_back e"
  by (cases e rule: verdict_event.cases) (simp_all add: holds_back_def)

text \<open>The state in which the verdict of phase 3 is read, and the poll on it.\<close>

definition polled_state :: "env \<Rightarrow> nat \<Rightarrow> world \<Rightarrow> world" where
  "polled_state E i w =
     (let (processable, w) = ngx_http_coraza_is_response_body_processable E (coraza_transaction (ctxs w i)) w
      in upd_ctx i (\<lambda>c. c\<lparr>response_body_processable := odd processable\<rparr>) w)"

lemma polled_state_sel:
  "req (polled_state E i w) = req w" "coraza_transaction (ctxs (polled_state E i w) i) = coraza_transaction (ctxs w i)"
  "adds holds_back w (polled_state E i w)"
  by (auto simp: polled_state_def coraza_wrapper_defs cgo_def Let_def adds_def holds_back_def)

lemma header_verdict_eq:
  assumes "ngx_http_coraza_poll_after_process E (Some i) False pret (polled_state E i w) = (ret, w2)"
  shows "header_verdict E i m pret w =
     (if r_error_page (req w2) then run_next_header_filter E w2
      else if ret > 0 then
        (if ngx_http_coraza_is_redirect_status ret \<and> ho_location (r_headers_out (req w2)) \<noteq> None
         then run_next_header_filter E (ngx_http_coraza_prepare_redirect ret (trigger i w2))
         else ngx_http_filter_finalize_request E ret (trigger i w2))
      else if delays_headers m (req w2) then
        (NGX_OK, upd_ctx i (\<lambda>c. c\<lparr>headers_delayed := True, pending_chain := []\<rparr>)
           (if response_body_processable (ctxs w2 i)
            then upd_req (\<lambda>r. r\<lparr>r_filter_need_in_memory := True\<rparr>) w2 else w2))
      else run_next_header_filter E w2)"
  using assms
  by (simp add: header_verdict_def polled_state_def coraza_wrapper_defs cgo_def Let_def)

lemma header_verdict_poll:
  assumes "ngx_http_coraza_poll_after_process E (Some i) False pret (polled_state E i w) = (ret, w2)"
  shows "adds holds_back w w2" "same_request w w2" "ctxs w2 = ctxs (polled_state E i w)"
proof -
  let ?v = "polled_state E i w"
  have "adds holds_back ?v w2"
    using adds_mono [OF adds_poll [of ?v E "Some i" False pret] verdict_holds_back] assms by simp
  with polled_state_sel(3) show "adds holds_back w w2" by (rule adds_trans)
  show "same_request w w2"
    using same_request_poll [of ?v E "Some i" False pret] assms
    by (simp add: same_request_def polled_state_sel)
  show "ctxs w2 = ctxs ?v" using poll_ctxs_quiet [of E "Some i" pret ?v] assms by simp
qed

text \<open>
  C16: when phase 3 denies a response with a status above 0, the headers are not sent
  yet and no error page is being served, the origin's response goes no further: the
  request is marked, and the one thing handed on is an error page with the status of
  the denial or, for a redirect status with a target, a response without body and
  without the headers that describe the discarded one: the dedicated fields are reset,
  the entries of the header list they pointed at are no longer sent, and all other
  entries of the origin are as they were.  A phase that could not be evaluated is a
  denial with status 500.
\<close>

theorem header_filter_denies:
  assumes "\<not> r_error_page (req w)" and "\<not> r_header_sent (req w)"
    and "denial E (coraza_transaction (ctxs w i)) n (trace (polled_state E i w)) = Some s" and "s > 0"
    and "header_verdict E i m n w = (rc, w')"
  shows "intervention_triggered (ctxs w' i) \<and>
    (\<exists>pre e. trace w' = trace w @ pre @ [e] \<and> (\<forall>x \<in> set pre. \<not> forwards x) \<and> replaced_by s e \<and>
       (\<forall>r rc'. e = Next_header_filter r rc' \<longrightarrow>
          discards_entity (r_headers_out (req w)) (r_headers_out r)))"
proof -
  let ?v = "polled_state E i w"
  obtain ret w2 where p: "ngx_http_coraza_poll_after_process E (Some i) False n ?v = (ret, w2)" by fastforce
  have "ret = s" using poll_denial [OF refl, of ?v E i False n] assms(2,3) p by (simp add: polled_state_sel)
  note w2 = header_verdict_poll [OF p]
  have "appends_headers (r_headers_out (req w)) (r_headers_out (req (trigger i w2)))"
    using appends_poll [of ?v E i n] p by (simp add: polled_state_sel)
  note d = prepare_redirect_discards [OF this, of s]
  have "\<not> r_error_page (req w2)" using same_request_sel(1) [OF w2(2)] assms(1) by simp
  then have eq: "header_verdict E i m n w =
      (if ngx_http_coraza_is_redirect_status s \<and> ho_location (r_headers_out (req w2)) \<noteq> None
       then run_next_header_filter E (ngx_http_coraza_prepare_redirect s (trigger i w2))
       else ngx_http_filter_finalize_request E s (trigger i w2))"
    unfolding header_verdict_eq [OF p, of m] \<open>ret = s\<close> using assms(4) by simp
  obtain pre where pre: "trace w2 = trace w @ pre" "\<forall>x \<in> set pre. \<not> forwards x"
    using w2(1) by (auto simp: adds_def holds_back_def)
  have "\<exists>e. trace w' = trace w2 @ [e] \<and> replaced_by s e \<and>
      (\<forall>r rc'. e = Next_header_filter r rc' \<longrightarrow> discards_entity (r_headers_out (req w)) (r_headers_out r))"
    "intervention_triggered (ctxs w' i)"
    using assms(5) eq d prepare_redirect_bare [of s "trigger i w2"]
    by (auto simp: run_next_header_filter_def ngx_http_filter_finalize_request_def Let_def replaced_by_def
        split: prod.splits if_splits)
  then show ?thesis using pre by auto
qed

text \<open>A denial with 403 in phase 3.\<close>

theorem header_filter_denies_witness:
  "\<exists>pre e. trace (snd (header_verdict deny_env 0 sample_conf 1 sample_response_world)) =
      trace sample_response_world @ pre @ [e] \<and> (\<forall>x \<in> set pre. \<not> forwards x) \<and> replaced_by 403 e"
proof -
  let ?w = sample_response_world
  have "\<not> r_error_page (req ?w)" "\<not> r_header_sent (req ?w)"
    "denial deny_env (coraza_transaction (ctxs ?w 0)) 1 (trace (polled_state deny_env 0 ?w)) = Some 403"
    by (simp_all add: sample_response_world_def sample_body_world_def sample_defs denial_def deny_env_def)
  from header_filter_denies [OF this zero_less_numeral prod.collapse [symmetric]] show ?thesis by blast
qed

lemma poll_pass_req:
  assumes "denial E (coraza_transaction (ctxs w i)) n (trace w) = None"
  shows "req (snd (ngx_http_coraza_poll_after_process E (Some i) False n w)) = req w"
  using assms
  by (auto simp: denial_def ngx_http_coraza_poll_after_process_def ngx_http_coraza_process_intervention_def
      coraza_intervention_def coraza_wrapper_defs cgo_def Let_def split: option.split if_splits)

text \<open>
  C23: when phase 3 lets the response go on (the headers are not sent yet and no error
  page is being served), its headers are held back exactly when the directive is on,
  the method is not HEAD, the response is not header-only, it is the main request, the
  status is not 101 and the content type is not that of an event stream; this holds
  whatever the engine answers about the processability of the body.  Headers that are
  held back leave nothing handed on and an empty chain of kept buffers, and a body the
  engine wants to see is asked for in memory; otherwise the headers are handed on
  unchanged, once, and nothing starts being held back.
\<close>

theorem header_filter_passes:
  assumes "\<not> r_error_page (req w)" and "\<not> r_header_sent (req w)"
    and "denial E (coraza_transaction (ctxs w i)) n (trace (polled_state E i w)) = None"
    and "header_verdict E i m n w = (rc, w')"
  shows "if lc_delay_response_headers m \<noteq> 0 \<and> r_method (req w) \<noteq> NGX_HTTP_HEAD \<and>
       \<not> r_header_only (req w) \<and> r_is_main (req w) \<and>
       ho_status (r_headers_out (req w)) \<noteq> 101 \<and> \<not> event_stream (req w)
    then rc = NGX_OK \<and> headers_delayed (ctxs w' i) \<and> pending_chain (ctxs w' i) = [] \<and> adds holds_back w w' \<and>
      (response_body_processable (ctxs w' i) \<longrightarrow> r_filter_need_in_memory (req w'))
    else (\<exists>pre. trace w' = trace w @ pre @ [Next_header_filter (req w) rc] \<and> (\<forall>x \<in> set pre. \<not> forwards x)) \<and>
      headers_delayed (ctxs w' i) = headers_delayed (ctxs w i)"
proof -
  let ?v = "polled_state E i w"
  obtain ret w2 where p: "ngx_http_coraza_poll_after_process E (Some i) False n ?v = (ret, w2)" by fastforce
  have "ret = 0" using poll_denial [OF refl, of ?v E i False n] assms(2,3) p by (simp add: polled_state_sel)
  note w2 = header_verdict_poll [OF p]
  have rq: "req w2 = req w" using poll_pass_req [of E ?v i n] assms(3) p by (simp add: polled_state_sel)
  have hd: "headers_delayed (ctxs w2 i) = headers_delayed (ctxs w i)"
    unfolding w2(3) by (simp add: polled_state_def coraza_wrapper_defs cgo_def Let_def)
  obtain pre where pre: "trace w2 = trace w @ pre" "\<forall>x \<in> set pre. \<not> forwards x"
    using w2(1) by (auto simp: adds_def holds_back_def)
  have d: "delays_headers m (req w) \<longleftrightarrow> lc_delay_response_headers m \<noteq> 0 \<and> r_method (req w) \<noteq> NGX_HTTP_HEAD \<and>
       \<not> r_header_only (req w) \<and> r_is_main (req w) \<and>
       ho_status (r_headers_out (req w)) \<noteq> 101 \<and> \<not> event_stream (req w)"
    using assms(1) by (simp add: delays_headers_def sse_iff_event_stream)
  show ?thesis
    using assms(1,4) pre hd w2(1) unfolding header_verdict_eq [OF p, of m] \<open>ret = 0\<close> rq d [symmetric]
    by (auto simp: run_next_header_filter_def Let_def adds_def rq split: prod.splits if_splits)
qed

text \<open>A response that is held back.\<close>

theorem header_filter_passes_witness:
  "fst (header_verdict sample_env 0 sample_conf 0 sample_response_world) = NGX_OK \<and>
   headers_delayed (ctxs (snd (header_verdict sample_env 0 sample_conf 0 sample_response_world)) 0)"
proof -
  let ?w = sample_response_world
  have h: "\<not> r_error_page (req ?w)" "\<not> r_header_sent (req ?w)"
    "denial sample_env (coraza_transaction (ctxs ?w 0)) 0 (trace (polled_state sample_env 0 ?w)) = None"
    by (simp_all add: sample_response_world_def sample_body_world_def sample_defs denial_def)
  have "\<not> event_stream (req ?w)"
    by (simp add: sse_iff_event_stream [symmetric] sample_response_world_def sample_body_world_def sample_defs
        ngx_http_coraza_is_sse_response_def ngx_string_def)
  moreover have "lc_delay_response_headers sample_conf \<noteq> 0" "r_method (req ?w) \<noteq> NGX_HTTP_HEAD"
    "\<not> r_header_only (req ?w)" "r_is_main (req ?w)" "ho_status (r_headers_out (req ?w)) \<noteq> 101"
    by (simp_all add: sample_response_world_def sample_body_world_def sample_defs)
  ultimately show ?thesis using header_filter_passes [OF h prod.collapse [symmetric], of sample_conf] by simp
qed

section \<open>Small parts\<close>

text \<open>
  C26: a response counts as an event stream exactly when its content type is the
  media type \<open>text/event-stream\<close> (in any case) followed, after optional white
  space, by nothing or a parameter list; so no other type escapes the delay of
  the headers.
\<close>

theorem is_sse_response_iff:
  "ngx_http_coraza_is_sse_response r \<longleftrightarrow>
     (\<exists>mt tl. ho_content_type (r_headers_out r) = mt @ tl \<and> sse_media_type mt \<and>
        (dropWhile is_ows tl = [] \<or> hd (dropWhile is_ows tl) = 0x3b))"
  using sse_iff_event_stream [of r] unfolding event_stream_def .

section \<open>Printed numbers\<close>

lemma dec_length: "n < 10 ^ Suc k \<Longrightarrow> length (dec n) \<le> Suc k"
proof (induction k arbitrary: n)
  case 0
  then show ?case by (simp add: dec.simps [of n])
next
  case (Suc k)
  show ?case
  proof (cases "n < 10")
    case False
    have "n div 10 < 10 ^ Suc k" using Suc.prems by (simp add: less_mult_imp_div_less)
    from Suc.IH [OF this] False show ?thesis by (simp add: dec.simps [of n])
  qed (simp add: dec.simps [of n])
qed

fun undec :: "bytes \<Rightarrow> nat \<Rightarrow> nat" where
  "undec [] acc = acc"
| "undec (d # ds) acc = undec ds (acc * 10 + (unat d - 48))"

lemma undec_append: "undec (as @ bs) acc = undec bs (undec as acc)"
  by (induction as arbitrary: acc) simp_all

lemma undec_dec: "undec (dec n) 0 = n"
proof (induction n rule: dec.induct)
  case (1 n)
  have digit: "unat (word_of_nat (48 + k) :: 8 word) - 48 = k" if "k < 10" for k
    using that by (simp add: unsigned_of_nat take_bit_nat_eq_self del: of_nat_add)
  show ?case
  proof (cases "n < 10")
    case True
    then show ?thesis using digit [of n] by (simp add: dec.simps [of n])
  next
    case False
    then show ?thesis
      using 1 digit [of "n mod 10"] by (simp add: dec.simps [of n] undec_append)
  qed
qed

abbreviation NGX_INT64_LEN :: nat where "NGX_INT64_LEN \<equiv> 20"

text \<open>
  The \<open>Content-Length\<close> the engine is shown is the decimal numeral of the
  64-bit length: reading it back gives the length, and it fits the 22-byte stack
  buffer it is printed into.
\<close>

lemma content_length_printed:
  assumes "0 \<le> ho_content_length_n (r_headers_out (req w))"
    and "ho_content_length_n (r_headers_out (req w)) < 2 ^ 63"
  shows "\<exists>v. content_length_pairs E w = [\<lparr>h_name = ngx_string ''Content-Length'', h_value = v\<rparr>] \<and>
    int (undec v 0) = ho_content_length_n (r_headers_out (req w)) \<and> length v < NGX_INT64_LEN + 2"
proof -
  let ?n = "ho_content_length_n (r_headers_out (req w))"
  have "nat ?n < 10 ^ Suc 18" using assms by (simp add: nat_less_iff)
  from dec_length [OF this] show ?thesis
    using assms(1) by (simp add: content_length_pairs_def Let_def undec_dec)
qed

section \<open>Lengths beyond a C int\<close>

text \<open>
  C27: outside the packed batch the lengths of a response header are narrowed to
  the engine's \<open>int\<close> unchecked: for a value of 2 GiB the engine is told a negative
  length.  (The request side refuses such a header, see
  \<open>each_request_header\<close>.)
\<close>

theorem response_header_length_wraps:
  assumes "resp_hdr_collect (ctxs w i) = None" and "length val = 2 ^ 31"
  shows "\<exists>n. trace (snd (ngx_http_coraza_add_response_header E (Some i) name val w)) =
    trace w @ [Eng (coraza_transaction (ctxs w i))
      (Add_response_header name (c_int (length name)) val (- (2 ^ 31))) n]"
proof -
  have "c_int (length val) = - (2 ^ 31)"
    using assms(2) by (simp add: c_int_def)
  then show ?thesis
    using assms(1)
    by (simp add: ngx_http_coraza_add_response_header_def coraza_wrapper_defs cgo_def Let_def)
qed

theorem response_header_length_wraps_witness:
  "\<exists>n. trace (snd (ngx_http_coraza_add_response_header sample_env (Some 0) [88] (replicate (2 ^ 31) 65)
      sample_response_world)) =
    trace sample_response_world @ [Eng (coraza_transaction (ctxs sample_response_world 0))
      (Add_response_header [88] (c_int (length [88 :: 8 word])) (replicate (2 ^ 31) 65) (- (2 ^ 31))) n]"
  by (rule response_header_length_wraps)
    (simp_all add: sample_response_world_def sample_body_world_def sample_defs)

end
