(* ===== verification/Body_Filter.thy ===== *)
theory Body_Filter
  imports Header_Filter
begin

text \<open>
  \<open>src/src/ngx_http_coraza_body_filter.c\<close>: the response-body filter.  It shows
  the engine every buffer of the response, evaluates phase 4 on the last one,
  and, while the response headers are held back, keeps the buffers (as copies in
  the request pool or as file ranges) until phase 4 has passed or the cap on the
  delayed body is exceeded.

  The filter writes to the buffers of the chain it is given (it marks them
  consumed), so it also returns that chain.  The two file loops are functions
  with termination proofs: each round reads at least one byte or leaves.
  Direct I/O is taken as supported (\<open>NGX_HAVE_ALIGNED_DIRECTIO\<close>).
\<close>

section \<open>Operations\<close>

abbreviation NGX_HTTP_CORAZA_RESPONSE_BODY_FILE_CHUNK_SIZE :: nat where
  "NGX_HTTP_CORAZA_RESPONSE_BODY_FILE_CHUNK_SIZE \<equiv> 65536"

definition NGX_HTTP_CORAZA_MAX_DELAYED_BODY :: nat where
  "NGX_HTTP_CORAZA_MAX_DELAYED_BODY = 1024 * 1024"

text \<open>A pure file buffer: \<open>!ngx_buf_in_memory(buf) && buf->in_file && buf->file\<close>.\<close>

definition file_backed :: "ngx_buf \<Rightarrow> bool" where
  "file_backed b \<longleftrightarrow> \<not> ngx_buf_in_memory b \<and> b_in_file b \<and> b_file b \<noteq> None"

text \<open>The length as a \<open>size_t\<close>: an inverted file range wraps around.\<close>

definition ngx_http_coraza_body_chunk_len :: "ngx_buf \<Rightarrow> nat" where
  "ngx_http_coraza_body_chunk_len b =
     (if ngx_buf_in_memory b then length (b_data b)
      else if b_in_file b \<and> b_file b \<noteq> None
      then nat ((b_file_last b - b_file_pos b) mod 2 ^ 64)
      else 0)"

text \<open>\<open>ngx_read_file\<close>: at most \<open>len\<close> bytes; \<open>None\<close> is \<open>NGX_ERROR\<close>.\<close>

definition ngx_read_file :: "env \<Rightarrow> ngx_file \<Rightarrow> nat \<Rightarrow> int \<Rightarrow> world \<Rightarrow> bytes option \<times> world" where
  "ngx_read_file E f len offset w =
     (let d = map_option (take len) (read_file E (trace w) (f_id f) len offset)
      in (d, emit (Read_file (f_id f) offset len d) w))"

function read_body_loop ::
  "env \<Rightarrow> ngx_file \<Rightarrow> nat \<Rightarrow> int \<Rightarrow> bytes \<Rightarrow> world \<Rightarrow> bytes option \<times> world" where
  "read_body_loop E f remaining offset data w =
     (if remaining > 0 then
        (let (n, w) = ngx_read_file E f remaining offset w in
         case n of
           None \<Rightarrow> (None, w)
         | Some d \<Rightarrow>
             if length d = 0 then (None, w)
             else read_body_loop E f (remaining - length d) (offset + int (length d)) (data @ d) w)
      else (Some data, w))"
  by pat_completeness auto
termination
  by (relation "measure (\<lambda>(E, f, remaining, offset, data, w). remaining)") auto

declare read_body_loop.simps [simp del]

text \<open>The data of a buffer, read from its file if need be; \<open>None\<close> is \<open>NGX_ERROR\<close>.\<close>

definition ngx_http_coraza_read_body_data :: "env \<Rightarrow> ngx_buf \<Rightarrow> world \<Rightarrow> bytes option \<times> world" where
  "ngx_http_coraza_read_body_data E b w =
     (if ngx_buf_in_memory b then (Some (b_data b), w)
      else
        (case b_file b of
           Some f \<Rightarrow>
             if b_in_file b then
               (let len = ngx_http_coraza_body_chunk_len b in
                if len = 0 then (Some [], w)
                else
                  (let (ok, w) = palloc E len w in
                   if \<not> ok then (None, w)
                   else read_body_loop E f len (b_file_pos b) [] w))
             else (Some [], w)
         | None \<Rightarrow> (Some [], w)))"

function append_response_body_loop ::
  "env \<Rightarrow> nat \<Rightarrow> ngx_file \<Rightarrow> int \<Rightarrow> int \<Rightarrow> world \<Rightarrow> int \<times> world" where
  "append_response_body_loop E i f file_last offset w =
     (if offset < file_last then
        (let len = (if file_last - offset > int NGX_HTTP_CORAZA_RESPONSE_BODY_FILE_CHUNK_SIZE
                    then NGX_HTTP_CORAZA_RESPONSE_BODY_FILE_CHUNK_SIZE
                    else nat (file_last - offset));
             (n, w) = ngx_read_file E f len offset w in
         case n of
           None \<Rightarrow> (NGX_ERROR, w)
         | Some data \<Rightarrow>
             if length data = 0 then (NGX_ERROR, w)
             else
               (let (ret, w) = coraza_append_response_body E (coraza_transaction (ctxs w i)) data
                                 (c_int (length data)) w in
                if ret \<noteq> 0 then (NGX_ERROR, w)
                else append_response_body_loop E i f file_last (offset + int (length data)) w))
      else (NGX_OK, w))"
  by pat_completeness auto
termination
  by (relation "measure (\<lambda>(E, i, f, file_last, offset, w). nat (file_last - offset))") auto

declare append_response_body_loop.simps [simp del]

definition set_directio_op :: "env \<Rightarrow> ngx_file \<Rightarrow> bool \<Rightarrow> world \<Rightarrow> bool \<times> world" where
  "set_directio_op E f on w =
     (let ok = set_directio E (trace w) (f_id f) on in (ok, emit (Directio (f_id f) on ok) w))"

definition ngx_http_coraza_append_response_body_file ::
  "env \<Rightarrow> nat \<Rightarrow> ngx_buf \<Rightarrow> ngx_file \<Rightarrow> world \<Rightarrow> int \<times> world" where
  "ngx_http_coraza_append_response_body_file E i b f w =
     (if b_file_last b < b_file_pos b then (NGX_ERROR, trigger i w)
      else if b_file_last b = b_file_pos b then (NGX_OK, w)
      else
        (let (ok, w) = palloc E NGX_HTTP_CORAZA_RESPONSE_BODY_FILE_CHUNK_SIZE w in
         if \<not> ok then (NGX_ERROR, trigger i w)
         else
           (let (rc, w) =
                (if f_directio f then
                   (let (ok, w) = set_directio_op E f False w in
                    if \<not> ok then (NGX_ERROR, w)
                    else
                      (let (rc, w) = append_response_body_loop E i f (b_file_last b) (b_file_pos b) w;
                           (_, w) = set_directio_op E f True w
                       in (rc, w)))
                 else append_response_body_loop E i f (b_file_last b) (b_file_pos b) w)
            in (rc, if rc \<noteq> NGX_OK then trigger i w else w))))"

definition consume_buf :: "ngx_buf \<Rightarrow> ngx_buf" where
  "consume_buf b = b\<lparr>b_data := [], b_file_pos := b_file_last b\<rparr>"

definition ngx_http_coraza_body_filter_consume :: "ngx_buf list \<Rightarrow> ngx_buf list" where
  "ngx_http_coraza_body_filter_consume inn = map consume_buf inn"

text \<open>
  Replacing the response.  The result of the filter is its return code and the
  chain it was given, as it leaves it.
\<close>

definition ngx_http_coraza_body_filter_finalize ::
  "env \<Rightarrow> nat \<Rightarrow> ngx_buf list \<Rightarrow> int \<Rightarrow> world \<Rightarrow> (int \<times> ngx_buf list) \<times> world" where
  "ngx_http_coraza_body_filter_finalize E i inn status w =
     (let was_delayed = headers_delayed (ctxs w i);
          w = (if was_delayed
               then upd_ctx i (\<lambda>c. c\<lparr>headers_delayed := False, pending_chain := [], pending_bytes := 0\<rparr>) w
               else w) in
      if was_delayed \<and> ngx_http_coraza_is_redirect_status status
         \<and> ho_location (r_headers_out (req w)) \<noteq> None
      then
        (let (rc, w) = ngx_http_coraza_forward_header E (ngx_http_coraza_prepare_redirect status w)
         in ((rc, ngx_http_coraza_body_filter_consume inn), w))
      else
        (let (rc, w) = ngx_http_filter_finalize_request E status w in ((rc, inn), w)))"

definition ngx_http_coraza_body_filter_internal_error ::
  "env \<Rightarrow> nat \<Rightarrow> ngx_buf list \<Rightarrow> world \<Rightarrow> (int \<times> ngx_buf list) \<times> world" where
  "ngx_http_coraza_body_filter_internal_error E i inn w =
     ngx_http_coraza_body_filter_finalize E i inn NGX_HTTP_INTERNAL_SERVER_ERROR (trigger i w)"

text \<open>Handing the whole chain to the next filter.\<close>

definition body_next :: "env \<Rightarrow> ngx_buf list \<Rightarrow> world \<Rightarrow> (int \<times> ngx_buf list) \<times> world" where
  "body_next E inn w = (let (rc, w) = run_next_body_filter E inn w in ((rc, inn), w))"

text \<open>An early \<open>return\<close> of the filter, or \<open>None\<close> to go on.\<close>

definition returning :: "'a \<times> world \<Rightarrow> 'a option \<times> world" where
  "returning res = (let (x, w) = res in (Some x, w))"

definition body_poll_verdict ::
  "env \<Rightarrow> nat \<Rightarrow> ngx_buf list \<Rightarrow> int \<Rightarrow> world \<Rightarrow> (int \<times> ngx_buf list) option \<times> world" where
  "body_poll_verdict E i inn ret w =
     (if r_error_page (req w) then returning (body_next E inn w)
      else if ret > 0 then
        returning (ngx_http_coraza_body_filter_finalize E i inn ret (trigger i w))
      else if ret < 0 then
        returning (ngx_http_coraza_body_filter_finalize E i inn NGX_HTTP_INTERNAL_SERVER_ERROR (trigger i w))
      else (None, w))"

text \<open>Showing one buffer to the engine.\<close>

definition inspect_memory ::
  "env \<Rightarrow> nat \<Rightarrow> ngx_buf list \<Rightarrow> ngx_buf \<Rightarrow> world \<Rightarrow> (int \<times> ngx_buf list) option \<times> world" where
  "inspect_memory E i inn b w =
     (if ngx_http_coraza_body_chunk_len b > INT_MAX then
        returning (ngx_http_coraza_body_filter_finalize E i inn NGX_HTTP_INTERNAL_SERVER_ERROR (trigger i w))
      else
        (let (data, w) = ngx_http_coraza_read_body_data E b w in
         case data of
           None \<Rightarrow> returning (ngx_http_coraza_body_filter_finalize E i inn
                     NGX_HTTP_INTERNAL_SERVER_ERROR (trigger i w))
         | Some data \<Rightarrow>
             if length data > 0 then
               (let (ret, w) = coraza_append_response_body E (coraza_transaction (ctxs w i)) data
                                 (c_int (length data)) w in
                if ret \<noteq> 0 then
                  returning (ngx_http_coraza_body_filter_finalize E i inn
                    NGX_HTTP_INTERNAL_SERVER_ERROR (trigger i w))
                else (None, w))
             else (None, w)))"

definition inspect_file ::
  "env \<Rightarrow> nat \<Rightarrow> ngx_buf list \<Rightarrow> ngx_buf \<Rightarrow> ngx_file \<Rightarrow> world \<Rightarrow> (int \<times> ngx_buf list) option \<times> world" where
  "inspect_file E i inn b f w =
     (let (rc, w) = ngx_http_coraza_append_response_body_file E i b f w in
      if rc \<noteq> NGX_OK then
        returning (ngx_http_coraza_body_filter_finalize E i inn NGX_HTTP_INTERNAL_SERVER_ERROR w)
      else (None, w))"

definition inspect_data ::
  "env \<Rightarrow> nat \<Rightarrow> ngx_buf list \<Rightarrow> ngx_buf \<Rightarrow> world \<Rightarrow> (int \<times> ngx_buf list) option \<times> world" where
  "inspect_data E i inn b w =
     (case b_file b of
        Some f \<Rightarrow>
          if \<not> ngx_buf_in_memory b \<and> b_in_file b then inspect_file E i inn b f w
          else inspect_memory E i inn b w
      | None \<Rightarrow> inspect_memory E i inn b w)"

definition inspect_buf ::
  "env \<Rightarrow> nat \<Rightarrow> ngx_buf list \<Rightarrow> ngx_buf \<Rightarrow> world \<Rightarrow> (int \<times> ngx_buf list) option \<times> world" where
  "inspect_buf E i inn b w =
     (if response_body_processable (ctxs w i) then
        (let (early, w) = inspect_data E i inn b w in
         case early of
           Some res \<Rightarrow> (Some res, w)
         | None \<Rightarrow>
             (let (ret, w) = ngx_http_coraza_process_intervention E (Some i) False w
              in body_poll_verdict E i inn ret w))
      else (None, w))"

text \<open>Phase 4, on the last buffer.\<close>

definition body_phase4 ::
  "env \<Rightarrow> nat \<Rightarrow> ngx_buf list \<Rightarrow> world \<Rightarrow> (int \<times> ngx_buf list) option \<times> world" where
  "body_phase4 E i inn w =
     (let (pret, w) = coraza_process_response_body E (coraza_transaction (ctxs w i)) w in
      if ngx_http_coraza_process_body_failed pret then
        returning (ngx_http_coraza_body_filter_finalize E i inn NGX_HTTP_INTERNAL_SERVER_ERROR (trigger i w))
      else
        (let (ret, w) = ngx_http_coraza_poll_after_process E (Some i) False pret w
         in body_poll_verdict E i inn ret w))"

text \<open>The copy of an intermediate buffer that is kept, or the early return.\<close>

abbreviation SIZEOF_BUF :: nat where "SIZEOF_BUF \<equiv> 80"
abbreviation SIZEOF_CHAIN :: nat where "SIZEOF_CHAIN \<equiv> 16"

definition add_pending_bytes :: "nat \<Rightarrow> nat \<Rightarrow> world \<Rightarrow> world" where
  "add_pending_bytes i n w = upd_ctx i (\<lambda>c. c\<lparr>pending_bytes := (pending_bytes c + n) mod 2 ^ 64\<rparr>) w"

definition failing :: "'a \<times> world \<Rightarrow> ('a + 'b) \<times> world" where
  "failing res = (let (x, w) = res in (Inl x, w))"

definition clone_file_buf ::
  "env \<Rightarrow> nat \<Rightarrow> ngx_buf list \<Rightarrow> ngx_buf \<Rightarrow> world \<Rightarrow> ((int \<times> ngx_buf list) + ngx_buf) \<times> world" where
  "clone_file_buf E i inn b w =
     (let (ok, w) = palloc E SIZEOF_BUF w in
      if \<not> ok then failing (ngx_http_coraza_body_filter_internal_error E i inn w)
      else (Inr (b\<lparr>b_last_buf := False\<rparr>),
            add_pending_bytes i (nat ((b_file_last b - b_file_pos b) mod 2 ^ 64)) w))"

definition pool_copy :: "ngx_buf \<Rightarrow> bytes \<Rightarrow> ngx_buf" where
  "pool_copy b data =
     (let c = (if length data > 0
               then empty_buf\<lparr>b_data := data, b_owner := Request_Pool, b_memory := True\<rparr>
               else empty_buf)
      in c\<lparr>b_last_buf := False, b_last_in_chain := b_last_in_chain b, b_flush := b_flush b\<rparr>)"

definition copy_buf ::
  "env \<Rightarrow> nat \<Rightarrow> ngx_buf list \<Rightarrow> ngx_buf \<Rightarrow> world \<Rightarrow> ((int \<times> ngx_buf list) + ngx_buf) \<times> world" where
  "copy_buf E i inn b w =
     (let (data, w) = ngx_http_coraza_read_body_data E b w in
      case data of
        None \<Rightarrow> failing (ngx_http_coraza_body_filter_internal_error E i inn w)
      | Some data \<Rightarrow>
          (let (ok, w) = palloc E SIZEOF_BUF w in
           if \<not> ok then failing (ngx_http_coraza_body_filter_internal_error E i inn w)
           else
             (let (ok, w) = (if length data > 0 then palloc E (length data) w else (True, w)) in
              if \<not> ok then failing (ngx_http_coraza_body_filter_internal_error E i inn w)
              else (Inr (pool_copy b data), add_pending_bytes i (length data) w))))"

definition keep_buf ::
  "env \<Rightarrow> nat \<Rightarrow> ngx_buf list \<Rightarrow> ngx_buf \<Rightarrow> world \<Rightarrow> ((int \<times> ngx_buf list) + ngx_buf) \<times> world" where
  "keep_buf E i inn b w =
     (if file_backed b \<and> \<not> b_temp_file b then clone_file_buf E i inn b w
      else copy_buf E i inn b w)"

definition mark_consumed :: "ngx_buf \<Rightarrow> ngx_buf" where
  "mark_consumed b =
     (if ngx_buf_in_memory b then b\<lparr>b_data := []\<rparr>
      else if b_in_file b then b\<lparr>b_file_pos := b_file_last b\<rparr> else b)"

definition push_pending :: "nat \<Rightarrow> ngx_buf \<Rightarrow> world \<Rightarrow> world" where
  "push_pending i b w = upd_ctx i (\<lambda>c. c\<lparr>pending_chain := pending_chain c @ [b]\<rparr>) w"

text \<open>Holding back one buffer; the result is the original as it is left.\<close>

definition delay_buf ::
  "env \<Rightarrow> nat \<Rightarrow> ngx_buf list \<Rightarrow> ngx_buf \<Rightarrow> world \<Rightarrow> ((int \<times> ngx_buf list) + ngx_buf) \<times> world" where
  "delay_buf E i inn b w =
     (let (ok, w) = palloc E SIZEOF_CHAIN w in
      if \<not> ok then failing (ngx_http_coraza_body_filter_internal_error E i inn w)
      else if b_last_buf b then (Inr b, push_pending i b w)
      else
        (let (res, w) = keep_buf E i inn b w in
         case res of
           Inl x \<Rightarrow> (Inl x, w)
         | Inr k \<Rightarrow> (Inr (mark_consumed b), push_pending i k w)))"

text \<open>
  The loop over the chain: \<open>don\<close> are the buffers already treated, as they are
  left; \<open>proc\<close> is \<open>is_request_processed\<close>.
\<close>

fun body_loop ::
  "env \<Rightarrow> nat \<Rightarrow> ngx_buf list \<Rightarrow> bool \<Rightarrow> ngx_buf list \<Rightarrow> world \<Rightarrow>
     ((int \<times> ngx_buf list) + (ngx_buf list \<times> bool)) \<times> world" where
  "body_loop E i don proc [] w = (Inr (don, proc), w)"
| "body_loop E i don proc (b # chain) w =
     (let inn = don @ b # chain;
          is_last = b_last_buf b;
          proc = (proc \<or> is_last);
          (early, w) = inspect_buf E i inn b w in
      case early of
        Some res \<Rightarrow> (Inl res, w)
      | None \<Rightarrow>
          (let (early, w) = (if is_last then body_phase4 E i inn w else (None, w)) in
           case early of
             Some res \<Rightarrow> (Inl res, w)
           | None \<Rightarrow>
               if headers_delayed (ctxs w i) then
                 (let (res, w) = delay_buf E i inn b w in
                  case res of
                    Inl x \<Rightarrow> (Inl x, w)
                  | Inr b' \<Rightarrow> body_loop E i (don @ [b']) proc chain w)
               else body_loop E i (don @ [b]) proc chain w))"

text \<open>Forwarding the held-back headers, then everything kept so far.\<close>

definition body_flush :: "env \<Rightarrow> nat \<Rightarrow> ngx_buf list \<Rightarrow> world \<Rightarrow> (int \<times> ngx_buf list) \<times> world" where
  "body_flush E i inn w =
     (let w = upd_ctx i (\<lambda>c. c\<lparr>headers_delayed := False\<rparr>) w;
          (rc, w) = ngx_http_coraza_forward_header E w in
      if rc = NGX_ERROR then ((NGX_ERROR, inn), w)
      else
        (let out = pending_chain (ctxs w i);
             w = upd_ctx i (\<lambda>c. c\<lparr>pending_chain := []\<rparr>) w;
             (rc, w) = run_next_body_filter E out w
         in ((rc, inn), w)))"

definition body_finish :: "env \<Rightarrow> nat \<Rightarrow> ngx_buf list \<Rightarrow> bool \<Rightarrow> world \<Rightarrow> (int \<times> ngx_buf list) \<times> world" where
  "body_finish E i inn proc w =
     (if headers_delayed (ctxs w i) then
        if proc then body_flush E i inn w
        else if pending_bytes (ctxs w i) > NGX_HTTP_CORAZA_MAX_DELAYED_BODY then body_flush E i inn w
        else ((NGX_OK, inn), w)
      else body_next E inn w)"

definition ngx_http_coraza_body_filter ::
  "env \<Rightarrow> ngx_buf list \<Rightarrow> world \<Rightarrow> (int \<times> ngx_buf list) \<times> world" where
  "ngx_http_coraza_body_filter E inn w =
     (if inn = [] then body_next E inn w
      else
        (case module_ctx w of
           None \<Rightarrow> body_next E inn w
         | Some i \<Rightarrow>
             if intervention_triggered (ctxs w i) then
               (if r_header_only (req w)
                then ((NGX_OK, ngx_http_coraza_body_filter_consume inn), w)
                else body_next E inn w)
             else
               (let (res, w) = body_loop E i [] False inn w in
                case res of
                  Inl x \<Rightarrow> (x, w)
                | Inr (inn, proc) \<Rightarrow> body_finish E i inn proc w)))"

section \<open>The filter acts by primitive effects\<close>

lemma runs_body_flags:
  assumes "runs E en i t w w'"
  shows "runs E en i t w (upd_ctx i (\<lambda>c. c\<lparr>headers_delayed := False, pending_chain := [], pending_bytes := 0\<rparr>) w')"
    "runs E en i t w (upd_ctx i (\<lambda>c. c\<lparr>headers_delayed := False\<rparr>) w')"
    "runs E en i t w (upd_ctx i (\<lambda>c. c\<lparr>pending_chain := []\<rparr>) w')"
    "runs E en i t w (add_pending_bytes i n w')"
    "runs E en i t w (push_pending i b w')"
  unfolding add_pending_bytes_def push_pending_def
  by (rule runs_upd_ctx [OF assms], simp add: keeps_def)+

lemma runs_returning: "runs E en i t w (snd m) \<Longrightarrow> runs E en i t w (snd (returning m))"
  "runs E en i t w (snd m) \<Longrightarrow> runs E en i t w (snd (failing m))"
  by (cases m, simp add: returning_def failing_def)+

lemma runs_sum:
  "(\<And>y. x = Inl y \<Longrightarrow> runs E en i t w (snd (f y))) \<Longrightarrow> (\<And>y. x = Inr y \<Longrightarrow> runs E en i t w (snd (g y))) \<Longrightarrow>
   runs E en i t w (snd (case x of Inl y \<Rightarrow> f y | Inr y \<Rightarrow> g y))"
  by (cases x) simp_all

lemma runs_wrappers_body:
  "runs E en i t w (snd (coraza_append_response_body E (coraza_transaction (ctxs w i)) d l w))"
  "runs E en i t w (snd (coraza_process_response_body E (coraza_transaction (ctxs w i)) w))"
  by (rule runs_current, simp add: coraza_wrapper_defs runs_cgo plain_def)+

lemma runs_read_file: "runs E en i t w (snd (ngx_read_file E f len offset w))"
  by (simp add: ngx_read_file_def Let_def runs_emit)

lemma runs_set_directio: "runs E en i t w (snd (set_directio_op E f on w))"
  by (simp add: set_directio_op_def Let_def runs_emit)

lemma runs_read_body_loop: "runs E en i t w (snd (read_body_loop E f remaining offset data w))"
proof (induction remaining arbitrary: offset data w rule: less_induct)
  case (less remaining)
  have IH: "runs E en i t w' (snd (read_body_loop E f (remaining - length d) off data' w'))"
    if "0 < remaining" "length d \<noteq> 0" for w' off data' and d :: bytes
    using that by (intro less) auto
  show ?case
    by (subst read_body_loop.simps)
      (rule runs_structure runs_read_file runs_refl IH | assumption)+
qed

lemma runs_read_body_data: "runs E en i t w (snd (ngx_http_coraza_read_body_data E b w))"
  unfolding ngx_http_coraza_read_body_data_def
  by (rule runs_structure runs_palloc runs_read_body_loop runs_refl)+

lemma runs_append_response_body_loop:
  "runs E en i t w (snd (append_response_body_loop E i f fl offset w))"
proof (induction "nat (fl - offset)" arbitrary: offset w rule: less_induct)
  case less
  have IH: "runs E en i t w' (snd (append_response_body_loop E i f fl (offset + int (length d)) w'))"
    if "offset < fl" "length d \<noteq> 0" for w' and d :: bytes
    using that by (intro less) auto
  show ?case
    by (subst append_response_body_loop.simps)
      (rule runs_structure runs_wrappers_body runs_read_file runs_refl IH | assumption)+
qed

lemma runs_append_response_body_file:
  "runs E en i t w (snd (ngx_http_coraza_append_response_body_file E i b f w))"
  unfolding ngx_http_coraza_append_response_body_file_def
  by (rule runs_structure runs_palloc runs_append_response_body_loop runs_set_directio runs_trigger runs_refl)+

lemma runs_forward_redirect:
  "runs E en i t w (snd (ngx_http_coraza_forward_header E (ngx_http_coraza_prepare_redirect s w)))"
  unfolding ngx_http_coraza_forward_header_def by (rule runs_redirect)

lemma runs_forward_header: "runs E en i t w (snd (ngx_http_coraza_forward_header E w))"
  unfolding ngx_http_coraza_forward_header_def by (rule runs_next_header_filter)

lemma runs_body_finalize: "runs E en i t w (snd (ngx_http_coraza_body_filter_finalize E i inn s w))"
  unfolding ngx_http_coraza_body_filter_finalize_def
  by (rule runs_structure runs_body_flags runs_forward_redirect runs_finalize runs_refl)+

lemma runs_body_finalize_trigger:
  "runs E en i t w (snd (ngx_http_coraza_body_filter_finalize E i inn s (trigger i w)))"
  by (rule runs_trans [OF runs_trigger [OF runs_refl] runs_body_finalize])

lemma runs_body_internal_error:
  "runs E en i t w (snd (ngx_http_coraza_body_filter_internal_error E i inn w))"
  unfolding ngx_http_coraza_body_filter_internal_error_def by (rule runs_body_finalize_trigger)

lemma runs_body_next: "runs E en i t w (snd (body_next E inn w))"
  unfolding body_next_def by (rule runs_structure runs_next_body_filter runs_refl)+

lemmas runs_body_exits = runs_body_finalize_trigger runs_body_finalize runs_body_internal_error
  runs_body_next runs_returning

lemma runs_body_poll_verdict: "runs E en i t w (snd (body_poll_verdict E i inn ret w))"
  unfolding body_poll_verdict_def by (rule runs_structure runs_body_exits runs_refl)+

lemma runs_inspect_memory: "runs E en i t w (snd (inspect_memory E i inn b w))"
  unfolding inspect_memory_def
  by (rule runs_structure runs_read_body_data runs_wrappers_body runs_body_exits runs_refl)+

lemma runs_inspect_file: "runs E en i t w (snd (inspect_file E i inn b f w))"
  unfolding inspect_file_def
  by (rule runs_structure runs_append_response_body_file runs_body_exits runs_refl)+

lemma runs_inspect_data: "runs E en i t w (snd (inspect_data E i inn b w))"
  unfolding inspect_data_def by (rule runs_structure runs_inspect_file runs_inspect_memory)+

lemma runs_inspect_buf: "runs E en i t w (snd (inspect_buf E i inn b w))"
  unfolding inspect_buf_def
  by (rule runs_structure runs_inspect_data runs_polls runs_body_poll_verdict runs_refl)+

lemma runs_body_phase4: "runs E en i t w (snd (body_phase4 E i inn w))"
  unfolding body_phase4_def
  by (rule runs_structure runs_wrappers_body runs_polls runs_body_poll_verdict runs_body_exits runs_refl)+

lemma runs_keep_buf: "runs E en i t w (snd (keep_buf E i inn b w))"
  unfolding keep_buf_def clone_file_buf_def copy_buf_def
  by (rule runs_structure runs_palloc runs_read_body_data runs_body_flags runs_body_exits runs_refl)+

lemma runs_delay_buf: "runs E en i t w (snd (delay_buf E i inn b w))"
  unfolding delay_buf_def
  by (rule runs_structure runs_sum runs_palloc runs_keep_buf runs_body_flags runs_body_exits runs_refl)+

lemma runs_body_loop: "runs E en i t w (snd (body_loop E i don proc chain w))"
proof (induction chain arbitrary: don proc w)
  case (Cons b chain)
  show ?case
    unfolding body_loop.simps
    by (rule runs_structure runs_sum runs_inspect_buf runs_body_phase4 runs_delay_buf Cons.IH runs_refl)+
qed simp

lemma runs_body_flush: "runs E en i t w (snd (body_flush E i inn w))"
  unfolding body_flush_def
  by (rule runs_structure runs_forward_header runs_next_body_filter runs_body_flags runs_refl)+

lemma runs_body_finish: "runs E en i t w (snd (body_finish E i inn proc w))"
  unfolding body_finish_def by (rule runs_structure runs_body_flush runs_body_next runs_refl)+

lemma prims_body_next: "prims E w (snd (body_next E inn w))"
  using prims_next_filters(2) [of E w inn] by (auto simp: body_next_def Let_def split: prod.split)

text \<open>The filter, on any chain, is a handler.\<close>

interpretation body_filter: handler "\<lambda>E w. (fst (fst (ngx_http_coraza_body_filter E inn w)),
    snd (ngx_http_coraza_body_filter E inn w))" for inn
proof (rule handler_of_runs)
  show "module_ctx w = None \<Longrightarrow>
      snd (fst (fst (ngx_http_coraza_body_filter E inn w)), snd (ngx_http_coraza_body_filter E inn w)) = w \<or>
      prims E w (snd (fst (fst (ngx_http_coraza_body_filter E inn w)), snd (ngx_http_coraza_body_filter E inn w)))"
    for E w
    by (simp add: ngx_http_coraza_body_filter_def prims_body_next)
next
  fix E :: env and w :: world and i
  assume m: "module_ctx w = Some i"
  have "runs E False i (coraza_transaction (ctxs w i)) w (snd (ngx_http_coraza_body_filter E inn w))"
    unfolding ngx_http_coraza_body_filter_def m option.case
    by (rule runs_structure runs_sum runs_case_pair runs_body_next runs_body_loop runs_body_finish runs_refl)+
  then show "runs E False i (coraza_transaction (ctxs w i)) w
      (snd (fst (fst (ngx_http_coraza_body_filter E inn w)), snd (ngx_http_coraza_body_filter E inn w)))"
    by simp
qed

section \<open>Which response bytes the engine has seen\<close>

definition response_chunk :: "tx \<Rightarrow> event \<Rightarrow> bytes" where
  "response_chunk t e =
     (case e of
        Eng t' (Append_response_body d l) n \<Rightarrow> if t' = t \<and> n = 0 then take (nat l) d else []
      | _ \<Rightarrow> [])"

definition response_body_seen :: "tx \<Rightarrow> event list \<Rightarrow> bytes" where
  "response_body_seen t es = concat (map (response_chunk t) es)"

text \<open>Refusals: the engine did not take a chunk, or could not evaluate phase 4.\<close>

fun response_refused :: "event \<Rightarrow> bool" where
  "response_refused (Eng _ (Append_response_body _ _) n) = (n \<noteq> 0)"
| "response_refused (Eng _ Process_response_body n) = (n < 0)"
| "response_refused _ = False"

text \<open>Events of a stretch that hands nothing on, is refused nothing and does not end the body.\<close>

fun body_quiet :: "event \<Rightarrow> bool" where
  "body_quiet (Next_header_filter _ _) = False"
| "body_quiet (Next_body_filter _ _) = False"
| "body_quiet (Filter_finalize _ _) = False"
| "body_quiet (Eng _ Process_response_body _) = False"
| "body_quiet (Eng _ (Append_response_body _ _) n) = (n = 0)"
| "body_quiet _ = True"

lemma response_body_seen_simps [simp]:
  "response_body_seen t [] = []"
  "response_body_seen t (es @ es') = response_body_seen t es @ response_body_seen t es'"
  "response_body_seen t (e # es) = response_chunk t e @ response_body_seen t es"
  by (simp_all add: response_body_seen_def)

lemma response_chunk_simps [simp]:
  "response_chunk t (Eng t (Append_response_body d l) 0) = take (nat l) d"
  "response_chunk t (Alloc z ok) = []" "response_chunk t (Read_file f p z rd) = []"
  "response_chunk t (Directio f on ok) = []" "response_chunk t (Eng t Process_response_body n) = []"
  by (simp_all add: response_chunk_def)

lemma verdict_body_quiet: "verdict_event e \<Longrightarrow> body_quiet e \<and> response_chunk t e = []"
  by (cases e rule: verdict_event.cases) (simp_all add: response_chunk_def)

lemma body_quiet_holds_back: "body_quiet e \<Longrightarrow> holds_back e" "body_quiet e \<Longrightarrow> \<not> response_refused e"
  by (cases e rule: body_quiet.cases; simp add: holds_back_def)+

text \<open>
  The content of a buffer, given the contents of the files: \<open>file_contents E F\<close>
  says that a read gives a prefix of what the file holds from the offset on, and
  \<open>good_buf F\<close> that a file buffer describes a range inside its file.
\<close>

definition file_range :: "(nat \<Rightarrow> bytes) \<Rightarrow> ngx_file \<Rightarrow> int \<Rightarrow> int \<Rightarrow> bytes" where
  "file_range F f pos lst = take (nat (lst - pos)) (drop (nat pos) (F (f_id f)))"

definition buf_content :: "(nat \<Rightarrow> bytes) \<Rightarrow> ngx_buf \<Rightarrow> bytes" where
  "buf_content F b =
     (if ngx_buf_in_memory b then b_data b
      else if b_in_file b then
        (case b_file b of None \<Rightarrow> [] | Some f \<Rightarrow> file_range F f (b_file_pos b) (b_file_last b))
      else [])"

definition chain_content :: "(nat \<Rightarrow> bytes) \<Rightarrow> ngx_buf list \<Rightarrow> bytes" where
  "chain_content F bs = concat (map (buf_content F) bs)"

definition good_buf :: "(nat \<Rightarrow> bytes) \<Rightarrow> ngx_buf \<Rightarrow> bool" where
  "good_buf F b \<longleftrightarrow>
     (case b_file b of
        None \<Rightarrow> True
      | Some f \<Rightarrow> 0 \<le> b_file_pos b \<and> b_file_pos b \<le> b_file_last b \<and>
          b_file_last b \<le> int (length (F (f_id f))) \<and> b_file_last b < 2 ^ 63)"

definition file_contents :: "env \<Rightarrow> (nat \<Rightarrow> bytes) \<Rightarrow> bool" where
  "file_contents E F \<longleftrightarrow>
     (\<forall>tr f len off d. 0 \<le> off \<longrightarrow> read_file E tr f len off = Some d
        \<longrightarrow> (\<exists>k. d = take k (drop (nat off) (F f))))"

lemma file_range_split:
  assumes "0 \<le> pos" "d = take k (drop (nat pos) (F (f_id f)))" "int (length d) \<le> lst - pos"
  shows "file_range F f pos lst = d @ file_range F f (pos + int (length d)) lst"
proof -
  let ?xs = "drop (nat pos) (F (f_id f))" and ?n = "nat (lst - pos)"
  have n: "?n = length d + nat (lst - (pos + int (length d)))" using assms(3) by linarith
  have dk: "take (length d) ?xs = d" using assms(2) by (metis append_eq_conv_conj append_take_drop_id)
  have "drop (nat (pos + int (length d))) (F (f_id f)) = drop (length d) ?xs"
    using assms(1) by (simp add: nat_add_distrib add.commute)
  then show ?thesis
    unfolding file_range_def n take_add dk by simp
qed

lemma file_range_length:
  "good_buf F b \<Longrightarrow> b_file b = Some f \<Longrightarrow>
   int (length (file_range F f (b_file_pos b) (b_file_last b))) = b_file_last b - b_file_pos b"
  by (auto simp: good_buf_def file_range_def)

text \<open>A stretch that goes on: the engine has been shown \<open>bs\<close>, nothing else happened.\<close>

definition shows_response :: "tx \<Rightarrow> bytes \<Rightarrow> world \<Rightarrow> world \<Rightarrow> bool" where
  "shows_response t bs w w' \<longleftrightarrow> same_request w w' \<and> ctxs w' = ctxs w \<and> adds body_quiet w w' \<and>
     (\<exists>new. trace w' = trace w @ new \<and> response_body_seen t new = bs)"

lemma shows_response_refl: "shows_response t [] w w"
  by (simp add: shows_response_def same_request_refl adds_refl)

lemma shows_response_trans:
  assumes "shows_response t a w w'" "shows_response t b w' w''"
  shows "shows_response t (a @ b) w w''"
  using assms same_request_trans adds_trans by (fastforce simp: shows_response_def)

lemma shows_response_emit: "body_quiet e \<Longrightarrow> shows_response t (response_chunk t e) w (emit e w)"
  by (auto simp: shows_response_def same_request_refl adds_def)

lemma verdict_trace_response:
  "\<forall>e \<in> set es. verdict_event e \<Longrightarrow> response_body_seen t es = [] \<and> (\<forall>e \<in> set es. body_quiet e)"
  by (induction es) (auto simp: verdict_body_quiet)

lemma shows_response_verdict:
  assumes "adds verdict_event w w'" "same_request w w'" "ctxs w' = ctxs w"
  shows "shows_response t [] w w'"
  using assms verdict_trace_response by (fastforce simp: shows_response_def adds_def)

lemma shows_response_process_intervention:
  "ngx_http_coraza_process_intervention E c False w = (ret, w') \<Longrightarrow> shows_response t [] w w'"
  using adds_process_intervention [of w E c False] same_request_process_intervention [of w E c False]
    process_intervention_ctxs_quiet [of E c w] by (simp add: shows_response_verdict)

lemma shows_response_poll:
  "ngx_http_coraza_poll_after_process E c False pret w = (ret, w') \<Longrightarrow> shows_response t [] w w'"
  using adds_poll [of w E c False pret] same_request_poll [of w E c False pret]
    poll_ctxs_quiet [of E c pret w] by (simp add: shows_response_verdict)

lemma shows_response_palloc: "palloc E n w = (ok, w') \<Longrightarrow> shows_response t [] w w'"
  using shows_response_emit [of "Alloc n ok" t w] by (auto simp: palloc_def Let_def)

lemma shows_response_directio: "set_directio_op E f on w = (ok, w') \<Longrightarrow> shows_response t [] w w'"
  using shows_response_emit [of "Directio (f_id f) on ok" t w] by (auto simp: set_directio_op_def Let_def)

lemma append_response_body_shows:
  assumes "coraza_append_response_body E t d (c_int (length d)) w = (0, w')" "length d \<le> INT_MAX"
  shows "shows_response t d w w'"
  using assms shows_response_emit [of "Eng t (Append_response_body d (c_int (length d))) 0" t w]
  by (auto simp: coraza_wrapper_defs cgo_def Let_def)

lemma read_file_shows:
  assumes "ngx_read_file E f len off w = (Some d, w')" "file_contents E F" "0 \<le> off"
  shows "shows_response t [] w w' \<and> (\<exists>k. d = take k (drop (nat off) (F (f_id f)))) \<and> length d \<le> len"
  using assms shows_response_emit [of "Read_file (f_id f) off len (Some d)" t w]
  by (auto simp: ngx_read_file_def file_contents_def Let_def min_def dest!: spec)

lemma shows_response_tx:
  "shows_response t bs w w' \<Longrightarrow> coraza_transaction (ctxs w i) = t \<Longrightarrow> coraza_transaction (ctxs w' i) = t"
  by (simp add: shows_response_def)

lemma append_response_body_loop_round:
  assumes "append_response_body_loop E i f lst off w = (NGX_OK, w')" and "off < lst"
  obtains d w1 w2 where "ngx_read_file E f (next_size (lst - off)) off w = (Some d, w1)" and "d \<noteq> []"
    and "coraza_append_response_body E (coraza_transaction (ctxs w1 i)) d (c_int (length d)) w1 = (0, w2)"
    and "append_response_body_loop E i f lst (off + int (length d)) w2 = (NGX_OK, w')"
proof -
  obtain n w1 where rd: "ngx_read_file E f (next_size (lst - off)) off w = (n, w1)" by fastforce
  note unf = assms(1) [unfolded append_response_body_loop.simps [of E i f lst off w]]
  obtain d where n: "n = Some d" "d \<noteq> []"
    using unf assms(2) rd by (cases n) (auto split: if_splits)
  obtain ret w2 where ap: "coraza_append_response_body E (coraza_transaction (ctxs w1 i)) d
      (c_int (length d)) w1 = (ret, w2)" by fastforce
  show thesis
  proof (rule that [OF rd [unfolded n] n(2)])
    show "coraza_append_response_body E (coraza_transaction (ctxs w1 i)) d (c_int (length d)) w1 = (0, w2)"
      "append_response_body_loop E i f lst (off + int (length d)) w2 = (NGX_OK, w')"
      using unf assms(2) rd n ap by (simp_all split: if_splits)
  qed
qed

lemma append_response_body_loop_OK:
  assumes "append_response_body_loop E i f lst off w = (NGX_OK, w')"
    and "file_contents E F" "0 \<le> off" "coraza_transaction (ctxs w i) = t"
  shows "shows_response t (file_range F f off lst) w w'"
  using assms(1,3,4)
proof (induction "nat (lst - off)" arbitrary: off w rule: less_induct)
  case less
  show ?case
  proof (cases "off < lst")
    case False
    then show ?thesis using less.prems
      by (simp add: append_response_body_loop.simps shows_response_refl file_range_def)
  next
    case True
    from append_response_body_loop_round [OF less.prems(1) this] obtain d w1 w2 where
      rd: "ngx_read_file E f (next_size (lst - off)) off w = (Some d, w1)" and ne: "d \<noteq> []"
      and ap: "coraza_append_response_body E (coraza_transaction (ctxs w1 i)) d (c_int (length d)) w1 = (0, w2)"
      and rec: "append_response_body_loop E i f lst (off + int (length d)) w2 = (NGX_OK, w')" .
    from read_file_shows [OF rd assms(2) less.prems(2), of t] obtain k where
      s1: "shows_response t [] w w1" and d: "d = take k (drop (nat off) (F (f_id f)))"
      and le: "length d \<le> next_size (lst - off)" by blast
    have "length d \<le> INT_MAX" "int (length d) \<le> lst - off" using le True by (simp_all split: if_splits)
    note s2 = append_response_body_shows [OF ap [unfolded shows_response_tx [OF s1 less.prems(3)]] this(1)]
    have t2: "coraza_transaction (ctxs w2 i) = t" using shows_response_tx s1 s2 less.prems(3) by blast
    have dec: "nat (lst - (off + int (length d))) < nat (lst - off)" using True ne by simp
    have "0 \<le> off + int (length d)" using less.prems(2) by simp
    from shows_response_trans [OF s1 shows_response_trans [OF s2 less.hyps [OF dec rec this t2]]]
    show ?thesis
      unfolding file_range_split [of off d k F f lst, OF less.prems(2) d \<open>int (length d) \<le> lst - off\<close>] by simp
  qed
qed

lemma append_response_body_file_OK:
  assumes "ngx_http_coraza_append_response_body_file E i b f w = (NGX_OK, w')"
    and "file_contents E F" "0 \<le> b_file_pos b" "coraza_transaction (ctxs w i) = t"
  shows "shows_response t (file_range F f (b_file_pos b) (b_file_last b)) w w'"
proof (cases "b_file_last b = b_file_pos b")
  case True
  then show ?thesis using assms(1)
    by (simp add: ngx_http_coraza_append_response_body_file_def shows_response_refl file_range_def)
next
  case False
  obtain ok w1 where a: "palloc E NGX_HTTP_CORAZA_RESPONSE_BODY_FILE_CHUNK_SIZE w = (ok, w1)" by fastforce
  note s1 = shows_response_palloc [OF a, of t]
  obtain ok2 w2 where d1: "set_directio_op E f False w1 = (ok2, w2)" by fastforce
  note s2 = shows_response_directio [OF d1, of t]
  let ?loop = "append_response_body_loop E i f (b_file_last b) (b_file_pos b)"
  obtain rc3 w3 where l: "?loop w2 = (rc3, w3)" by fastforce
  obtain ok4 w4 where d2: "set_directio_op E f True w3 = (ok4, w4)" by fastforce
  note s4 = shows_response_directio [OF d2, of t]
  have t1: "coraza_transaction (ctxs w1 i) = t" "coraza_transaction (ctxs w2 i) = t"
    using shows_response_tx s1 s2 assms(4) by blast+
  note loop = append_response_body_loop_OK [OF _ assms(2,3)]
  show ?thesis
  proof (cases "f_directio f")
    case True
    have rc: "rc3 = NGX_OK" "w' = w4"
      using assms(1) False a d1 l d2 True
      by (auto simp: ngx_http_coraza_append_response_body_file_def split: if_splits)
    from shows_response_trans [OF s1 shows_response_trans [OF s2
          shows_response_trans [OF loop [OF l [unfolded rc(1)] t1(2)] s4]]]
    show ?thesis by (simp add: rc)
  next
    case False
    then have "?loop w1 = (NGX_OK, w')"
      using assms(1) \<open>b_file_last b \<noteq> b_file_pos b\<close> a
      by (auto simp: ngx_http_coraza_append_response_body_file_def Let_def split: if_splits prod.splits)
    from shows_response_trans [OF s1 loop [OF this t1(1)]] show ?thesis by simp
  qed
qed

lemma read_body_loop_Some:
  assumes "read_body_loop E f rem off data w = (Some out, w')" "file_contents E F" "0 \<le> off"
  shows "shows_response t [] w w' \<and> out = data @ file_range F f off (off + int rem)"
  using assms(1,3)
proof (induction rem arbitrary: off data w rule: less_induct)
  case (less rem)
  show ?case
  proof (cases "rem > 0")
    case False
    then show ?thesis using less.prems
      by (simp add: read_body_loop.simps shows_response_refl file_range_def)
  next
    case True
    obtain n w1 where rd: "ngx_read_file E f rem off w = (n, w1)" by fastforce
    obtain d where n: "n = Some d" "d \<noteq> []"
      and rec: "read_body_loop E f (rem - length d) (off + int (length d)) (data @ d) w1 = (Some out, w')"
      using less.prems(1) True rd
      by (cases n) (auto simp: read_body_loop.simps [of E f rem off data w] split: if_splits)
    from read_file_shows [OF rd [unfolded n] assms(2) less.prems(2), of t] obtain k where
      s1: "shows_response t [] w w1" and d: "d = take k (drop (nat off) (F (f_id f)))" and le: "length d \<le> rem"
      by blast
    have lt: "rem - length d < rem" using True n(2) by simp
    have IH: "shows_response t [] w1 w'"
      "out = (data @ d) @ file_range F f (off + int (length d)) (off + int (length d) + int (rem - length d))"
      using less.IH [OF lt rec] less.prems(2) by auto
    have "off + int (length d) + int (rem - length d) = off + int rem" using le by simp
    moreover have "file_range F f off (off + int rem) = d @ file_range F f (off + int (length d)) (off + int rem)"
      by (rule file_range_split [of off d k F f, OF less.prems(2) d]) (use le in simp)
    ultimately show ?thesis using IH shows_response_trans [OF s1 IH(1)] by simp
  qed
qed

lemma read_body_data_Some:
  assumes "ngx_http_coraza_read_body_data E b w = (Some data, w')" "file_contents E F" "good_buf F b"
  shows "shows_response t [] w w' \<and> data = buf_content F b"
proof (cases "ngx_buf_in_memory b \<or> \<not> b_in_file b \<or> b_file b = None")
  case True
  then show ?thesis using assms(1)
    by (auto simp: ngx_http_coraza_read_body_data_def buf_content_def shows_response_refl split: option.splits)
next
  case False
  then obtain f where f: "b_file b = Some f" "b_in_file b" "\<not> ngx_buf_in_memory b" by auto
  have g: "0 \<le> b_file_pos b" "b_file_pos b \<le> b_file_last b" "b_file_last b < 2 ^ 63"
    using assms(3) f by (simp_all add: good_buf_def)
  then have len: "ngx_http_coraza_body_chunk_len b = nat (b_file_last b - b_file_pos b)"
    using f by (simp add: ngx_http_coraza_body_chunk_len_def)
  have c: "buf_content F b = file_range F f (b_file_pos b) (b_file_last b)" using f by (simp add: buf_content_def)
  show ?thesis
  proof (cases "b_file_last b = b_file_pos b")
    case True
    then show ?thesis using assms(1) f len c
      by (simp add: ngx_http_coraza_read_body_data_def shows_response_refl file_range_def)
  next
    case False
    let ?n = "nat (b_file_last b - b_file_pos b)"
    obtain ok w1 where a: "palloc E ?n w = (ok, w1)" by fastforce
    have "read_body_loop E f ?n (b_file_pos b) [] w1 = (Some data, w')"
      using assms(1) f len a False g
      by (auto simp: ngx_http_coraza_read_body_data_def split: if_splits)
    from read_body_loop_Some [OF this assms(2) g(1), of t] shows_response_palloc [OF a, of t]
    show ?thesis using shows_response_trans g c by fastforce
  qed
qed

section \<open>Holding back a chain\<close>

lemma inspect_buf_None:
  assumes "inspect_buf E i inn b w = (None, w')" "file_contents E F" "good_buf F b"
    and "coraza_transaction (ctxs w i) = t"
  shows "shows_response t (if response_body_processable (ctxs w i) then buf_content F b else []) w w'"
proof (cases "response_body_processable (ctxs w i)")
  case False
  then show ?thesis using assms(1) by (simp add: inspect_buf_def shows_response_refl)
next
  case True
  obtain early w1 where d: "inspect_data E i inn b w = (early, w1)" by fastforce
  obtain ret w2 where p: "ngx_http_coraza_process_intervention E (Some i) False w1 = (ret, w2)" by fastforce
  have early: "early = None" and w': "w' = w2"
    using assms(1) True d p
    by (auto simp: inspect_buf_def body_poll_verdict_def returning_def Let_def
        split: option.splits if_splits prod.splits)
  have "shows_response t (buf_content F b) w w1"
  proof (cases "file_backed b")
    case fb: True
    then obtain f where f: "b_file b = Some f" by (auto simp: file_backed_def)
    have "ngx_http_coraza_append_response_body_file E i b f w = (NGX_OK, w1)"
      using d early fb f
      by (auto simp: inspect_data_def inspect_file_def file_backed_def returning_def Let_def
          split: prod.splits if_splits)
    from append_response_body_file_OK [OF this assms(2) _ assms(4)] show ?thesis
      using assms(3) fb f by (simp add: good_buf_def buf_content_def file_backed_def)
  next
    case False
    obtain data v where r: "ngx_http_coraza_read_body_data E b w = (data, v)" by fastforce
    have m: "inspect_memory E i inn b w = (None, w1)"
      using d early False by (auto simp: inspect_data_def file_backed_def split: option.splits if_splits)
    have data: "data = Some (buf_content F b)" and sv: "shows_response t [] w v"
      using m r read_body_data_Some [OF _ assms(2,3), of w] 
      by (auto simp: inspect_memory_def returning_def Let_def split: option.splits if_splits prod.splits)
    have len: "length (buf_content F b) \<le> INT_MAX"
      using m False by (auto simp: inspect_memory_def returning_def Let_def buf_content_def file_backed_def
          ngx_http_coraza_body_chunk_len_def split: option.splits if_splits prod.splits)
    have v: "coraza_transaction (ctxs v i) = t" using shows_response_tx [OF sv assms(4)] .
    have "shows_response t (buf_content F b) v w1"
      using m r data v len append_response_body_shows [of E t "buf_content F b" v w1]
      by (auto simp: inspect_memory_def returning_def Let_def shows_response_refl
          split: option.splits if_splits prod.splits)
    from shows_response_trans [OF sv this] show ?thesis by simp
  qed
  from shows_response_trans [OF this shows_response_process_intervention [OF p]] show ?thesis
    using True w' by simp
qed

text \<open>Phase 4 was evaluated somewhere in \<open>new\<close>, and did not deny.\<close>

definition phase4_passed :: "env \<Rightarrow> tx \<Rightarrow> event list \<Rightarrow> event list \<Rightarrow> bool" where
  "phase4_passed E t tr new \<longleftrightarrow>
     (\<exists>pre n post. new = pre @ Eng t Process_response_body n # post \<and>
        denial E t n (tr @ pre @ [Eng t Process_response_body n]) = None)"

lemma phase4_passed_append:
  "phase4_passed E t tr new \<Longrightarrow> phase4_passed E t tr (new @ new')"
  "phase4_passed E t (tr @ new) new' \<Longrightarrow> phase4_passed E t tr (new @ new')"
  unfolding phase4_passed_def by (metis append_Cons append_assoc)+

lemma body_phase4_None:
  assumes "body_phase4 E i inn w = (None, w')" "coraza_transaction (ctxs w i) = t"
  shows "same_request w w' \<and> ctxs w' = ctxs w \<and>
    (\<exists>new. trace w' = trace w @ new \<and> (\<forall>e \<in> set new. holds_back e \<and> \<not> response_refused e) \<and>
      response_body_seen t new = [] \<and> phase4_passed E t (trace w) new)"
proof -
  define n where "n = eng E (trace w) t Process_response_body"
  let ?e = "Eng t Process_response_body n" and ?w1 = "emit (Eng t Process_response_body n) w"
  obtain ret w2 where p: "ngx_http_coraza_poll_after_process E (Some i) False n ?w1 = (ret, w2)" by fastforce
  have w': "w' = w2" "ret = 0"
    using assms p by (auto simp: body_phase4_def coraza_wrapper_defs cgo_def Let_def n_def
        body_poll_verdict_def returning_def split: if_splits prod.splits)
  have "0 \<le> n" "n = CORAZA_INTERRUPTION \<longrightarrow> lets_pass E i ?w1"
    using poll_OK_iff [of E i False n ?w1] p w' by simp_all
  then have d: "denial E t n (trace w @ [?e]) = None"
    using assms(2) by (auto simp: denial_def lets_pass_def split: option.splits)
  have s: "shows_response t [] ?w1 w2" by (rule shows_response_poll [OF p])
  then obtain post where post: "trace w2 = trace w @ ?e # post" "\<forall>x \<in> set post. body_quiet x"
    "response_body_seen t post = []" by (auto simp: shows_response_def adds_def)
  have "same_request w w2" "ctxs w2 = ctxs w" using s by (simp_all add: shows_response_def same_request_def)
  moreover have "phase4_passed E t (trace w) (?e # post)" using d unfolding phase4_passed_def by fastforce
  moreover have "\<forall>x \<in> set (?e # post). holds_back x \<and> \<not> response_refused x"
    using post(2) body_quiet_holds_back \<open>0 \<le> n\<close> by (auto simp: holds_back_def)
  ultimately show ?thesis using post w' by auto
qed

text \<open>
  A buffer that may outlive the call: its bytes are in the request pool, or it
  is a range of a file that is not a temporary file of the upstream.
\<close>

definition storable :: "ngx_buf \<Rightarrow> bool" where
  "storable b \<longleftrightarrow> b_owner b = Request_Pool \<or> (file_backed b \<and> \<not> b_temp_file b)"

lemma content_length_file:
  assumes "file_backed b" "good_buf F b"
  shows "nat ((b_file_last b - b_file_pos b) mod 2 ^ 64) = length (buf_content F b)"
proof -
  obtain f where f: "b_file b = Some f" using assms(1) by (auto simp: file_backed_def)
  have "(b_file_last b - b_file_pos b) mod 2 ^ 64 = b_file_last b - b_file_pos b"
    using assms(2) f by (auto simp: good_buf_def)
  then show ?thesis
    using file_range_length [OF assms(2) f] assms(1) f by (simp add: buf_content_def file_backed_def)
qed

lemma pool_copy_content: "buf_content F (pool_copy b data) = data" "storable (pool_copy b data)"
  by (auto simp: pool_copy_def buf_content_def ngx_buf_in_memory_def empty_buf_def storable_def Let_def)

lemma keep_buf_Inr:
  assumes "keep_buf E i inn b w = (Inr k, w')" "file_contents E F" "good_buf F b"
  shows "buf_content F k = buf_content F b \<and> storable k \<and>
    (\<exists>v. shows_response t [] w v \<and> w' = add_pending_bytes i (length (buf_content F b)) v)"
proof (cases "file_backed b \<and> \<not> b_temp_file b")
  case True
  obtain ok w1 where a: "palloc E SIZEOF_BUF w = (ok, w1)" by fastforce
  have "k = b\<lparr>b_last_buf := False\<rparr>" "w' = add_pending_bytes i (length (buf_content F b)) w1"
    using assms(1) True a content_length_file [OF _ assms(3)]
    by (auto simp: keep_buf_def clone_file_buf_def failing_def Let_def split: if_splits prod.splits)
  then show ?thesis
    using True shows_response_palloc [OF a]
    by (auto simp: buf_content_def storable_def file_backed_def ngx_buf_in_memory_def)
next
  case False
  obtain data w1 where r: "ngx_http_coraza_read_body_data E b w = (data, w1)" by fastforce
  have c: "copy_buf E i inn b w = (Inr k, w')" using assms(1) False by (simp add: keep_buf_def)
  have data: "data = Some (buf_content F b)" and s1: "shows_response t [] w w1"
    using c r read_body_data_Some [OF _ assms(2,3), of w]
    by (auto simp: copy_buf_def failing_def Let_def split: option.splits prod.splits)
  obtain ok w2 where a: "palloc E SIZEOF_BUF w1 = (ok, w2)" by fastforce
  obtain ok' w3 where a': "(if length (buf_content F b) > 0 then palloc E (length (buf_content F b)) w2
      else (True, w2)) = (ok', w3)" by fastforce
  have s3: "shows_response t [] w2 w3"
    using a' shows_response_palloc shows_response_refl by (auto split: if_splits)
  have "k = pool_copy b (buf_content F b)" "w' = add_pending_bytes i (length (buf_content F b)) w3"
    using c r data a a' by (auto simp: copy_buf_def failing_def Let_def split: if_splits prod.splits)
  then show ?thesis
    using pool_copy_content shows_response_trans [OF s1 shows_response_trans [OF shows_response_palloc [OF a] s3]]
    by auto
qed

text \<open>
  What treating a chain does while the headers are held back, if the filter goes
  on: nothing is handed on, the engine has seen the content (if it wants it) and
  has passed phase 4 if the last buffer was there, and the kept chain has grown
  by exactly that content, in buffers that may be kept.
\<close>

definition kept_well :: "ngx_buf list \<Rightarrow> ngx_http_coraza_ctx \<Rightarrow> ngx_http_coraza_ctx \<Rightarrow> nat \<Rightarrow> bool" where
  "kept_well chain c c' n \<longleftrightarrow>
     ((\<forall>b \<in> set chain. \<not> b_last_buf b) \<longrightarrow>
        ((\<forall>b \<in> set (pending_chain c). storable b) \<longrightarrow> (\<forall>b \<in> set (pending_chain c'). storable b)) \<and>
        (pending_bytes c < 2 ^ 64 \<longrightarrow> pending_bytes c' < 2 ^ 64) \<and>
        pending_bytes c' mod 2 ^ 64 = (pending_bytes c + n) mod 2 ^ 64)"

definition same_flags :: "ngx_http_coraza_ctx \<Rightarrow> ngx_http_coraza_ctx \<Rightarrow> bool" where
  "same_flags c c' \<longleftrightarrow> coraza_transaction c' = coraza_transaction c \<and>
     headers_delayed c' = headers_delayed c \<and>
     response_body_processable c' = response_body_processable c \<and>
     intervention_triggered c' = intervention_triggered c"

definition shown :: "env \<Rightarrow> tx \<Rightarrow> bytes \<Rightarrow> bool \<Rightarrow> world \<Rightarrow> world \<Rightarrow> bool" where
  "shown E t bs lst w w' \<longleftrightarrow>
     (\<exists>new. trace w' = trace w @ new \<and> (\<forall>e \<in> set new. holds_back e \<and> \<not> response_refused e) \<and>
        response_body_seen t new = bs \<and> (lst \<longrightarrow> phase4_passed E t (trace w) new))"

definition holds_chain ::
  "env \<Rightarrow> (nat \<Rightarrow> bytes) \<Rightarrow> tx \<Rightarrow> nat \<Rightarrow> ngx_buf list \<Rightarrow> world \<Rightarrow> world \<Rightarrow> bool" where
  "holds_chain E F t i chain w w' \<longleftrightarrow>
     same_request w w' \<and> same_flags (ctxs w i) (ctxs w' i) \<and>
     shown E t (if response_body_processable (ctxs w i) then chain_content F chain else [])
       (\<exists>b \<in> set chain. b_last_buf b) w w' \<and>
     chain_content F (pending_chain (ctxs w' i)) =
       chain_content F (pending_chain (ctxs w i)) @ chain_content F chain \<and>
     kept_well chain (ctxs w i) (ctxs w' i) (length (chain_content F chain))"

lemma shown_trans:
  "shown E t a la w w' \<Longrightarrow> shown E t b lb w' w'' \<Longrightarrow> shown E t (a @ b) (la \<or> lb) w w''"
  unfolding shown_def using phase4_passed_append by fastforce

lemma shown_response: "shows_response t bs w w' \<Longrightarrow> shown E t bs False w w'"
  using body_quiet_holds_back by (fastforce simp: shows_response_def shown_def adds_def)

lemma chain_content_simps [simp]:
  "chain_content F [] = []" "chain_content F (b # bs) = buf_content F b @ chain_content F bs"
  "chain_content F (as @ bs) = chain_content F as @ chain_content F bs"
  by (simp_all add: chain_content_def)

lemma kept_well_trans:
  assumes "kept_well as c c' m" "kept_well bs c' c'' n"
  shows "kept_well (as @ bs) c c'' (m + n)"
  unfolding kept_well_def
proof (intro impI conjI)
  assume "\<forall>b \<in> set (as @ bs). \<not> b_last_buf b"
  then have n: "\<forall>b \<in> set as. \<not> b_last_buf b" "\<forall>b \<in> set bs. \<not> b_last_buf b" by simp_all
  show "\<forall>b \<in> set (pending_chain c''). storable b" if "\<forall>b \<in> set (pending_chain c). storable b"
    using assms n that by (simp add: kept_well_def)
  show "pending_bytes c'' < 2 ^ 64" if "pending_bytes c < 2 ^ 64"
    using assms n that unfolding kept_well_def by blast
  have e1: "pending_bytes c' mod 2 ^ 64 = (pending_bytes c + m) mod 2 ^ 64"
    and e2: "pending_bytes c'' mod 2 ^ 64 = (pending_bytes c' + n) mod 2 ^ 64"
    using assms n unfolding kept_well_def by blast+
  from arg_cong [OF e1, of "\<lambda>x. (x + n) mod 2 ^ 64"]
  show "pending_bytes c'' mod 2 ^ 64 = (pending_bytes c + (m + n)) mod 2 ^ 64"
    unfolding e2 mod_add_left_eq by (simp only: add.assoc)
qed

lemma holds_chain_refl: "holds_chain E F t i [] w w"
  by (simp add: holds_chain_def same_request_refl same_flags_def shown_def kept_well_def)

lemma holds_chain_trans:
  assumes "holds_chain E F t i as w w'" "holds_chain E F t i bs w' w''"
  shows "holds_chain E F t i (as @ bs) w w''"
proof -
  have p: "response_body_processable (ctxs w' i) = response_body_processable (ctxs w i)"
    using assms(1) by (simp add: holds_chain_def same_flags_def)
  have sa: "shown E t (if response_body_processable (ctxs w i) then chain_content F as else [])
      (\<exists>b \<in> set as. b_last_buf b) w w'"
    and sb: "shown E t (if response_body_processable (ctxs w i) then chain_content F bs else [])
      (\<exists>b \<in> set bs. b_last_buf b) w' w''"
    using assms p by (simp_all add: holds_chain_def)
  have sh: "shown E t (if response_body_processable (ctxs w i) then chain_content F (as @ bs) else [])
      (\<exists>b \<in> set (as @ bs). b_last_buf b) w w''"
    using shown_trans [OF sa sb] by (simp add: bex_Un split: if_splits)
  have kw: "kept_well (as @ bs) (ctxs w i) (ctxs w'' i) (length (chain_content F (as @ bs)))"
    using kept_well_trans [of as "ctxs w i" "ctxs w' i" _ bs "ctxs w'' i"] assms
    by (simp add: holds_chain_def)
  have sr: "same_request w w''" using same_request_trans assms unfolding holds_chain_def by blast
  show ?thesis
    using assms sh kw sr by (simp add: holds_chain_def same_flags_def)
qed

lemma delay_buf_Inr:
  assumes "delay_buf E i inn b w = (Inr b', w')" "file_contents E F" "good_buf F b"
  obtains v k n where "shows_response t [] w v" and "buf_content F k = buf_content F b"
    and "w' = push_pending i k (add_pending_bytes i n v) \<or> (b_last_buf b \<and> w' = push_pending i k v)"
    and "\<not> b_last_buf b \<longrightarrow> storable k \<and> n = length (buf_content F b)"
proof -
  obtain ok w1 where a: "palloc E SIZEOF_CHAIN w = (ok, w1)" by fastforce
  note s1 = shows_response_palloc [OF a, of t]
  show thesis
  proof (cases "b_last_buf b")
    case True
    then have "w' = push_pending i b w1"
      using assms(1) a by (auto simp: delay_buf_def failing_def Let_def split: if_splits prod.splits)
    then show thesis using that [OF s1, of b 0] True by simp
  next
    case False
    obtain res w2 where kb: "keep_buf E i inn b w1 = (res, w2)" by fastforce
    obtain k where k: "res = Inr k" "w' = push_pending i k w2"
      using assms(1) a kb False
      by (auto simp: delay_buf_def failing_def Let_def split: if_splits prod.splits sum.splits)
    from keep_buf_Inr [OF kb [unfolded k(1)] assms(2,3), of t] obtain v where
      "buf_content F k = buf_content F b" "storable k" "shows_response t [] w1 v"
      "w2 = add_pending_bytes i (length (buf_content F b)) v" by blast
    with shows_response_trans [OF s1 this(3)] k show thesis
      by (intro that [of v k "length (buf_content F b)"]) simp_all
  qed
qed

lemma body_step_holds:
  assumes "inspect_buf E i inn b w = (None, w1)"
    and "(if b_last_buf b then body_phase4 E i inn w1 else (None, w1)) = (None, w2)"
    and "delay_buf E i inn b w2 = (Inr b', w')"
    and "file_contents E F" "good_buf F b" "coraza_transaction (ctxs w i) = t"
  shows "holds_chain E F t i [b] w w'"
proof -
  note s1 = inspect_buf_None [OF assms(1,4-6)]
  have t1: "coraza_transaction (ctxs w1 i) = t" using shows_response_tx [OF s1 assms(6)] .
  have s2: "same_request w1 w2" "ctxs w2 = ctxs w1" "shown E t [] (b_last_buf b) w1 w2"
    using assms(2) body_phase4_None [of E i inn w1 w2 t] t1
    by (auto simp: same_request_refl shown_def split: if_splits)
  obtain v k n where s3: "shows_response t [] w2 v" and c: "buf_content F k = buf_content F b"
    and w': "w' = push_pending i k (add_pending_bytes i n v) \<or> (b_last_buf b \<and> w' = push_pending i k v)"
    and st: "\<not> b_last_buf b \<longrightarrow> storable k \<and> n = length (buf_content F b)"
    by (rule delay_buf_Inr [OF assms(3-5), of t])
  have sh: "shown E t (if response_body_processable (ctxs w i) then buf_content F b else []) (b_last_buf b) w v"
    using shown_trans [OF shown_response [OF s1] shown_trans [OF s2(3) shown_response [OF s3]]] by simp
  have sh': "shown E t (if response_body_processable (ctxs w i) then buf_content F b else []) (b_last_buf b) w w'"
    using sh w' by (auto simp: shown_def push_pending_def add_pending_bytes_def)
  have sr: "same_request w v"
    using s1 s2(1) s3 same_request_trans unfolding shows_response_def by blast
  have cv: "ctxs v = ctxs w" using s1 s2(2) s3 by (simp add: shows_response_def)
  obtain m where m: "ctxs w' i = (ctxs w i)\<lparr>pending_chain := pending_chain (ctxs w i) @ [k], pending_bytes := m\<rparr>"
    "\<not> b_last_buf b \<longrightarrow> m = (pending_bytes (ctxs w i) + length (buf_content F b)) mod 2 ^ 64"
  proof -
    from w' consider "w' = push_pending i k (add_pending_bytes i n v)"
      | "b_last_buf b" "w' = push_pending i k v" by blast
    then show thesis
    proof cases
      case 1
      then show thesis using st cv
        by (intro that [of "(pending_bytes (ctxs w i) + n) mod 2 ^ 64"])
          (simp_all add: push_pending_def add_pending_bytes_def)
    next
      case 2
      then show thesis using cv by (intro that [of "pending_bytes (ctxs w i)"]) (simp_all add: push_pending_def)
    qed
  qed
  have sr': "same_request w w'"
    using sr w' by (auto simp: push_pending_def add_pending_bytes_def)
  show ?thesis
    unfolding holds_chain_def m(1) using sh' sr' c st m(2)
    by (auto simp: same_flags_def kept_well_def split: if_splits)
qed

lemma body_loop_Inr:
  assumes "body_loop E i don proc chain w = (Inr (inn', proc'), w')" "headers_delayed (ctxs w i)"
    and "file_contents E F" "\<forall>b \<in> set chain. good_buf F b" "coraza_transaction (ctxs w i) = t"
  shows "holds_chain E F t i chain w w' \<and> (proc' \<longleftrightarrow> proc \<or> (\<exists>b \<in> set chain. b_last_buf b))"
  using assms(1,2,4,5)
proof (induction chain arbitrary: don proc w)
  case Nil
  then show ?case by (simp add: holds_chain_refl)
next
  case (Cons b chain)
  let ?inn = "don @ b # chain"
  obtain e1 w1 where s1: "inspect_buf E i ?inn b w = (e1, w1)" by fastforce
  obtain e2 w2 where s2: "(if b_last_buf b then body_phase4 E i ?inn w1 else (None, w1)) = (e2, w2)" by fastforce
  have e1: "e1 = None" using Cons.prems(1) s1 by (cases e1) simp_all
  have e2: "e2 = None" using Cons.prems(1) s1 e1 s2 by (cases e2) (simp_all add: Let_def)
  have g: "good_buf F b" "\<forall>b \<in> set chain. good_buf F b" using Cons.prems(3) by simp_all
  have "coraza_transaction (ctxs w1 i) = t" "ctxs w1 = ctxs w"
    using inspect_buf_None [OF s1 [unfolded e1] assms(3) g(1) Cons.prems(4)] Cons.prems(4)
    by (simp_all add: shows_response_def)
  then have "headers_delayed (ctxs w2 i)"
    using s2 e2 Cons.prems(2) body_phase4_None [of E i ?inn w1 w2 t] by (auto split: if_splits)
  obtain res w3 where s3: "delay_buf E i ?inn b w2 = (res, w3)" by fastforce
  obtain b' where res: "res = Inr b'"
    and rec: "body_loop E i (don @ [b']) (proc \<or> b_last_buf b) chain w3 = (Inr (inn', proc'), w')"
    using Cons.prems(1) s1 e1 s2 e2 s3 \<open>headers_delayed (ctxs w2 i)\<close>
    by (cases res) (simp_all add: Let_def)
  have h: "holds_chain E F t i [b] w w3"
    by (rule body_step_holds [OF s1 [unfolded e1] s2 [unfolded e2] s3 [unfolded res] assms(3) g(1) Cons.prems(4)])
  then have "headers_delayed (ctxs w3 i)" "coraza_transaction (ctxs w3 i) = t"
    using Cons.prems(2,4) by (simp_all add: holds_chain_def same_flags_def)
  from Cons.IH [OF rec this(1) g(2) this(2)] holds_chain_trans [OF h] show ?case by fastforce
qed

section \<open>Early exits\<close>

text \<open>A stretch, with any outcome, that hands nothing on and leaves the request.\<close>

definition quietly :: "world \<Rightarrow> world \<Rightarrow> bool" where
  "quietly w w' \<longleftrightarrow> same_request w w' \<and> adds holds_back w w'"

lemma quietly_refl: "quietly w w"
  by (simp add: quietly_def same_request_refl adds_refl)

lemma quietly_trans: "quietly w w' \<Longrightarrow> quietly w' w'' \<Longrightarrow> quietly w w''"
  unfolding quietly_def using same_request_trans adds_trans by blast

lemma quietly_emit: "holds_back e \<Longrightarrow> quietly w w' \<Longrightarrow> quietly w (emit e w')"
  by (simp add: quietly_def adds_emit)

lemma quietly_upd_ctx: "quietly w w' \<Longrightarrow> quietly w (upd_ctx i f w')"
  by (simp add: quietly_def adds_upd_ctx)

lemma quietly_shows: "shows_response t bs w w' \<Longrightarrow> quietly w w'"
  using body_quiet_holds_back by (auto simp: shows_response_def quietly_def adds_def)

lemma quietly_let:
  assumes "quietly w (snd m)" and "\<And>a w'. m = (a, w') \<Longrightarrow> quietly w' (snd (k a w'))"
  shows "quietly w (snd (let (a, w') = m in k a w'))"
  using assms by (cases m) (auto intro: quietly_trans)

lemma quietly_if:
  "(b \<Longrightarrow> quietly w (snd x)) \<Longrightarrow> (\<not> b \<Longrightarrow> quietly w (snd y)) \<Longrightarrow> quietly w (snd (if b then x else y))"
  by simp

lemma quietly_option:
  "(x = None \<Longrightarrow> quietly w (snd n)) \<Longrightarrow> (\<And>y. x = Some y \<Longrightarrow> quietly w (snd (f y))) \<Longrightarrow>
   quietly w (snd (case x of None \<Rightarrow> n | Some y \<Rightarrow> f y))"
  by (cases x) simp_all

lemma quietly_let_val: "quietly w (snd (k x)) \<Longrightarrow> quietly w (snd (Let x k))"
  by simp

lemma quietly_pair: "quietly w w' \<Longrightarrow> quietly w (snd (a, w'))"
  by simp

lemma quietly_if_world: "(b \<Longrightarrow> quietly w x) \<Longrightarrow> (\<not> b \<Longrightarrow> quietly w y) \<Longrightarrow> quietly w (if b then x else y)"
  by simp

lemma quietly_calls:
  "quietly w (snd (palloc E n w))" "quietly w (snd (ngx_read_file E f len off w))"
  "quietly w (snd (set_directio_op E f on w))"
  "quietly w (snd (coraza_append_response_body E t d l w))"
  "quietly w (snd (coraza_process_response_body E t w))"
  by (simp_all add: palloc_def ngx_read_file_def set_directio_op_def coraza_wrapper_defs cgo_def Let_def
      quietly_emit quietly_refl holds_back_def)

lemma quietly_polls:
  "quietly w (snd (ngx_http_coraza_process_intervention E c False w))"
  "quietly w (snd (ngx_http_coraza_poll_after_process E c False pret w))"
  by (rule quietly_shows, rule shows_response_process_intervention, rule prod.collapse [symmetric])
    (rule quietly_shows, rule shows_response_poll, rule prod.collapse [symmetric])

lemmas quietly_rules = quietly_let quietly_if quietly_option quietly_let_val quietly_pair
  quietly_if_world quietly_calls quietly_polls quietly_upd_ctx quietly_refl

lemma quietly_read_body_loop: "quietly w (snd (read_body_loop E f remaining offset data w))"
proof (induction remaining arbitrary: offset data w rule: less_induct)
  case (less remaining)
  have IH: "quietly w' (snd (read_body_loop E f (remaining - length d) off data' w'))"
    if "0 < remaining" "length d \<noteq> 0" for w' off data' and d :: bytes
    using that by (intro less) auto
  show ?case
    by (subst read_body_loop.simps) (rule quietly_rules IH | assumption)+
qed

lemma quietly_read_body_data: "quietly w (snd (ngx_http_coraza_read_body_data E b w))"
  unfolding ngx_http_coraza_read_body_data_def by (rule quietly_rules quietly_read_body_loop)+

lemma quietly_append_response_body_loop: "quietly w (snd (append_response_body_loop E i f lst offset w))"
proof (induction "nat (lst - offset)" arbitrary: offset w rule: less_induct)
  case less
  have IH: "quietly w' (snd (append_response_body_loop E i f lst (offset + int (length d)) w'))"
    if "offset < lst" "length d \<noteq> 0" for w' and d :: bytes
    using that by (intro less) auto
  show ?case
    by (subst append_response_body_loop.simps) (rule quietly_rules IH | assumption)+
qed

lemma quietly_append_response_body_file:
  "quietly w (snd (ngx_http_coraza_append_response_body_file E i b f w))"
  unfolding ngx_http_coraza_append_response_body_file_def
  by (rule quietly_rules quietly_append_response_body_loop)+

text \<open>The response was replaced: the one thing handed on is an error page or a redirect.\<close>

definition replaced :: "nat \<Rightarrow> world \<Rightarrow> world \<Rightarrow> bool" where
  "replaced i w w' \<longleftrightarrow> intervention_triggered (ctxs w' i) \<and> \<not> headers_delayed (ctxs w' i) \<and>
     (\<exists>pre e s. trace w' = trace w @ pre @ [e] \<and> (\<forall>x \<in> set pre. \<not> forwards x) \<and> 0 < s \<and> replaced_by s e)"

lemma finalize_replaced:
  assumes "quietly w v" "intervention_triggered (ctxs v i)" "0 < s"
  shows "replaced i w (snd (ngx_http_coraza_body_filter_finalize E i inn s v))"
proof -
  obtain pre where pre: "trace v = trace w @ pre" "\<forall>x \<in> set pre. \<not> forwards x"
    using assms(1) by (auto simp: quietly_def adds_def holds_back_def)
  define u where "u = (if headers_delayed (ctxs v i)
    then upd_ctx i (\<lambda>c. c\<lparr>headers_delayed := False, pending_chain := [], pending_bytes := 0\<rparr>) v else v)"
  have u: "trace u = trace v" "intervention_triggered (ctxs u i)" "\<not> headers_delayed (ctxs u i)"
    using assms(2) by (auto simp: u_def)
  let ?red = "headers_delayed (ctxs v i) \<and> ngx_http_coraza_is_redirect_status s \<and> ho_location (r_headers_out (req u)) \<noteq> None"
  have eq: "snd (ngx_http_coraza_body_filter_finalize E i inn s v) =
      (if ?red then snd (run_next_header_filter E (ngx_http_coraza_prepare_redirect s u))
       else snd (ngx_http_filter_finalize_request E s u))"
    by (auto simp: ngx_http_coraza_body_filter_finalize_def ngx_http_coraza_forward_header_def u_def Let_def
        split: prod.split)
  have "\<exists>e. trace (snd (ngx_http_coraza_body_filter_finalize E i inn s v)) = trace v @ [e] \<and> replaced_by s e"
    "ctxs (snd (ngx_http_coraza_body_filter_finalize E i inn s v)) = ctxs u"
    unfolding eq using u(1) prepare_redirect_bare [of s u]
    by (auto simp: run_next_header_filter_def ngx_http_filter_finalize_request_def replaced_by_def Let_def
        split: prod.split)
  then show ?thesis using pre u assms(3) unfolding replaced_def by auto
qed

definition exits :: "nat \<Rightarrow> world \<Rightarrow> 'a option \<times> world \<Rightarrow> bool" where
  "exits i w res \<longleftrightarrow> (if fst res = None then quietly w (snd res) else replaced i w (snd res))"

definition exits_sum :: "nat \<Rightarrow> world \<Rightarrow> ('a + 'b) \<times> world \<Rightarrow> bool" where
  "exits_sum i w res \<longleftrightarrow> (if isl (fst res) then replaced i w (snd res) else quietly w (snd res))"

lemma exits_None: "quietly w v \<Longrightarrow> exits i w (None, v)"
  by (simp add: exits_def)

lemma exits_finalize:
  assumes "quietly w v" "0 < s"
  shows "exits i w (returning (ngx_http_coraza_body_filter_finalize E i inn s (trigger i v)))"
proof -
  have "replaced i w (snd (ngx_http_coraza_body_filter_finalize E i inn s (trigger i v)))"
    by (rule finalize_replaced [OF quietly_upd_ctx [OF assms(1)] _ assms(2)]) simp
  then show ?thesis by (simp add: exits_def returning_def case_prod_beta Let_def)
qed

lemma exits_internal_error:
  assumes "quietly w v"
  shows "exits_sum i w (failing (ngx_http_coraza_body_filter_internal_error E i inn v))"
proof -
  have "replaced i w (snd (ngx_http_coraza_body_filter_internal_error E i inn v))"
    unfolding ngx_http_coraza_body_filter_internal_error_def
    by (rule finalize_replaced [OF quietly_upd_ctx [OF assms]]) simp_all
  then show ?thesis by (simp add: exits_sum_def failing_def case_prod_beta Let_def)
qed

lemma exits_sum_simps:
  "exits_sum i w (Inl x, v) \<longleftrightarrow> replaced i w v" "exits_sum i w (Inr y, v) \<longleftrightarrow> quietly w v"
  by (simp_all add: exits_sum_def)

lemma exits_simps:
  "exits i w (Some x, v) \<longleftrightarrow> replaced i w v" "exits i w (None, v) \<longleftrightarrow> quietly w v"
  by (simp_all add: exits_def)

lemma replaced_after: "quietly w v \<Longrightarrow> replaced i v u \<Longrightarrow> replaced i w u"
  unfolding replaced_def quietly_def adds_def holds_back_def by fastforce

lemma exits_sum_after: "quietly w v \<Longrightarrow> exits_sum i v res \<Longrightarrow> exits_sum i w res"
  by (auto simp: exits_sum_def intro: replaced_after quietly_trans split: if_splits)

lemma quietly_error_page: "quietly w v \<Longrightarrow> r_error_page (req v) = r_error_page (req w)"
  by (simp add: quietly_def same_request_sel(1))

lemma exits_let:
  assumes "quietly w v" "quietly v (snd m)" "\<And>a w'. m = (a, w') \<Longrightarrow> quietly w w' \<Longrightarrow> exits i w (k a w')"
  shows "exits i w (let (a, w') = m in k a w')"
  using assms by (cases m) (auto intro: quietly_trans)

lemma exits_sum_let:
  assumes "quietly w v" "quietly v (snd m)" "\<And>a w'. m = (a, w') \<Longrightarrow> quietly w w' \<Longrightarrow> exits_sum i w (k a w')"
  shows "exits_sum i w (let (a, w') = m in k a w')"
  using assms by (cases m) (auto intro: quietly_trans)

lemma exits_if:
  "(b \<Longrightarrow> exits i w x) \<Longrightarrow> (\<not> b \<Longrightarrow> exits i w y) \<Longrightarrow> exits i w (if b then x else y)"
  by simp

lemma exits_inspect_memory: "exits i w (inspect_memory E i inn b w)"
proof -
  obtain data v where r: "ngx_http_coraza_read_body_data E b w = (data, v)" by fastforce
  have qv: "quietly w v" using quietly_read_body_data [of w E b] r by simp
  obtain ret u where a: "coraza_append_response_body E (coraza_transaction (ctxs v i)) (the data)
      (c_int (length (the data))) v = (ret, u)" by fastforce
  have qu: "quietly w u"
    using quietly_trans [OF qv] quietly_calls(4) [of v E "coraza_transaction (ctxs v i)" "the data"] a
    by (metis snd_conv)
  show ?thesis
    using r a
    by (cases data) (simp_all add: inspect_memory_def exits_finalize [OF quietly_refl]
        exits_finalize [OF qv] exits_finalize [OF qu] exits_None [OF qv] exits_None [OF qu])
qed

lemma append_response_body_file_trigger:
  "ngx_http_coraza_append_response_body_file E i b f w = (rc, w') \<Longrightarrow> rc \<noteq> NGX_OK \<Longrightarrow>
   intervention_triggered (ctxs w' i)"
  by (auto simp: ngx_http_coraza_append_response_body_file_def Let_def split: if_splits prod.splits)

lemma exits_inspect_file: "exits i w (inspect_file E i inn b f w)"
proof -
  obtain rc v where r: "ngx_http_coraza_append_response_body_file E i b f w = (rc, v)" by fastforce
  have q: "quietly w v" using quietly_append_response_body_file [of w E i b f] r by simp
  have "replaced i w (snd (ngx_http_coraza_body_filter_finalize E i inn NGX_HTTP_INTERNAL_SERVER_ERROR v))"
    if "rc \<noteq> NGX_OK" by (rule finalize_replaced [OF q append_response_body_file_trigger [OF r that]]) simp
  then show ?thesis
    using r q by (auto simp: inspect_file_def exits_def returning_def Let_def split: prod.split)
qed

lemma exits_inspect_data: "exits i w (inspect_data E i inn b w)"
  by (simp add: inspect_data_def exits_inspect_file exits_inspect_memory split: option.split)

lemma exits_poll_verdict:
  assumes "quietly w v" "\<not> r_error_page (req w)"
  shows "exits i w (body_poll_verdict E i inn ret v)"
proof -
  have "\<not> r_error_page (req v)" using assms same_request_sel(1) by (auto simp: quietly_def)
  then show ?thesis
    by (simp add: body_poll_verdict_def exits_finalize [OF assms(1)] exits_None [OF assms(1)])
qed

lemma exits_inspect_buf:
  assumes "\<not> r_error_page (req w)"
  shows "exits i w (inspect_buf E i inn b w)"
proof -
  obtain early v where d: "inspect_data E i inn b w = (early, v)" by fastforce
  have ev: "exits i w (early, v)" using exits_inspect_data [of i w E inn b] d by simp
  obtain ret u where p: "ngx_http_coraza_process_intervention E (Some i) False v = (ret, u)" by fastforce
  have "exits i w (body_poll_verdict E i inn ret u)" if "early = None"
    using exits_poll_verdict [OF quietly_trans assms] ev that quietly_polls(1) [of v E "Some i"] p
    by (simp add: exits_def)
  then show ?thesis
    using d p ev by (cases early) (simp_all add: inspect_buf_def exits_None quietly_refl)
qed

lemma exits_body_phase4:
  assumes "\<not> r_error_page (req w)"
  shows "exits i w (body_phase4 E i inn w)"
  unfolding body_phase4_def
  by (rule exits_let [OF quietly_refl quietly_calls(5)], rule exits_if)
    (rule exits_finalize, assumption, simp, erule exits_let [OF _ quietly_polls(2)], erule exits_poll_verdict [OF _ assms])

lemma exits_keep_buf:
  assumes "quietly w v"
  shows "exits_sum i w (keep_buf E i inn b v)"
proof (cases "file_backed b \<and> \<not> b_temp_file b")
  case True
  obtain ok u where a: "palloc E SIZEOF_BUF v = (ok, u)" by fastforce
  have q: "quietly w u" using quietly_trans [OF assms] quietly_calls(1) [of v E SIZEOF_BUF] a by simp
  show ?thesis
    using True a
    by (simp add: keep_buf_def clone_file_buf_def exits_sum_simps add_pending_bytes_def
        exits_internal_error [OF q] quietly_upd_ctx [OF q])
next
  case False
  obtain data v1 where r: "ngx_http_coraza_read_body_data E b v = (data, v1)" by fastforce
  have q1: "quietly w v1" using quietly_trans [OF assms] quietly_read_body_data [of v E b] r by simp
  obtain ok u where a: "palloc E SIZEOF_BUF v1 = (ok, u)" by fastforce
  have q2: "quietly w u" using quietly_trans [OF q1] quietly_calls(1) [of v1 E SIZEOF_BUF] a by simp
  obtain ok' u' where a': "(if length (the data) > 0 then palloc E (length (the data)) u else (True, u)) = (ok', u')"
    by fastforce
  have q3: "quietly w u'"
    using quietly_trans [OF q2] quietly_calls(1) [of u E "length (the data)"] a' q2 by (auto split: if_splits)
  show ?thesis
    using False r a a'
    by (cases data) (auto simp: keep_buf_def copy_buf_def exits_sum_simps add_pending_bytes_def
        exits_internal_error [OF q1] exits_internal_error [OF q2] exits_internal_error [OF q3]
        quietly_upd_ctx [OF q3])
qed

lemma exits_delay_buf: "exits_sum i w (delay_buf E i inn b w)"
proof -
  obtain ok v where a: "palloc E SIZEOF_CHAIN w = (ok, v)" by fastforce
  have q: "quietly w v" using quietly_calls(1) [of w E SIZEOF_CHAIN] a by simp
  obtain res u where k: "keep_buf E i inn b v = (res, u)" by fastforce
  have "exits_sum i w (res, u)" using exits_keep_buf [OF q, of i E inn b] k by simp
  then show ?thesis
    using a k
    by (cases res) (simp_all add: delay_buf_def exits_internal_error [OF q] quietly_upd_ctx q
        exits_sum_simps push_pending_def)
qed

text \<open>One step of the loop, and the loop.\<close>

lemma exits_body_loop:
  "\<not> r_error_page (req w) \<Longrightarrow> exits_sum i w (body_loop E i don proc chain w)"
proof (induction chain arbitrary: don proc w)
  case Nil
  show ?case by (simp add: exits_sum_simps quietly_refl)
next
  case (Cons b chain)
  let ?inn = "don @ b # chain"
  obtain e1 w1 where s1: "inspect_buf E i ?inn b w = (e1, w1)" by fastforce
  have x1: "exits i w (e1, w1)" using exits_inspect_buf [OF Cons.prems, of i E ?inn b] s1 by simp
  show ?case
  proof (cases e1)
    case (Some res)
    then show ?thesis using x1 s1 by (simp add: exits_simps exits_sum_simps)
  next
    case None
    then have q1: "quietly w w1" using x1 by (simp add: exits_simps)
    obtain e2 w2 where s2: "(if b_last_buf b then body_phase4 E i ?inn w1 else (None, w1)) = (e2, w2)" by fastforce
    have x2: "exits i w1 (e2, w2)"
      using s2 exits_body_phase4 [of w1 i E ?inn] Cons.prems quietly_error_page [OF q1]
      by (auto simp: exits_def quietly_refl split: if_splits)
    show ?thesis
    proof (cases e2)
      case (Some res)
      then show ?thesis using x2 s1 None s2 replaced_after [OF q1]
        by (simp add: exits_simps exits_sum_simps Let_def)
    next
      case e2: None
      then have q2: "quietly w w2" using x2 quietly_trans [OF q1] by (simp add: exits_simps)
      obtain res w3 where s3: "delay_buf E i ?inn b w2 = (res, w3)" by fastforce
      have x3: "exits_sum i w (res, w3)" using exits_sum_after [OF q2 exits_delay_buf, of i E ?inn b] s3 by simp
      have IH: "exits_sum i w (body_loop E i d p chain v)" if "quietly w v" for d p v
        using exits_sum_after [OF that Cons.IH] Cons.prems quietly_error_page [OF that] by simp
      show ?thesis
        using s1 None s2 e2 s3 x3 IH q2 by (cases res) (simp_all add: exits_sum_simps Let_def)
    qed
  qed
qed

section \<open>Properties\<close>

text \<open>The ways a run of the filter can end while the headers are held back.\<close>

definition released :: "env \<Rightarrow> (nat \<Rightarrow> bytes) \<Rightarrow> tx \<Rightarrow> nat \<Rightarrow> ngx_buf list \<Rightarrow> world \<Rightarrow> world \<Rightarrow> bool" where
  "released E F t i inn w w' \<longleftrightarrow> \<not> headers_delayed (ctxs w' i) \<and>
     (\<exists>v r rc. holds_chain E F t i inn w v \<and>
        ((\<exists>b \<in> set inn. b_last_buf b) \<or> pending_bytes (ctxs v i) > NGX_HTTP_CORAZA_MAX_DELAYED_BODY) \<and>
        (if rc = NGX_ERROR then trace w' = trace v @ [Next_header_filter r rc]
         else \<exists>rc'. trace w' = trace v @ [Next_header_filter r rc, Next_body_filter (pending_chain (ctxs v i)) rc']))"

definition still_held :: "env \<Rightarrow> (nat \<Rightarrow> bytes) \<Rightarrow> tx \<Rightarrow> nat \<Rightarrow> ngx_buf list \<Rightarrow> world \<Rightarrow> world \<Rightarrow> bool" where
  "still_held E F t i inn w w' \<longleftrightarrow> holds_chain E F t i inn w w' \<and> (\<forall>b \<in> set inn. \<not> b_last_buf b) \<and>
     pending_bytes (ctxs w' i) \<le> NGX_HTTP_CORAZA_MAX_DELAYED_BODY"

lemma body_flush_released:
  assumes "holds_chain E F t i inn w v"
    and "(\<exists>b \<in> set inn. b_last_buf b) \<or> pending_bytes (ctxs v i) > NGX_HTTP_CORAZA_MAX_DELAYED_BODY"
  shows "released E F t i inn w (snd (body_flush E i inn' v))"
proof -
  let ?v = "upd_ctx i (\<lambda>c. c\<lparr>headers_delayed := False\<rparr>) v"
  obtain rc r where n: "next_header_filter E (trace v) (req v) = (rc, r)" by fastforce
  have f: "ngx_http_coraza_forward_header E ?v = (rc, emit (Next_header_filter (req v) rc) (upd_req (\<lambda>_. r) ?v))"
    using n by (simp add: ngx_http_coraza_forward_header_def run_next_header_filter_def)
  have "if rc = NGX_ERROR then trace (snd (body_flush E i inn' v)) = trace v @ [Next_header_filter (req v) rc]
      else \<exists>rc'. trace (snd (body_flush E i inn' v)) =
        trace v @ [Next_header_filter (req v) rc, Next_body_filter (pending_chain (ctxs v i)) rc']"
    by (auto simp: body_flush_def f run_next_body_filter_def Let_def split: prod.split)
  moreover have "\<not> headers_delayed (ctxs (snd (body_flush E i inn' v)) i)"
    by (simp add: body_flush_def f run_next_body_filter_def Let_def split: prod.split)
  ultimately show ?thesis using assms unfolding released_def by metis
qed

lemma body_filter_delayed:
  assumes "module_ctx w = Some i" "\<not> intervention_triggered (ctxs w i)" "headers_delayed (ctxs w i)"
    and "\<not> r_error_page (req w)" "inn \<noteq> []" "file_contents E F" "\<forall>b \<in> set inn. good_buf F b"
  defines "w' \<equiv> snd (ngx_http_coraza_body_filter E inn w)" and "t \<equiv> coraza_transaction (ctxs w i)"
  shows "replaced i w w' \<or> released E F t i inn w w' \<or> still_held E F t i inn w w'"
proof -
  obtain res v where l: "body_loop E i [] False inn w = (res, v)" by fastforce
  show ?thesis
  proof (cases res)
    case (Inl x)
    then have "w' = v" using l assms(1,2,5) by (simp add: w'_def ngx_http_coraza_body_filter_def)
    moreover have "replaced i w v"
      using exits_body_loop [OF assms(4), of i E "[]" False inn] l Inl by (simp add: exits_sum_simps)
    ultimately show ?thesis by simp
  next
    case (Inr x)
    obtain inn' proc where x: "x = (inn', proc)" by fastforce
    have h: "holds_chain E F t i inn w v" "proc \<longleftrightarrow> (\<exists>b \<in> set inn. b_last_buf b)"
      using body_loop_Inr [OF l [unfolded Inr x] assms(3,6,7)] t_def by simp_all
    have "headers_delayed (ctxs v i)" using h(1) assms(3) by (simp add: holds_chain_def same_flags_def)
    then have w': "w' = (if proc \<or> pending_bytes (ctxs v i) > NGX_HTTP_CORAZA_MAX_DELAYED_BODY
        then snd (body_flush E i inn' v) else v)"
      using l Inr x assms(1,2,5) by (simp add: w'_def ngx_http_coraza_body_filter_def body_finish_def)
    show ?thesis
      using w' h body_flush_released [OF h(1), of inn'] by (auto simp: still_held_def)
  qed
qed

text \<open>
  What holds of a context as long as its response is held back: the kept buffers
  may be kept, and their content is counted and below the cap.
\<close>

definition held_ok :: "(nat \<Rightarrow> bytes) \<Rightarrow> ngx_http_coraza_ctx \<Rightarrow> bool" where
  "held_ok F c \<longleftrightarrow> (\<forall>b \<in> set (pending_chain c). storable b) \<and>
     pending_bytes c = length (chain_content F (pending_chain c)) \<and>
     pending_bytes c \<le> NGX_HTTP_CORAZA_MAX_DELAYED_BODY"

lemma kept_count:
  assumes "holds_chain E F t i inn w w'" "\<forall>b \<in> set inn. \<not> b_last_buf b"
    and "pending_bytes (ctxs w i) + length (chain_content F inn) < 2 ^ 64"
  shows "pending_bytes (ctxs w' i) = pending_bytes (ctxs w i) + length (chain_content F inn)"
proof -
  have "kept_well inn (ctxs w i) (ctxs w' i) (length (chain_content F inn))"
    using assms(1) by (simp add: holds_chain_def)
  with assms(2,3) have "pending_bytes (ctxs w' i) < 2 ^ 64"
    "pending_bytes (ctxs w' i) mod 2 ^ 64 = (pending_bytes (ctxs w i) + length (chain_content F inn)) mod 2 ^ 64"
    by (simp_all add: kept_well_def)
  then show ?thesis using assms(3) by simp
qed

lemma still_held_ok:
  assumes "still_held E F t i inn w w'" "held_ok F (ctxs w i)" "length (chain_content F inn) < 2 ^ 63"
  shows "held_ok F (ctxs w' i)"
proof -
  have h: "holds_chain E F t i inn w w'" and n: "\<forall>b \<in> set inn. \<not> b_last_buf b"
    and cap: "pending_bytes (ctxs w' i) \<le> NGX_HTTP_CORAZA_MAX_DELAYED_BODY"
    using assms(1) unfolding still_held_def by blast+
  have ok: "\<forall>b \<in> set (pending_chain (ctxs w i)). storable b"
    "pending_bytes (ctxs w i) = length (chain_content F (pending_chain (ctxs w i)))"
    "pending_bytes (ctxs w i) \<le> NGX_HTTP_CORAZA_MAX_DELAYED_BODY"
    using assms(2) unfolding held_ok_def by blast+
  have "pending_bytes (ctxs w i) + length (chain_content F inn) < 2 ^ 64"
    using ok(3) assms(3) by (simp add: NGX_HTTP_CORAZA_MAX_DELAYED_BODY_def)
  from kept_count [OF h n this] have
    "pending_bytes (ctxs w' i) = pending_bytes (ctxs w i) + length (chain_content F inn)" .
  moreover have "chain_content F (pending_chain (ctxs w' i)) =
      chain_content F (pending_chain (ctxs w i)) @ chain_content F inn"
    using h unfolding holds_chain_def by blast
  moreover have "\<forall>b \<in> set (pending_chain (ctxs w' i)). storable b"
    using h n ok(1) unfolding holds_chain_def kept_well_def by blast
  ultimately show ?thesis using ok(2) cap unfolding held_ok_def by simp
qed

lemma released_cause:
  assumes "released E F t i inn w w'"
  shows "\<exists>pre r rc fwd. trace w' = trace w @ pre @ Next_header_filter r rc # fwd \<and>
    (\<forall>e \<in> set pre. \<not> forwards e) \<and>
    (phase4_passed E t (trace w) pre \<or>
     (\<forall>b \<in> set inn. \<not> b_last_buf b) \<and>
     pending_bytes (ctxs w i) + length (chain_content F inn) > NGX_HTTP_CORAZA_MAX_DELAYED_BODY)"
proof -
  from assms obtain v r rc where v: "holds_chain E F t i inn w v"
    "(\<exists>b \<in> set inn. b_last_buf b) \<or> pending_bytes (ctxs v i) > NGX_HTTP_CORAZA_MAX_DELAYED_BODY"
    and e: "\<exists>fwd. trace w' = trace v @ Next_header_filter r rc # fwd"
    unfolding released_def by (metis (full_types) append_Cons)
  from v(1) obtain pre where pre: "trace v = trace w @ pre" "\<forall>e \<in> set pre. holds_back e"
    "(\<exists>b \<in> set inn. b_last_buf b) \<longrightarrow> phase4_passed E t (trace w) pre"
    unfolding holds_chain_def shown_def by blast
  have "phase4_passed E t (trace w) pre \<or> (\<forall>b \<in> set inn. \<not> b_last_buf b) \<and>
     pending_bytes (ctxs w i) + length (chain_content F inn) > NGX_HTTP_CORAZA_MAX_DELAYED_BODY"
  proof (cases "\<exists>b \<in> set inn. b_last_buf b")
    case False
    with v(2) have cap: "pending_bytes (ctxs v i) > NGX_HTTP_CORAZA_MAX_DELAYED_BODY" by blast
    have "pending_bytes (ctxs w i) + length (chain_content F inn) > NGX_HTTP_CORAZA_MAX_DELAYED_BODY"
    proof (rule ccontr)
      assume n: "\<not> ?thesis"
      then have "pending_bytes (ctxs w i) + length (chain_content F inn) < 2 ^ 64"
        by (simp add: NGX_HTTP_CORAZA_MAX_DELAYED_BODY_def)
      from kept_count [OF v(1) _ this] False cap n show False by simp
    qed
    with False show ?thesis by blast
  qed (use pre(3) in blast)
  moreover have "\<forall>e \<in> set pre. \<not> forwards e" using pre(2) by (simp add: holds_back_def)
  ultimately show ?thesis using e pre(1) by (metis append_assoc)
qed

text \<open>
  C4: while the response headers are held back (not for an error page, no earlier
  denial), nothing of the response leaves before phase 4 has passed: if a run of the
  body filter hands anything on, then either the response was replaced by an error
  page or a redirect, or the first thing handed on is the response headers, nothing
  was handed on before them in this run, and by then either phase 4 had been
  evaluated and had not denied, or this chain does not end the body and the content
  kept before together with the content of this chain exceeds the cap.
\<close>

theorem body_filter_waits_for_phase4:
  assumes "module_ctx w = Some i" "\<not> intervention_triggered (ctxs w i)" "headers_delayed (ctxs w i)"
    and "\<not> r_error_page (req w)" "inn \<noteq> []" "file_contents E F" "\<forall>b \<in> set inn. good_buf F b"
    and "ngx_http_coraza_body_filter E inn w = (res, w')"
    and "\<not> adds holds_back w w'"
  shows "replaced i w w' \<or>
    (\<exists>pre r rc fwd. trace w' = trace w @ pre @ Next_header_filter r rc # fwd \<and>
       (\<forall>e \<in> set pre. \<not> forwards e) \<and>
       (phase4_passed E (coraza_transaction (ctxs w i)) (trace w) pre \<or>
        (\<forall>b \<in> set inn. \<not> b_last_buf b) \<and>
        pending_bytes (ctxs w i) + length (chain_content F inn) > NGX_HTTP_CORAZA_MAX_DELAYED_BODY))"
proof -
  let ?t = "coraza_transaction (ctxs w i)"
  have "\<not> still_held E F ?t i inn w w'"
    using assms(9) unfolding still_held_def holds_chain_def shown_def adds_def by blast
  then show ?thesis
    using body_filter_delayed [OF assms(1-7)] assms(8) released_cause [of E F ?t i inn w w'] by auto
qed

text \<open>A held-back response: two buffers, the second one the last.\<close>

definition sample_delayed_world :: world where
  "sample_delayed_world = sample_response_world\<lparr>ctxs := (\<lambda>_. zero_ctx\<lparr>coraza_transaction := 5,
     processed := True, headers_delayed := True, response_body_processable := True\<rparr>)\<rparr>"

definition sample_chain :: "ngx_buf list" where
  "sample_chain = [mem_buf [104, 105], (mem_buf [33])\<lparr>b_last_buf := True\<rparr>]"

definition empty_file_env :: env where
  "empty_file_env = sample_env\<lparr>read_file := (\<lambda>_ _ _ _. None)\<rparr>"

lemmas body_defs =
  ngx_http_coraza_body_filter_def inspect_buf_def inspect_data_def inspect_memory_def body_phase4_def
  body_poll_verdict_def delay_buf_def keep_buf_def copy_buf_def pool_copy_def push_pending_def
  add_pending_bytes_def mark_consumed_def body_finish_def body_flush_def body_next_def returning_def failing_def
  ngx_http_coraza_read_body_data_def ngx_http_coraza_body_chunk_len_def ngx_http_coraza_forward_header_def
  run_next_header_filter_def run_next_body_filter_def palloc_def coraza_wrapper_defs cgo_def
  ngx_http_coraza_poll_after_process_def ngx_http_coraza_process_intervention_def coraza_intervention_def
  ngx_http_coraza_process_body_failed_def ngx_buf_in_memory_def file_backed_def

lemmas sample_body_defs = sample_delayed_world_def sample_response_world_def sample_body_world_def
  sample_chain_def empty_file_env_def mem_buf_def empty_buf_def sample_defs

lemma sample_delayed_hyps:
  "module_ctx sample_delayed_world = Some 0" "\<not> intervention_triggered (ctxs sample_delayed_world 0)"
  "headers_delayed (ctxs sample_delayed_world 0)" "\<not> r_error_page (req sample_delayed_world)"
  "sample_chain \<noteq> []" "file_contents empty_file_env F" "\<forall>b \<in> set sample_chain. good_buf F b"
  by (simp_all add: sample_body_defs file_contents_def good_buf_def)

lemma sample_flush_trace:
  "\<exists>pre. trace (snd (ngx_http_coraza_body_filter empty_file_env sample_chain sample_delayed_world)) =
     pre @ [Next_body_filter [mem_buf [104, 105]\<lparr>b_owner := Request_Pool, b_temporary := False, b_memory := True\<rparr>,
       (mem_buf [33])\<lparr>b_last_buf := True\<rparr>] 0]"
  "\<not> intervention_triggered (ctxs (snd (ngx_http_coraza_body_filter empty_file_env sample_chain sample_delayed_world)) 0)"
  by (simp_all add: body_defs sample_body_defs Let_def)

lemma sample_flush_forwards:
  "\<not> adds holds_back sample_delayed_world
     (snd (ngx_http_coraza_body_filter empty_file_env sample_chain sample_delayed_world))"
proof
  assume "adds holds_back sample_delayed_world
     (snd (ngx_http_coraza_body_filter empty_file_env sample_chain sample_delayed_world))"
  then have "\<forall>e \<in> set (trace (snd (ngx_http_coraza_body_filter empty_file_env sample_chain sample_delayed_world))).
      holds_back e"
    by (auto simp: adds_def sample_delayed_world_def sample_response_world_def sample_body_world_def sample_world_def)
  then show False using sample_flush_trace(1) by (auto simp: holds_back_def)
qed

theorem body_filter_waits_for_phase4_witness:
  "let w' = snd (ngx_http_coraza_body_filter empty_file_env sample_chain sample_delayed_world)
   in \<exists>pre r rc fwd. trace w' = trace sample_delayed_world @ pre @ Next_header_filter r rc # fwd \<and>
       (\<forall>e \<in> set pre. \<not> forwards e) \<and> phase4_passed empty_file_env 5 (trace sample_delayed_world) pre"
proof -
  have t: "coraza_transaction (ctxs sample_delayed_world 0) = 5" by (simp add: sample_delayed_world_def)
  have l: "\<not> (\<forall>b \<in> set sample_chain. \<not> b_last_buf b)" by (simp add: sample_chain_def mem_buf_def empty_buf_def)
  have r: "\<not> replaced 0 sample_delayed_world
      (snd (ngx_http_coraza_body_filter empty_file_env sample_chain sample_delayed_world))"
    using sample_flush_trace(2) by (simp add: replaced_def)
  show ?thesis
    unfolding Let_def
    using body_filter_waits_for_phase4 [OF sample_delayed_hyps(1-5) sample_delayed_hyps(6,7) [of "\<lambda>_. []"]
        prod.collapse [symmetric] sample_flush_forwards] l r
    unfolding t by blast
qed

text \<open>
  C15: when a run of the body filter releases held-back data to the next filter
  (the response is not an error page and no denial came before or in this run, and
  the buffers have the content \<open>F\<close> gives them), nothing is lost and nothing is
  reordered: the chain handed on has the content kept so far followed by the content
  of the chain of this call.  If the engine had said, in the header filter, that the
  body of this response is to be inspected, it has been shown exactly the content of
  this chain in this run; otherwise nothing is claimed of what it was shown.
\<close>

theorem body_filter_release_complete:
  assumes "module_ctx w = Some i" "\<not> intervention_triggered (ctxs w i)" "headers_delayed (ctxs w i)"
    and "\<not> r_error_page (req w)" "inn \<noteq> []" "file_contents E F" "\<forall>b \<in> set inn. good_buf F b"
    and "ngx_http_coraza_body_filter E inn w = (res, w')" and "\<not> intervention_triggered (ctxs w' i)"
    and "trace w' = trace w @ new" and "Next_body_filter out rc \<in> set new"
  shows "chain_content F out = chain_content F (pending_chain (ctxs w i)) @ chain_content F inn \<and>
    (response_body_processable (ctxs w i) \<longrightarrow>
       response_body_seen (coraza_transaction (ctxs w i)) new = chain_content F inn)"
proof -
  let ?t = "coraza_transaction (ctxs w i)"
  have "\<not> replaced i w w'" using assms(9) by (simp add: replaced_def)
  moreover have "\<not> still_held E F ?t i inn w w'"
  proof
    assume "still_held E F ?t i inn w w'"
    then have "\<forall>e \<in> set new. holds_back e"
      using assms(10) by (auto simp: still_held_def holds_chain_def shown_def)
    with assms(11) show False by (auto simp: holds_back_def)
  qed
  ultimately have "released E F ?t i inn w w'" using body_filter_delayed [OF assms(1-7)] assms(8) by simp
  then obtain v r rc1 where v: "holds_chain E F ?t i inn w v"
    and tr: "if rc1 = NGX_ERROR then trace w' = trace v @ [Next_header_filter r rc1]
      else \<exists>rc'. trace w' = trace v @ [Next_header_filter r rc1, Next_body_filter (pending_chain (ctxs v i)) rc']"
    unfolding released_def by blast
  from v obtain pre where pre: "trace v = trace w @ pre" "\<forall>e \<in> set pre. holds_back e"
    "response_body_seen ?t pre = (if response_body_processable (ctxs w i) then chain_content F inn else [])"
    unfolding holds_chain_def shown_def by blast
  have no: "Next_body_filter out rc \<notin> set pre" using pre(2) by (auto simp: holds_back_def)
  have "out = pending_chain (ctxs v i)" "response_body_seen ?t new = response_body_seen ?t pre"
    using tr pre(1) assms(10,11) no by (auto simp: response_chunk_def split: if_splits)
  then show ?thesis using v pre(3) by (simp add: holds_chain_def)
qed

theorem body_filter_release_complete_witness:
  "\<exists>out. Next_body_filter out 0 \<in> set (trace (snd (ngx_http_coraza_body_filter empty_file_env sample_chain
      sample_delayed_world))) \<and> chain_content (\<lambda>_. []) out = [104, 105, 33]"
proof -
  let ?w' = "snd (ngx_http_coraza_body_filter empty_file_env sample_chain sample_delayed_world)"
  have t0: "trace sample_delayed_world = []"
    by (simp add: sample_delayed_world_def sample_response_world_def sample_body_world_def sample_world_def)
  obtain pre out where tr: "trace ?w' = trace sample_delayed_world @ pre @ [Next_body_filter out 0]"
    using sample_flush_trace(1) t0 by auto
  have "chain_content (\<lambda>_. []) out = chain_content (\<lambda>_. []) (pending_chain (ctxs sample_delayed_world 0)) @
      chain_content (\<lambda>_. []) sample_chain"
    using body_filter_release_complete [OF sample_delayed_hyps(1-5) sample_delayed_hyps(6,7)
        prod.collapse [symmetric] sample_flush_trace(2) tr, of out 0 "\<lambda>_. []"] by simp
  then have "chain_content (\<lambda>_. []) out = [104, 105, 33]"
    by (simp add: sample_body_defs buf_content_def ngx_buf_in_memory_def)
  then show ?thesis using tr by auto
qed

text \<open>
  C28: as long as a response is held back, every kept buffer lives in the request
  pool or is a range of a stable file (never storage that its producer may
  reuse), \<open>pending_bytes\<close> counts exactly the kept content, and it never exceeds
  the cap when the filter returns: the memory of a delayed response is bounded.
\<close>

theorem body_filter_held_invariant:
  assumes "module_ctx w = Some i" "\<not> intervention_triggered (ctxs w i)" "headers_delayed (ctxs w i)"
    and "\<not> r_error_page (req w)" "inn \<noteq> []" "file_contents E F" "\<forall>b \<in> set inn. good_buf F b"
    and "length (chain_content F inn) < 2 ^ 63" and "held_ok F (ctxs w i)"
    and "ngx_http_coraza_body_filter E inn w = (res, w')" and "headers_delayed (ctxs w' i)"
  shows "held_ok F (ctxs w' i)"
proof -
  let ?t = "coraza_transaction (ctxs w i)"
  have "\<not> replaced i w w'" "\<not> released E F ?t i inn w w'"
    using assms(11) by (simp_all add: replaced_def released_def)
  then have "still_held E F ?t i inn w w'" using body_filter_delayed [OF assms(1-7)] assms(10) by simp
  then show ?thesis using still_held_ok assms(8,9) by blast
qed

lemma sample_held:
  "headers_delayed (ctxs (snd (ngx_http_coraza_body_filter empty_file_env [mem_buf [104, 105]] sample_delayed_world)) 0)"
  by (simp add: body_defs sample_body_defs Let_def NGX_HTTP_CORAZA_MAX_DELAYED_BODY_def)

theorem body_filter_held_invariant_witness:
  "held_ok (\<lambda>_. []) (ctxs (snd (ngx_http_coraza_body_filter empty_file_env [mem_buf [104, 105]] sample_delayed_world)) 0)"
  by (rule body_filter_held_invariant [OF sample_delayed_hyps(1-4) _ sample_delayed_hyps(6) _ _ _
        prod.collapse [symmetric] sample_held])
    (simp_all add: sample_body_defs good_buf_def held_ok_def buf_content_def ngx_buf_in_memory_def)

text \<open>
  C29: a refusal of the engine, of a body chunk or of phase 4, while the headers
  are held back, always ends in the replacement of the response: no byte of a
  response the engine did not take is handed on.
\<close>

theorem body_filter_refusal_replaces:
  assumes "module_ctx w = Some i" "\<not> intervention_triggered (ctxs w i)" "headers_delayed (ctxs w i)"
    and "\<not> r_error_page (req w)" "inn \<noteq> []" "file_contents E F" "\<forall>b \<in> set inn. good_buf F b"
    and "ngx_http_coraza_body_filter E inn w = (res, w')"
    and "trace w' = trace w @ new" and "e \<in> set new" and "response_refused e"
  shows "replaced i w w'"
proof -
  let ?t = "coraza_transaction (ctxs w i)"
  have no: False if "holds_chain E F ?t i inn w v" "trace v = trace w @ pre" "e \<in> set pre" for v pre
    using that assms(11) by (auto simp: holds_chain_def shown_def)
  have "\<not> still_held E F ?t i inn w w'" using no assms(9,10) by (auto simp: still_held_def)
  moreover have "\<not> released E F ?t i inn w w'"
  proof
    assume "released E F ?t i inn w w'"
    then obtain v r rc where v: "holds_chain E F ?t i inn w v"
      and tr: "if rc = NGX_ERROR then trace w' = trace v @ [Next_header_filter r rc]
        else \<exists>rc'. trace w' = trace v @ [Next_header_filter r rc, Next_body_filter (pending_chain (ctxs v i)) rc']"
      unfolding released_def by blast
    from v obtain pre where pre: "trace v = trace w @ pre" unfolding holds_chain_def shown_def by blast
    have "e \<in> set pre" using tr pre assms(9-11) by (auto split: if_splits)
    with no [OF v pre] show False .
  qed
  ultimately show ?thesis using body_filter_delayed [OF assms(1-7)] assms(8) by simp
qed

text \<open>An engine that takes no response chunk.\<close>

definition refusing_env :: env where
  "refusing_env = empty_file_env\<lparr>eng := (\<lambda>_ _ c. case c of Append_response_body _ _ \<Rightarrow> 1 | _ \<Rightarrow> 0)\<rparr>"

lemma sample_refused:
  "trace (snd (ngx_http_coraza_body_filter refusing_env sample_chain sample_delayed_world)) =
     trace sample_delayed_world @ [Eng 5 (Append_response_body [104, 105] 2) 1, Filter_finalize 500 500]"
  by (simp add: body_defs sample_body_defs refusing_env_def Let_def ngx_http_coraza_body_filter_finalize_def
      ngx_http_coraza_is_redirect_status_def ngx_http_filter_finalize_request_def)

theorem body_filter_refusal_replaces_witness:
  "replaced 0 sample_delayed_world (snd (ngx_http_coraza_body_filter refusing_env sample_chain sample_delayed_world))"
proof (rule body_filter_refusal_replaces [OF sample_delayed_hyps(1-5) _ sample_delayed_hyps(7)
      prod.collapse [symmetric] sample_refused, where e = "Eng 5 (Append_response_body [104, 105] 2) 1"])
  show "file_contents refusing_env (\<lambda>_. [])" by (simp add: file_contents_def refusing_env_def empty_file_env_def)
qed simp_all

text \<open>
  After a denial that was answered with a redirect without body, every later
  chain is swallowed: it is marked consumed, so that its producer goes on, and
  nothing of it is handed on or shown to the engine.
\<close>

lemma body_filter_swallows:
  assumes "module_ctx w = Some i" and "intervention_triggered (ctxs w i)" and "r_header_only (req w)"
    and "inn \<noteq> []"
  shows "ngx_http_coraza_body_filter E inn w = ((NGX_OK, map consume_buf inn), w) \<and>
    (\<forall>b \<in> set (map consume_buf inn). ngx_http_coraza_body_chunk_len b = 0)"
  using assms
  by (auto simp: ngx_http_coraza_body_filter_def ngx_http_coraza_body_filter_consume_def consume_buf_def
      ngx_http_coraza_body_chunk_len_def)

end
