(* ===== verification/Process.thy ===== *)
theory Process
  imports Base
begin

text \<open>
  The state of a process outside any request: the configuration of a cycle and
  the dynamic library.  The configuration lives in an explicit store, because the
  code compares and shares pointers: location configurations and rules arrays
  have addresses (address 0 is NULL), and a location may point to the array of
  its parent.

  As for requests, what is outside the sources (the nginx core, the file system,
  the dynamic loader, libcoraza) is a record of functions of the history of
  external events, so that any behaviour is covered.

  \<open>engine\<close> reads off such a history which configurations and WAFs libcoraza
  holds, what rules each contains, and whether a handle was ever used or freed
  when it was not live.
\<close>

section \<open>External events\<close>

datatype proc_event =
    Conf_alloc bool
  | Full_name ngx_str "ngx_str option"
  | Conf_open ngx_str bool
  | Conf_read ngx_str nat "bytes option"
  | Conf_close ngx_str
  | Compile_complex_value ngx_str "nat option"
  | Dl_open string bool
  | Dl_sym string bool
  | Dl_close
  | Dl_version int
  | New_waf_config nat
  | Rules_add nat ngx_str int
  | Rules_add_file nat ngx_str int
  | New_waf nat waf bool  \<comment> \<open>the flag: an error string was returned\<close>
  | Free_waf_config nat
  | Free_string
  | Rules_count waf int
  | Free_waf waf

record penv =
  conf_alloc :: "proc_event list \<Rightarrow> bool"
  conf_full_name :: "proc_event list \<Rightarrow> ngx_str \<Rightarrow> ngx_str option"
  conf_open :: "proc_event list \<Rightarrow> ngx_str \<Rightarrow> bool"
  conf_read :: "proc_event list \<Rightarrow> ngx_str \<Rightarrow> nat \<Rightarrow> nat \<Rightarrow> bytes option"
  conf_compile :: "proc_event list \<Rightarrow> ngx_str \<Rightarrow> nat option"
  dlopen :: "proc_event list \<Rightarrow> string \<Rightarrow> bool"
  dlsym :: "proc_event list \<Rightarrow> string \<Rightarrow> bool"
  eng_version_num :: "proc_event list \<Rightarrow> int"
  eng_new_waf_config :: "proc_event list \<Rightarrow> nat"
  eng_rules_add :: "proc_event list \<Rightarrow> nat \<Rightarrow> ngx_str \<Rightarrow> int"
  eng_rules_add_file :: "proc_event list \<Rightarrow> nat \<Rightarrow> ngx_str \<Rightarrow> int"
  eng_new_waf :: "proc_event list \<Rightarrow> nat \<Rightarrow> waf \<times> bool"
  eng_rules_count :: "proc_event list \<Rightarrow> waf \<Rightarrow> int"
  log_notice :: "proc_event list \<Rightarrow> bool"  \<comment> \<open>the log takes notices\<close>

section \<open>The state\<close>

record ngx_http_coraza_main_conf =
  mc_waf :: waf
  mc_rules :: nat
  mc_loc_confs :: "nat list"
  mc_rules_inline :: nat
  mc_rules_file :: nat
  mc_rules_remote :: nat

text \<open>
  \<open>cy_main\<close> is the main configuration, or NULL; \<open>cy_http\<close> is the location
  configuration of the \<open>http\<close> block, which is what \<open>ngx_http_conf_get_module_loc_conf\<close>
  gives when the module is initialised.  \<open>dl_handle\<close> says whether the library is
  open and \<open>dl_ptrs\<close> which function pointers are set.
\<close>

record cycle =
  cy_main :: "ngx_http_coraza_main_conf option"
  cy_http :: "nat option"
  cy_confs :: "nat \<Rightarrow> ngx_http_coraza_conf"
  cy_arrays :: "nat \<Rightarrow> ngx_http_coraza_rule_entry list"
  cy_next_conf :: nat
  cy_next_array :: nat
  dl_handle :: bool
  dl_ptrs :: "string \<Rightarrow> bool"
  cy_trace :: "proc_event list"

definition pemit :: "proc_event \<Rightarrow> cycle \<Rightarrow> cycle" where
  "pemit e y = y\<lparr>cy_trace := cy_trace y @ [e]\<rparr>"

definition upd_conf :: "nat \<Rightarrow> (ngx_http_coraza_conf \<Rightarrow> ngx_http_coraza_conf) \<Rightarrow> cycle \<Rightarrow> cycle" where
  "upd_conf c f y = y\<lparr>cy_confs := (cy_confs y)(c := f (cy_confs y c))\<rparr>"

definition upd_main ::
  "(ngx_http_coraza_main_conf \<Rightarrow> ngx_http_coraza_main_conf) \<Rightarrow> cycle \<Rightarrow> cycle" where
  "upd_main f y = y\<lparr>cy_main := map_option f (cy_main y)\<rparr>"

lemma pemit_sel [simp]:
  "cy_main (pemit e y) = cy_main y" "cy_http (pemit e y) = cy_http y" "cy_confs (pemit e y) = cy_confs y"
  "cy_arrays (pemit e y) = cy_arrays y" "cy_next_conf (pemit e y) = cy_next_conf y"
  "cy_next_array (pemit e y) = cy_next_array y" "dl_handle (pemit e y) = dl_handle y"
  "dl_ptrs (pemit e y) = dl_ptrs y" "cy_trace (pemit e y) = cy_trace y @ [e]"
  by (simp_all add: pemit_def)

lemma upd_conf_sel [simp]:
  "cy_main (upd_conf c f y) = cy_main y" "cy_http (upd_conf c f y) = cy_http y"
  "cy_confs (upd_conf c f y) = (cy_confs y)(c := f (cy_confs y c))"
  "cy_arrays (upd_conf c f y) = cy_arrays y" "cy_next_conf (upd_conf c f y) = cy_next_conf y"
  "cy_next_array (upd_conf c f y) = cy_next_array y" "dl_handle (upd_conf c f y) = dl_handle y"
  "dl_ptrs (upd_conf c f y) = dl_ptrs y" "cy_trace (upd_conf c f y) = cy_trace y"
  by (simp_all add: upd_conf_def)

lemma upd_main_sel [simp]:
  "cy_main (upd_main g y) = map_option g (cy_main y)" "cy_http (upd_main g y) = cy_http y"
  "cy_confs (upd_main g y) = cy_confs y"
  "cy_arrays (upd_main g y) = cy_arrays y" "cy_next_conf (upd_main g y) = cy_next_conf y"
  "cy_next_array (upd_main g y) = cy_next_array y" "dl_handle (upd_main g y) = dl_handle y"
  "dl_ptrs (upd_main g y) = dl_ptrs y" "cy_trace (upd_main g y) = cy_trace y"
  by (simp_all add: upd_main_def)

text \<open>An allocation from the configuration pool or from the heap.\<close>

definition cf_palloc :: "penv \<Rightarrow> cycle \<Rightarrow> bool \<times> cycle" where
  "cf_palloc P y = (let b = conf_alloc P (cy_trace y) in (b, pemit (Conf_alloc b) y))"

lemma cf_palloc_eq: "cf_palloc P y = (conf_alloc P (cy_trace y), pemit (Conf_alloc (conf_alloc P (cy_trace y))) y)"
  by (simp add: cf_palloc_def Let_def)

text \<open>\<open>ngx_array_create\<close> and \<open>ngx_array_push\<close> on the store of rules arrays.\<close>

definition array_create :: "penv \<Rightarrow> cycle \<Rightarrow> nat option \<times> cycle" where
  "array_create P y =
     (let (ok, y) = cf_palloc P y
      in if \<not> ok then (None, y)
         else let a = Suc (cy_next_array y)
              in (Some a, y\<lparr>cy_next_array := a, cy_arrays := (cy_arrays y)(a := [])\<rparr>))"

definition array_append ::
  "nat \<Rightarrow> ngx_http_coraza_rule_entry list \<Rightarrow> cycle \<Rightarrow> cycle" where
  "array_append a es y = y\<lparr>cy_arrays := (cy_arrays y)(a := cy_arrays y a @ es)\<rparr>"

lemma array_append_sel [simp]:
  "cy_main (array_append a es y) = cy_main y" "cy_http (array_append a es y) = cy_http y"
  "cy_confs (array_append a es y) = cy_confs y"
  "cy_arrays (array_append a es y) = (cy_arrays y)(a := cy_arrays y a @ es)"
  "cy_next_conf (array_append a es y) = cy_next_conf y"
  "cy_next_array (array_append a es y) = cy_next_array y" "dl_handle (array_append a es y) = dl_handle y"
  "dl_ptrs (array_append a es y) = dl_ptrs y" "cy_trace (array_append a es y) = cy_trace y"
  by (simp_all add: array_append_def)

section \<open>What libcoraza holds\<close>

type_synonym rule_text = "(ngx_http_coraza_rule_type \<times> ngx_str) list"

record engine_state =
  es_configs :: "nat \<rightharpoonup> rule_text"
  es_wafs :: "waf \<rightharpoonup> rule_text"
  es_bad :: bool  \<comment> \<open>a handle was used or freed while it was not live\<close>

definition add_rule ::
  "nat \<Rightarrow> ngx_http_coraza_rule_type \<Rightarrow> ngx_str \<Rightarrow> int \<Rightarrow> engine_state \<Rightarrow> engine_state" where
  "add_rule c ty s rc e =
     (case es_configs e c of
        None \<Rightarrow> e\<lparr>es_bad := True\<rparr>
      | Some rs \<Rightarrow> if rc < 0 then e else e\<lparr>es_configs := (es_configs e)(c \<mapsto> rs @ [(ty, s)])\<rparr>)"

fun engine_step :: "proc_event \<Rightarrow> engine_state \<Rightarrow> engine_state" where
  "engine_step (New_waf_config c) e = (if c = 0 then e else e\<lparr>es_configs := (es_configs e)(c \<mapsto> [])\<rparr>)"
| "engine_step (Rules_add c s rc) e = add_rule c NGX_CORAZA_RULE_INLINE s rc e"
| "engine_step (Rules_add_file c s rc) e = add_rule c NGX_CORAZA_RULE_FILE s rc e"
| "engine_step (New_waf c v err) e =
     (case es_configs e c of
        None \<Rightarrow> e\<lparr>es_bad := True\<rparr>
      | Some rs \<Rightarrow> if v = 0 then e else e\<lparr>es_wafs := (es_wafs e)(v \<mapsto> rs)\<rparr>)"
| "engine_step (Free_waf_config c) e =
     (if es_configs e c = None then e\<lparr>es_bad := True\<rparr> else e\<lparr>es_configs := (es_configs e)(c := None)\<rparr>)"
| "engine_step (Rules_count v n) e = (if es_wafs e v = None then e\<lparr>es_bad := True\<rparr> else e)"
| "engine_step (Free_waf v) e =
     (if es_wafs e v = None then e\<lparr>es_bad := True\<rparr> else e\<lparr>es_wafs := (es_wafs e)(v := None)\<rparr>)"
| "engine_step _ e = e"

text \<open>The state before the first call, and after everything has been freed in order.\<close>

definition no_engine :: engine_state where
  "no_engine = \<lparr>es_configs = Map.empty, es_wafs = Map.empty, es_bad = False\<rparr>"

definition engine :: "proc_event list \<Rightarrow> engine_state" where
  "engine tr = fold engine_step tr no_engine"

text \<open>
  What the module relies on: the handle of a new configuration or WAF is null or
  not the handle of a live one.
\<close>

definition fresh_handles :: "penv \<Rightarrow> bool" where
  "fresh_handles P \<longleftrightarrow>
     (\<forall>tr. es_configs (engine tr) (eng_new_waf_config P tr) = None) \<and>
     (\<forall>tr c. es_wafs (engine tr) (fst (eng_new_waf P tr c)) = None)"

lemma engine_Nil [simp]: "engine [] = no_engine"
  by (simp add: engine_def)

lemma no_engine_sel [simp]: "es_configs no_engine = Map.empty" "es_wafs no_engine = Map.empty" "\<not> es_bad no_engine"
  by (simp_all add: no_engine_def)

lemma engine_append [simp]: "engine (tr @ es) = fold engine_step es (engine tr)"
  by (simp add: engine_def)

text \<open>The null handle is never live.\<close>

lemma add_rule_null: "es_configs e 0 = None \<Longrightarrow> es_configs (add_rule c ty s rc e) 0 = None"
  by (auto simp: add_rule_def split: option.splits)

lemma add_rule_wafs [simp]: "es_wafs (add_rule c ty s rc e) = es_wafs e"
  by (simp add: add_rule_def split: option.splits)

lemma engine_null: "es_configs (engine tr) 0 = None \<and> es_wafs (engine tr) 0 = None"
proof (induction tr rule: rev_induct)
  case (snoc e tr)
  then show ?case by (cases e) (auto simp: add_rule_null split: option.splits)
qed simp

section \<open>Sample environment\<close>

text \<open>
  For witnesses: every allocation succeeds, every file holds the same text and is
  read five bytes at a time, and a new handle is larger than all handles in the history.  The cycle has the configuration of
  the \<open>http\<close> block (1), with a rule, and those of two servers (2 and 3), the first
  of them with a rule of its own, not yet merged.
\<close>

definition sample_text :: bytes where
  "sample_text = ngx_string ''SecRemoteRules x''"

definition largest_handle :: "proc_event list \<Rightarrow> nat" where
  "largest_handle tr =
     sum_list (map (\<lambda>e. case e of New_waf_config c \<Rightarrow> c | New_waf c v err \<Rightarrow> v | _ \<Rightarrow> 0) tr)"

definition sample_penv :: penv where
  "sample_penv = \<lparr>conf_alloc = (\<lambda>_. True), conf_full_name = (\<lambda>_ p. Some p), conf_open = (\<lambda>_ _. True),
     conf_read = (\<lambda>_ _ _ off. Some (take 5 (drop off sample_text))), conf_compile = (\<lambda>_ _. Some 1),
     dlopen = (\<lambda>_ _. True), dlsym = (\<lambda>_ _. True), eng_version_num = (\<lambda>_. 10700),
     eng_new_waf_config = (\<lambda>tr. Suc (largest_handle tr)), eng_rules_add = (\<lambda>_ _ _. 0),
     eng_rules_add_file = (\<lambda>_ _ _. 0), eng_new_waf = (\<lambda>tr _. (Suc (largest_handle tr), False)),
     eng_rules_count = (\<lambda>_ _. 1), log_notice = (\<lambda>_. True)\<rparr>"

definition empty_conf :: "nat \<Rightarrow> ngx_http_coraza_conf" where
  "empty_conf a = \<lparr>lc_waf = 0, lc_rules = a, lc_waf_owner = False, lc_enable = NGX_CONF_UNSET,
     lc_has_rules = False, lc_delay_response_headers = NGX_CONF_UNSET, lc_transaction_id = Cv_Unset\<rparr>"

definition sample_rule :: "u_char \<Rightarrow> ngx_http_coraza_rule_entry" where
  "sample_rule b = \<lparr>re_type = NGX_CORAZA_RULE_INLINE, re_value = [b]\<rparr>"

definition sample_cycle :: cycle where
  "sample_cycle = \<lparr>
     cy_main = Some \<lparr>mc_waf = 0, mc_rules = 1, mc_loc_confs = [], mc_rules_inline = 2, mc_rules_file = 0,
       mc_rules_remote = 0\<rparr>,
     cy_http = Some 1,
     cy_confs = (\<lambda>c. empty_conf (Suc c))
       (1 := (empty_conf 2)\<lparr>lc_has_rules := True, lc_enable := 1\<rparr>, 2 := (empty_conf 3)\<lparr>lc_has_rules := True\<rparr>),
     cy_arrays = (\<lambda>_. [])(2 := [sample_rule 65], 3 := [sample_rule 66]),
     cy_next_conf = 3, cy_next_array = 4, dl_handle = False, dl_ptrs = (\<lambda>_. False), cy_trace = []\<rparr>"

lemmas sample_proc_defs = sample_penv_def sample_cycle_def sample_rule_def empty_conf_def

lemma largest_handle_snoc [simp]:
  "largest_handle [] = 0"
  "largest_handle (tr @ [e]) = largest_handle tr + (case e of New_waf_config c \<Rightarrow> c | New_waf c v err \<Rightarrow> v | _ \<Rightarrow> 0)"
  by (simp_all add: largest_handle_def)

lemma live_handles_bounded:
  "(es_configs (engine tr) c \<noteq> None \<longrightarrow> c \<le> largest_handle tr) \<and>
   (es_wafs (engine tr) v \<noteq> None \<longrightarrow> v \<le> largest_handle tr)"
proof (induction tr rule: rev_induct)
  case (snoc e tr)
  then show ?case
    by (cases e) (auto simp: add_rule_def split: option.splits if_splits)
qed simp

lemma fresh_handles_sample: "fresh_handles sample_penv"
  using live_handles_bounded by (fastforce simp: fresh_handles_def sample_penv_def)

end
