(* ===== verification/Rules_Scan.thy ===== *)
theory Rules_Scan
  imports Base
begin

text \<open>
  The configuration-time scan of rule text for directives the engine refuses
  (\<open>src/src/ngx_http_coraza_module.c\<close>, \<open>ngx_http_coraza_rules_scan*\<close>): a byte
  machine with bounded state that is fed one chunk after the other.

  The reference, \<open>seclang_refused\<close>, works the way the comment above the machine
  describes the parser of the engine: on whole lines, which are trimmed and
  assembled into records of any length.  The machine is proved to compute the
  reference on every text without NUL bytes in which no continuation backslash
  is followed by blanks; the second condition is needed, and a text that
  violates it is given.
\<close>

section \<open>The scanner\<close>

definition ngx_http_coraza_unsupported_directives :: "ngx_str list" where
  "ngx_http_coraza_unsupported_directives = [ngx_string ''SecRemoteRules'']"

text \<open>
  \<open>ngx_http_coraza_rules_scan_t\<close>.  \<open>sc_word\<close> is the part of \<open>word[32]\<close> in use, so
  \<open>wlen\<close> is its length; the counters are unbounded.
\<close>

record ngx_http_coraza_rules_scan_t =
  sc_line :: nat
  sc_rec_line :: nat
  sc_in_record :: bool
  sc_in_backticks :: bool
  sc_word_done :: bool
  sc_first :: u_char
  sc_last :: u_char
  sc_word :: bytes

definition ngx_http_coraza_rules_scan_init :: ngx_http_coraza_rules_scan_t where
  "ngx_http_coraza_rules_scan_init = \<lparr>sc_line = 1, sc_rec_line = 0, sc_in_record = False,
     sc_in_backticks = False, sc_word_done = False, sc_first = 0, sc_last = 0, sc_word = []\<rparr>"

definition ngx_strncasecmp_eq :: "bytes \<Rightarrow> bytes \<Rightarrow> nat \<Rightarrow> bool" where
  "ngx_strncasecmp_eq a b n \<longleftrightarrow> map ngx_tolower (take n a) = map ngx_tolower (take n b)"

definition ngx_http_coraza_rules_scan_word :: "ngx_http_coraza_rules_scan_t \<Rightarrow> ngx_str option" where
  "ngx_http_coraza_rules_scan_word s =
     find (\<lambda>d. length (sc_word s) = length d \<and> ngx_strncasecmp_eq (sc_word s) d (length (sc_word s)))
       ngx_http_coraza_unsupported_directives"

definition ngx_http_coraza_rules_scan_eol ::
  "ngx_http_coraza_rules_scan_t \<Rightarrow> ngx_str option \<times> ngx_http_coraza_rules_scan_t" where
  "ngx_http_coraza_rules_scan_eol s =
     (if sc_first s = 0 \<or> sc_first s = of_char CHR ''#'' then
        (None, s\<lparr>sc_first := 0, sc_last := 0\<rparr>)
      else
        let s = (if \<not> sc_in_backticks s \<and> sc_last s = of_char CHR 0x60 then s\<lparr>sc_in_backticks := True\<rparr>
                 else if sc_in_backticks s \<and> sc_first s = of_char CHR 0x60
                 then s\<lparr>sc_in_backticks := False\<rparr> else s);
            (cont, s) =
              (if sc_in_backticks s then (True, s)
               else if sc_last s = of_char CHR 0x5c then
                 (True, if \<not> sc_word_done s \<and> sc_word s \<noteq> [] \<and> last (sc_word s) = of_char CHR 0x5c
                        then s\<lparr>sc_word := butlast (sc_word s)\<rparr> else s)
               else (False, s));
            s = s\<lparr>sc_first := 0, sc_last := 0\<rparr>
        in if cont then (None, s)
           else (ngx_http_coraza_rules_scan_word s,
                 s\<lparr>sc_in_record := False, sc_word_done := False, sc_word := []\<rparr>))"

definition blank :: "u_char \<Rightarrow> bool" where
  "blank c \<longleftrightarrow> c = 0x20 \<or> c = 0x09 \<or> c = 0x0d \<or> c = 0x0b \<or> c = 0x0c"

text \<open>The body of the byte loop for a byte that is not a newline.\<close>

definition rules_scan_byte :: "u_char \<Rightarrow> ngx_http_coraza_rules_scan_t \<Rightarrow> ngx_http_coraza_rules_scan_t" where
  "rules_scan_byte c s =
     (if blank c then
        (if sc_first s \<noteq> 0 \<and> sc_first s \<noteq> of_char CHR ''#'' \<and> sc_word s \<noteq> []
         then s\<lparr>sc_word_done := True\<rparr> else s)
      else
        let s = (if sc_first s = 0 then
                   (let s = s\<lparr>sc_first := c\<rparr>
                    in if c \<noteq> of_char CHR ''#'' \<and> \<not> sc_in_record s
                       then s\<lparr>sc_in_record := True, sc_rec_line := sc_line s\<rparr> else s)
                 else s);
            s = s\<lparr>sc_last := c\<rparr>
        in if sc_first s = of_char CHR ''#'' \<or> sc_word_done s then s
           else if length (sc_word s) < 32 then s\<lparr>sc_word := sc_word s @ [c]\<rparr>
           else s\<lparr>sc_word := [], sc_word_done := True\<rparr>)"

fun ngx_http_coraza_rules_scan ::
  "ngx_http_coraza_rules_scan_t \<Rightarrow> bytes \<Rightarrow> ngx_str option \<times> ngx_http_coraza_rules_scan_t" where
  "ngx_http_coraza_rules_scan s [] = (None, s)"
| "ngx_http_coraza_rules_scan s (c # cs) =
     (if c = 0x0a then
        (case ngx_http_coraza_rules_scan_eol s of
           (Some bad, s) \<Rightarrow> (Some bad, s)
         | (None, s) \<Rightarrow> ngx_http_coraza_rules_scan (s\<lparr>sc_line := sc_line s + 1\<rparr>) cs)
      else ngx_http_coraza_rules_scan (rules_scan_byte c s) cs)"

definition ngx_http_coraza_rules_scan_done ::
  "ngx_http_coraza_rules_scan_t \<Rightarrow> ngx_str option \<times> ngx_http_coraza_rules_scan_t" where
  "ngx_http_coraza_rules_scan_done s =
     (case ngx_http_coraza_rules_scan_eol s of
        (Some bad, s) \<Rightarrow> (Some bad, s)
      | (None, s) \<Rightarrow>
          (if sc_in_backticks s then ngx_http_coraza_rules_scan_word s else None, s))"

text \<open>The sequence both directives run: all the text, then the end of the input.\<close>

definition rules_scan_all ::
  "ngx_http_coraza_rules_scan_t \<Rightarrow> bytes \<Rightarrow> ngx_str option \<times> ngx_http_coraza_rules_scan_t" where
  "rules_scan_all s bs =
     (case ngx_http_coraza_rules_scan s bs of
        (Some bad, s) \<Rightarrow> (Some bad, s)
      | (None, s) \<Rightarrow> ngx_http_coraza_rules_scan_done s)"

section \<open>The reference: records assembled from whole lines\<close>

fun text_lines :: "bytes \<Rightarrow> bytes list" where
  "text_lines [] = [[]]"
| "text_lines (c # cs) =
     (if c = 0x0a then [] # text_lines cs
      else (case text_lines cs of [] \<Rightarrow> [[c]] | l # ls \<Rightarrow> (c # l) # ls))"

definition trim :: "bytes \<Rightarrow> bytes" where
  "trim l = rev (dropWhile blank (rev (dropWhile blank l)))"

definition first_word :: "bytes \<Rightarrow> bytes" where
  "first_word = takeWhile (\<lambda>c. \<not> blank c)"

definition refused_directive :: "bytes \<Rightarrow> ngx_str option" where
  "refused_directive r =
     find (\<lambda>d. map ngx_tolower (first_word r) = map ngx_tolower d) ngx_http_coraza_unsupported_directives"

text \<open>
  \<open>ln\<close> is the number of the next line; \<open>opened\<close> is the line where the record
  being assembled started, if there is one; \<open>bt\<close> says that its action list is
  open and \<open>rec\<close> is what it has so far.  The result is the first refused
  directive and the line where its record starts.
\<close>

fun seclang_records :: "nat \<Rightarrow> nat option \<Rightarrow> bool \<Rightarrow> bytes \<Rightarrow> bytes list \<Rightarrow> (ngx_str \<times> nat) option" where
  "seclang_records ln opened bt rec [] =
     (if bt then map_option (\<lambda>d. (d, the opened)) (refused_directive rec) else None)"
| "seclang_records ln opened bt rec (l # ls) =
     (let t = trim l in
      if t = [] \<or> hd t = of_char CHR ''#'' then seclang_records (ln + 1) opened bt rec ls
      else
        let start = (case opened of None \<Rightarrow> ln | Some n \<Rightarrow> n);
            bt = (if bt then hd t \<noteq> of_char CHR 0x60 else last t = of_char CHR 0x60)
        in if bt then seclang_records (ln + 1) (Some start) True (rec @ t) ls
           else if last t = of_char CHR 0x5c
           then seclang_records (ln + 1) (Some start) False (rec @ butlast t) ls
           else (case refused_directive (rec @ t) of
                   Some d \<Rightarrow> Some (d, start)
                 | None \<Rightarrow> seclang_records (ln + 1) None False [] ls))"

definition seclang_refused :: "bytes \<Rightarrow> (ngx_str \<times> nat) option" where
  "seclang_refused bs = seclang_records 1 None False [] (text_lines bs)"

text \<open>No line whose trimmed text ends in a backslash has blanks after it.\<close>

definition clean_continuation :: "bytes \<Rightarrow> bool" where
  "clean_continuation l \<longleftrightarrow> trim l = [] \<or> last (trim l) \<noteq> of_char CHR 0x5c \<or> \<not> blank (last l)"

definition scannable :: "bytes \<Rightarrow> bool" where
  "scannable bs \<longleftrightarrow> 0 \<notin> set bs \<and> (\<forall>l \<in> set (text_lines bs). clean_continuation l)"

text \<open>
  The steps between the two: the machine run line by line, what is reported of a
  run, and the collection of the first word on its own.
\<close>

definition report :: "ngx_str option \<times> ngx_http_coraza_rules_scan_t \<Rightarrow> (ngx_str \<times> nat) option" where
  "report p = map_option (\<lambda>d. (d, sc_rec_line (snd p))) (fst p)"

fun scan_lines ::
  "ngx_http_coraza_rules_scan_t \<Rightarrow> bytes list \<Rightarrow> ngx_str option \<times> ngx_http_coraza_rules_scan_t" where
  "scan_lines s [] = (if sc_in_backticks s then ngx_http_coraza_rules_scan_word s else None, s)"
| "scan_lines s (l # ls) =
     (case ngx_http_coraza_rules_scan_eol (fold rules_scan_byte l s) of
        (Some bad, s) \<Rightarrow> (Some bad, s)
      | (None, s) \<Rightarrow> scan_lines (s\<lparr>sc_line := sc_line s + 1\<rparr>) ls)"

definition feed :: "u_char \<Rightarrow> bool \<times> bytes \<Rightarrow> bool \<times> bytes" where
  "feed c p = (case p of (wd, wrd) \<Rightarrow>
     if blank c then (wd \<or> wrd \<noteq> [], wrd)
     else if wd then (wd, wrd)
     else if length wrd < 32 then (wd, wrd @ [c])
     else (True, []))"

text \<open>
  The word of the machine follows the record: either it is what feeding the
  record gives, or both sides are beyond any directive.
\<close>

definition follows :: "bool \<times> bytes \<Rightarrow> bytes \<Rightarrow> bool" where
  "follows p rec \<longleftrightarrow>
     p = fold feed rec (False, []) \<or>
     (of_char CHR 0x60 \<in> set (first_word rec) \<or> length (first_word rec) \<ge> 32) \<and>
     (of_char CHR 0x60 \<in> set (snd p) \<or> p = (True, []))"

definition simulates ::
  "ngx_http_coraza_rules_scan_t \<Rightarrow> nat \<Rightarrow> nat option \<Rightarrow> bool \<Rightarrow> bytes \<Rightarrow> bool" where
  "simulates s ln opened bt rec \<longleftrightarrow>
     sc_first s = 0 \<and> sc_last s = 0 \<and> sc_line s = ln \<and> sc_in_backticks s = bt \<and>
     sc_in_record s = (opened \<noteq> None) \<and> (\<forall>n. opened = Some n \<longrightarrow> sc_rec_line s = n) \<and>
     (bt \<longrightarrow> opened \<noteq> None \<and> of_char CHR 0x60 \<in> set rec) \<and> (rec = [] \<or> \<not> blank (hd rec)) \<and>
     follows (sc_word_done s, sc_word s) rec"

section \<open>Chunks\<close>

lemma rules_scan_append:
  "ngx_http_coraza_rules_scan s (a @ b) =
     (case ngx_http_coraza_rules_scan s a of
        (Some bad, s') \<Rightarrow> (Some bad, s')
      | (None, s') \<Rightarrow> ngx_http_coraza_rules_scan s' b)"
  by (induction s a rule: ngx_http_coraza_rules_scan.induct) (auto split: option.splits prod.splits)

section \<open>Lines\<close>

lemma text_lines_ne [simp]: "text_lines bs \<noteq> []"
  by (cases bs) (auto split: list.splits)

lemma text_lines_cons: "text_lines cs = l # ls \<Longrightarrow> c \<noteq> 0x0a \<Longrightarrow> text_lines (c # cs) = (c # l) # ls"
  by simp

lemma set_text_lines: "l \<in> set (text_lines bs) \<Longrightarrow> set l \<subseteq> set bs"
proof (induction bs arbitrary: l)
  case (Cons c cs)
  obtain h t where ht: "text_lines cs = h # t" by (cases "text_lines cs") auto
  then show ?case using Cons by (fastforce split: if_splits)
qed simp

lemma report_scan_lines:
  "report (rules_scan_all s bs) = report (scan_lines s (text_lines bs))"
proof (induction bs arbitrary: s)
  case Nil
  show ?case
    by (auto simp: rules_scan_all_def ngx_http_coraza_rules_scan_done_def report_def
        ngx_http_coraza_rules_scan_word_def split: option.splits prod.splits)
next
  case (Cons c cs)
  obtain h t where ht: "text_lines cs = h # t" by (cases "text_lines cs") auto
  show ?case
  proof (cases "c = 0x0a")
    case True
    then show ?thesis
      using Cons.IH by (auto simp: rules_scan_all_def split: option.splits prod.splits)
  next
    case False
    then show ?thesis using Cons.IH [of "rules_scan_byte c s"] ht by (simp add: rules_scan_all_def)
  qed
qed

lemma trim_split:
  obtains a z where "l = a @ trim l @ z" "\<forall>c \<in> set a. blank c" "\<forall>c \<in> set z. blank c"
proof
  define m where "m = dropWhile blank l"
  have "m = trim l @ rev (takeWhile blank (rev m))"
    unfolding trim_def m_def [symmetric]
    by (metis rev_append rev_rev_ident takeWhile_dropWhile_id)
  then show "l = takeWhile blank l @ trim l @ rev (takeWhile blank (rev m))"
    by (metis m_def takeWhile_dropWhile_id)
  show "\<forall>c \<in> set (takeWhile blank l). blank c" "\<forall>c \<in> set (rev (takeWhile blank (rev m))). blank c"
    by (auto dest: set_takeWhileD)
qed

lemma trim_ends: "trim l \<noteq> [] \<Longrightarrow> \<not> blank (hd (trim l)) \<and> \<not> blank (last (trim l))"
proof -
  assume ne: "trim l \<noteq> []"
  define m where "m = dropWhile blank l"
  have d: "dropWhile blank (rev m) \<noteq> []" using ne by (simp add: trim_def m_def)
  then have "\<not> blank (last (trim l))" using hd_dropWhile [of blank "rev m"]
    by (simp add: trim_def m_def last_rev)
  moreover have "trim l = take (length (trim l)) m"
    unfolding trim_def m_def [symmetric]
    by (metis append_eq_conv_conj rev_append rev_rev_ident takeWhile_dropWhile_id)
  then have "hd (trim l) = hd m" by (metis hd_take length_greater_0_conv ne)
  moreover have "m \<noteq> []" using d by auto
  ultimately show ?thesis using hd_dropWhile [of blank l] by (simp add: m_def)
qed

lemma scan_blanks:
  "sc_first s = 0 \<or> sc_first s = of_char CHR ''#'' \<Longrightarrow> \<forall>c \<in> set a. blank c \<Longrightarrow> fold rules_scan_byte a s = s"
  by (induction a) (auto simp: rules_scan_byte_def)

lemma scan_comment:
  assumes "sc_first s = of_char CHR ''#''"
  shows "\<exists>v. fold rules_scan_byte xs s = s\<lparr>sc_last := v\<rparr>"
  using assms
proof (induction xs arbitrary: s)
  case Nil
  show ?case by (rule exI [of _ "sc_last s"]) simp
next
  case (Cons c xs)
  have "rules_scan_byte c s = s\<lparr>sc_last := if blank c then sc_last s else c\<rparr>"
    using Cons.prems by (simp add: rules_scan_byte_def Let_def)
  then show ?case using Cons.IH [of "rules_scan_byte c s"] Cons.prems by auto
qed

lemma scan_rest:
  assumes "sc_first s \<noteq> 0" "sc_first s \<noteq> of_char CHR ''#''"
  shows "fold rules_scan_byte xs s =
    s\<lparr>sc_last := last (sc_last s # filter (\<lambda>c. \<not> blank c) xs),
      sc_word_done := fst (fold feed xs (sc_word_done s, sc_word s)),
      sc_word := snd (fold feed xs (sc_word_done s, sc_word s))\<rparr>"
  using assms
proof (induction xs arbitrary: s)
  case (Cons c xs)
  have "rules_scan_byte c s = s\<lparr>sc_last := if blank c then sc_last s else c,
      sc_word_done := fst (feed c (sc_word_done s, sc_word s)),
      sc_word := snd (feed c (sc_word_done s, sc_word s))\<rparr>"
    using Cons.prems by (simp add: rules_scan_byte_def feed_def Let_def)
  then show ?case using Cons.IH [of "rules_scan_byte c s"] Cons.prems by auto
qed simp

lemma scan_record_line:
  assumes "sc_first s = 0" "0 \<notin> set l" "trim l \<noteq> []" "hd (trim l) \<noteq> of_char CHR ''#''"
  obtains z where "\<forall>c \<in> set z. blank c" "z = [] \<longleftrightarrow> \<not> blank (last l)"
    "fold rules_scan_byte l s =
       s\<lparr>sc_in_record := True, sc_rec_line := (if sc_in_record s then sc_rec_line s else sc_line s),
         sc_first := hd (trim l), sc_last := last (trim l),
         sc_word_done := fst (fold feed (trim l @ z) (sc_word_done s, sc_word s)),
         sc_word := snd (fold feed (trim l @ z) (sc_word_done s, sc_word s))\<rparr>"
proof -
  obtain a z where split: "l = a @ trim l @ z" "\<forall>c \<in> set a. blank c" "\<forall>c \<in> set z. blank c"
    by (rule trim_split)
  obtain c t where t: "trim l = c # t" using assms(3) by (cases "trim l") auto
  have c: "\<not> blank c" "c \<noteq> 0" "c \<noteq> of_char CHR ''#''" and lst: "\<not> blank (last (trim l))"
    using trim_ends [of l] assms(2-4) split(1) t by (auto simp: t)
  let ?s = "s\<lparr>sc_first := c, sc_in_record := True,
     sc_rec_line := (if sc_in_record s then sc_rec_line s else sc_line s), sc_last := c\<rparr>"
  have byte: "rules_scan_byte c s = ?s\<lparr>sc_word_done := fst (feed c (sc_word_done s, sc_word s)),
      sc_word := snd (feed c (sc_word_done s, sc_word s))\<rparr>"
    using c assms(1) by (simp add: rules_scan_byte_def feed_def Let_def)
  have "filter (\<lambda>c. \<not> blank c) (t @ z) = filter (\<lambda>c. \<not> blank c) t" using split(3) by simp
  moreover have "last (c # filter (\<lambda>c. \<not> blank c) t) = last (trim l)"
    using lst t by (cases t rule: rev_cases) auto
  ultimately have "fold rules_scan_byte (c # t @ z) s = ?s\<lparr>sc_last := last (trim l),
      sc_word_done := fst (fold feed (trim l @ z) (sc_word_done s, sc_word s)),
      sc_word := snd (fold feed (trim l @ z) (sc_word_done s, sc_word s))\<rparr>"
    using c by (simp add: byte scan_rest t)
  moreover have "fold rules_scan_byte l s = fold rules_scan_byte (c # t @ z) s"
    using scan_blanks [of s a] assms(1) split(1,2) t by (metis append_Cons fold_append o_apply)
  moreover have "z = [] \<longleftrightarrow> \<not> blank (last l)"
    using split(3) lst t by (subst split(1)) (cases z rule: rev_cases; simp)
  ultimately show thesis using that [of z] split(3) t by simp
qed

section \<open>The first word\<close>

lemma first_word_append:
  "first_word (r @ x) = (if \<exists>c \<in> set r. blank c then first_word r else r @ first_word x)"
  by (auto simp: first_word_def takeWhile_append)

lemma first_word_single: "first_word [c] = (if blank c then [] else [c])"
  by (simp add: first_word_def)

lemma first_word_prefix: "\<exists>y. first_word (r @ x) = first_word r @ y"
  by (metis append.right_neutral append_assoc first_word_append first_word_def takeWhile_dropWhile_id)

lemma feed_first_word:
  "rec = [] \<or> \<not> blank (hd rec) \<Longrightarrow>
   fold feed rec (False, []) =
     (if length (first_word rec) \<le> 32 then (\<exists>c \<in> set rec. blank c, first_word rec) else (True, []))"
proof (induction rec rule: rev_induct)
  case (snoc c r)
  have ih: "fold feed r (False, []) =
     (if length (first_word r) \<le> 32 then (\<exists>c \<in> set r. blank c, first_word r) else (True, []))"
    using snoc by (cases r) auto
  have ne: "r \<noteq> [] \<Longrightarrow> first_word r \<noteq> []" using snoc.prems by (cases r) (auto simp: first_word_def)
  have whole: "\<forall>c \<in> set r. \<not> blank c \<Longrightarrow> first_word r = r" by (simp add: first_word_def)
  have "fold feed (r @ [c]) (False, []) = feed c (fold feed r (False, []))" by simp
  also have "\<dots> = (if length (first_word (r @ [c])) \<le> 32
      then (\<exists>c \<in> set (r @ [c]). blank c, first_word (r @ [c])) else (True, []))"
    unfolding ih using ne whole snoc.prems
    by (cases "r = []") (auto simp: feed_def first_word_append first_word_single)
  finally show ?case .
qed (simp add: first_word_def)

lemma feed_blanks: "\<forall>c \<in> set z. blank c \<Longrightarrow> fold feed z (wd, w) = (wd \<or> (z \<noteq> [] \<and> w \<noteq> []), w)"
  by (induction z arbitrary: wd) (auto simp: feed_def)

lemma hopeless_feed:
  "of_char CHR 0x60 \<in> set (snd p) \<or> p = (True, []) \<Longrightarrow>
   of_char CHR 0x60 \<in> set (snd (fold feed xs p)) \<or> fold feed xs p = (True, [])"
proof (induction xs arbitrary: p)
  case (Cons c xs)
  have "of_char CHR 0x60 \<in> set (snd (feed c p)) \<or> feed c p = (True, [])"
    using Cons.prems by (auto simp: feed_def split: prod.splits)
  then show ?case using Cons.IH by simp
qed simp

lemma first_word_grows:
  "of_char CHR 0x60 \<in> set (first_word r) \<or> length (first_word r) \<ge> 32 \<Longrightarrow>
   of_char CHR 0x60 \<in> set (first_word (r @ x)) \<or> length (first_word (r @ x)) \<ge> 32"
  using first_word_prefix [of r x] by auto

lemma follows_feed: "follows p r \<Longrightarrow> follows (fold feed x p) (r @ x)"
  using hopeless_feed [of p x] first_word_grows [of r x] by (auto simp: follows_def)

lemma backtick_no_directive:
  "of_char CHR 0x60 \<in> set wrd \<Longrightarrow> map ngx_tolower wrd \<noteq> map ngx_tolower (ngx_string ''SecRemoteRules'')"
proof
  assume tick: "of_char CHR 0x60 \<in> set wrd"
    and eq: "map ngx_tolower wrd = map ngx_tolower (ngx_string ''SecRemoteRules'')"
  have "ngx_tolower (of_char CHR 0x60) \<in> set (map ngx_tolower wrd)" using tick by (auto intro: imageI)
  then have "ngx_tolower (of_char CHR 0x60) \<in> set (map ngx_tolower (ngx_string ''SecRemoteRules''))"
    by (simp only: eq)
  then show False by (simp add: ngx_tolower_def ngx_string_def)
qed

lemma scan_word_iff:
  "ngx_http_coraza_rules_scan_word s =
     (if map ngx_tolower (sc_word s) = map ngx_tolower (ngx_string ''SecRemoteRules'')
      then Some (ngx_string ''SecRemoteRules'') else None)"
  using map_eq_imp_length_eq [of ngx_tolower "sc_word s" ngx_tolower "ngx_string ''SecRemoteRules''"]
  by (auto simp: ngx_http_coraza_rules_scan_word_def ngx_http_coraza_unsupported_directives_def
      ngx_strncasecmp_eq_def)

lemma scan_word_refused:
  assumes f: "follows (wd, sc_word s) r" and r: "r = [] \<or> \<not> blank (hd r)"
  shows "ngx_http_coraza_rules_scan_word s = refused_directive r"
proof -
  let ?d = "ngx_string ''SecRemoteRules''"
  have len: "map ngx_tolower x = map ngx_tolower ?d \<Longrightarrow> length x = 14" for x
    by (drule map_eq_imp_length_eq) (simp add: ngx_string_def)
  have "map ngx_tolower (sc_word s) = map ngx_tolower ?d \<longleftrightarrow> map ngx_tolower (first_word r) = map ngx_tolower ?d"
    using f backtick_no_directive [of "sc_word s"] backtick_no_directive [of "first_word r"]
      len [of "sc_word s"] len [of "first_word r"]
    by (auto simp: follows_def feed_first_word [OF r] split: if_splits)
  then show ?thesis
    by (simp add: scan_word_iff refused_directive_def ngx_http_coraza_unsupported_directives_def)
qed

lemma feed_backslash:
  "feed 0x5c (a, b) = (if a then (a, b) else if length b < 32 then (a, b @ [0x5c]) else (True, []))"
  by (simp add: feed_def blank_def)

lemma follows_dropped:
  assumes p: "follows p r" and q: "feed (of_char CHR 0x5c) p = (wd, wrd)" and r: "r = [] \<or> \<not> blank (hd r)"
  shows "follows (wd, if \<not> wd \<and> wrd \<noteq> [] \<and> last wrd = of_char CHR 0x5c then butlast wrd else wrd) r"
proof -
  obtain a b where ab: "p = (a, b)" by (cases p)
  consider "a" | "\<not> a" "length b < 32" | "\<not> a" "length b \<ge> 32" by linarith
  then show ?thesis
  proof cases
    case 3
    then have "wd = True" "wrd = []" using q by (simp_all add: ab feed_backslash)
    moreover have "length (first_word r) \<ge> 32 \<or> of_char CHR 0x60 \<in> set (first_word r)"
      using p 3 unfolding ab follows_def feed_first_word [OF r] by (auto split: if_splits)
    ultimately show ?thesis by (auto simp: follows_def)
  qed (use p q in \<open>auto simp: ab feed_backslash\<close>)
qed

lemma follows_trailing:
  assumes p: "follows p r" and r: "r = [] \<or> \<not> blank (hd r)" and tick: "of_char CHR 0x60 \<in> set r"
    and z: "\<forall>c \<in> set z. blank c"
  shows "follows (fold feed z p) r"
proof -
  obtain wd wrd where ab: "p = (wd, wrd)" by (cases p)
  have whole: "\<forall>c \<in> set r. \<not> blank c \<Longrightarrow> first_word r = r" by (simp add: first_word_def)
  show ?thesis
    using p whole tick
    by (cases wd) (auto simp: ab feed_blanks [OF z] follows_def feed_first_word [OF r] split: if_splits)
qed

lemma follows_Nil: "follows (False, []) []"
  by (simp add: follows_def)

section \<open>The machine computes the reference\<close>

lemma simulates_init: "simulates ngx_http_coraza_rules_scan_init 1 None False []"
  by (simp add: simulates_def ngx_http_coraza_rules_scan_init_def follows_Nil)

lemma simulates_ignored:
  assumes sim: "simulates s ln opened bt rec" and ign: "trim l = [] \<or> hd (trim l) = of_char CHR ''#''"
  shows "ngx_http_coraza_rules_scan_eol (fold rules_scan_byte l s) = (None, s)"
proof -
  have s: "sc_first s = 0" "sc_last s = 0" using sim by (simp_all add: simulates_def)
  obtain a z where split: "l = a @ trim l @ z" "\<forall>c \<in> set a. blank c" "\<forall>c \<in> set z. blank c"
    by (rule trim_split)
  have "fold rules_scan_byte l s = fold rules_scan_byte (trim l @ z) s"
    using scan_blanks [of s a] s(1) split(1,2) by (metis fold_append o_apply)
  also have "ngx_http_coraza_rules_scan_eol \<dots> = (None, s)"
  proof (cases "trim l")
    case Nil
    then show ?thesis using s split(3) by (simp add: scan_blanks ngx_http_coraza_rules_scan_eol_def)
  next
    case (Cons c t)
    then have c: "c = of_char CHR ''#''" using ign by simp
    then have byte: "rules_scan_byte c s = s\<lparr>sc_first := c, sc_last := c\<rparr>"
      using s by (simp add: rules_scan_byte_def blank_def)
    obtain v where "fold rules_scan_byte (t @ z) (s\<lparr>sc_first := c, sc_last := c\<rparr>) =
        s\<lparr>sc_first := c, sc_last := c\<rparr>\<lparr>sc_last := v\<rparr>"
      using scan_comment [of "s\<lparr>sc_first := c, sc_last := c\<rparr>" "t @ z"] c by auto
    then show ?thesis using s c byte Cons by (simp add: ngx_http_coraza_rules_scan_eol_def)
  qed
  finally show ?thesis .
qed

lemma eol_record:
  assumes "sc_first s \<noteq> 0" "sc_first s \<noteq> of_char CHR ''#''"
    and "bt \<longleftrightarrow> (if sc_in_backticks s then sc_first s \<noteq> of_char CHR 0x60 else sc_last s = of_char CHR 0x60)"
  shows "ngx_http_coraza_rules_scan_eol s =
    (if bt then (None, s\<lparr>sc_in_backticks := True, sc_first := 0, sc_last := 0\<rparr>)
     else if sc_last s = of_char CHR 0x5c then
       (None, s\<lparr>sc_in_backticks := False, sc_first := 0, sc_last := 0,
          sc_word := (if \<not> sc_word_done s \<and> sc_word s \<noteq> [] \<and> last (sc_word s) = of_char CHR 0x5c
                      then butlast (sc_word s) else sc_word s)\<rparr>)
     else (ngx_http_coraza_rules_scan_word s,
       s\<lparr>sc_in_backticks := False, sc_first := 0, sc_last := 0, sc_in_record := False,
         sc_word_done := False, sc_word := []\<rparr>))"
  using assms(1,2)
  by (cases "sc_in_backticks s") (simp_all add: assms(3) ngx_http_coraza_rules_scan_eol_def scan_word_iff)

text \<open>One line of a record, as the reference sees it and as the machine does.\<close>

lemma simulates_record_line:
  assumes sim: "simulates s ln opened bt rec" and nul: "0 \<notin> set l" and clean: "clean_continuation l"
    and t: "trim l \<noteq> []" "hd (trim l) \<noteq> of_char CHR ''#''"
    and start: "start = (case opened of None \<Rightarrow> ln | Some n \<Rightarrow> n)"
    and bt': "bt' \<longleftrightarrow> (if bt then hd (trim l) \<noteq> of_char CHR 0x60 else last (trim l) = of_char CHR 0x60)"
  obtains s' where
    "ngx_http_coraza_rules_scan_eol (fold rules_scan_byte l s) =
       (if bt' \<or> last (trim l) = of_char CHR 0x5c then None else refused_directive (rec @ trim l), s')"
    "sc_rec_line s' = start"
    "simulates (s'\<lparr>sc_line := sc_line s' + 1\<rparr>) (ln + 1)
       (if bt' \<or> last (trim l) = of_char CHR 0x5c then Some start else None) bt'
       (if bt' then rec @ trim l else if last (trim l) = of_char CHR 0x5c then rec @ butlast (trim l) else [])"
proof -
  note S = sim [unfolded simulates_def]
  let ?t = "trim l"
  obtain z where z: "\<forall>c \<in> set z. blank c" "z = [] \<longleftrightarrow> \<not> blank (last l)"
    and line: "fold rules_scan_byte l s =
       s\<lparr>sc_in_record := True, sc_rec_line := (if sc_in_record s then sc_rec_line s else sc_line s),
         sc_first := hd ?t, sc_last := last ?t,
         sc_word_done := fst (fold feed (?t @ z) (sc_word_done s, sc_word s)),
         sc_word := snd (fold feed (?t @ z) (sc_word_done s, sc_word s))\<rparr>"
    using scan_record_line [of s l] S nul t by metis
  let ?p = "fold feed ?t (sc_word_done s, sc_word s)"
  let ?u = "fold rules_scan_byte l s"
  have hd0: "hd ?t \<noteq> 0" using nul t(1) by (metis trim_split Un_iff list.set_sel(1) set_append)
  have nb: "\<not> blank (hd ?t)" using trim_ends t(1) by simp
  have fol: "follows ?p (rec @ ?t)" using S follows_feed by simp
  have rt: "rec @ ?t = [] \<or> \<not> blank (hd (rec @ ?t))" using S nb t(1) by (cases rec) auto
  have recl: "sc_rec_line ?u = start" using S by (simp add: line start split: option.splits)
  have keep: "sc_line ?u = ln" "sc_in_record ?u" "sc_word ?u = snd ?p"
    using S z(1) feed_blanks [of z "fst ?p" "snd ?p"] by (simp_all add: line)
  have eol: "ngx_http_coraza_rules_scan_eol ?u =
    (if bt' then (None, ?u\<lparr>sc_in_backticks := True, sc_first := 0, sc_last := 0\<rparr>)
     else if last ?t = of_char CHR 0x5c then
       (None, ?u\<lparr>sc_in_backticks := False, sc_first := 0, sc_last := 0,
          sc_word := (if \<not> sc_word_done ?u \<and> sc_word ?u \<noteq> [] \<and> last (sc_word ?u) = of_char CHR 0x5c
                      then butlast (sc_word ?u) else sc_word ?u)\<rparr>)
     else (ngx_http_coraza_rules_scan_word ?u,
       ?u\<lparr>sc_in_backticks := False, sc_first := 0, sc_last := 0, sc_in_record := False,
         sc_word_done := False, sc_word := []\<rparr>))"
    using eol_record [of ?u bt'] S hd0 t(2) bt' by (simp add: line)
  consider (open_list) bt' | (cont) "\<not> bt'" "last ?t = of_char CHR 0x5c"
    | (closed) "\<not> bt'" "last ?t \<noteq> of_char CHR 0x5c" by blast
  then show thesis
  proof cases
    case open_list
    have tick: "of_char CHR 0x60 \<in> set (rec @ ?t)"
      using open_list bt' S last_in_set [OF t(1)] by (cases bt) auto
    have "follows (sc_word_done ?u, sc_word ?u) (rec @ ?t)"
      using follows_trailing [OF fol rt tick z(1)] by (simp add: line)
    then show thesis using that eol open_list recl keep(1,2) rt tick S by (simp add: simulates_def)
  next
    case cont
    have "z = []" using clean cont(2) t(1) z(2) by (simp add: clean_continuation_def)
    obtain b where b: "?t = b @ [of_char CHR 0x5c]"
      using cont(2) t(1) by (metis append_butlast_last_id)
    have rb: "rec @ b = [] \<or> \<not> blank (hd (rec @ b))" using rt b by (cases rec; cases b) auto
    have "follows (fold feed b (sc_word_done s, sc_word s)) (rec @ b)" using S follows_feed by simp
    moreover have "feed (of_char CHR 0x5c) (fold feed b (sc_word_done s, sc_word s)) =
        (sc_word_done ?u, sc_word ?u)"
      by (simp add: line \<open>z = []\<close> b)
    ultimately have "follows (sc_word_done ?u, if \<not> sc_word_done ?u \<and> sc_word ?u \<noteq> [] \<and>
        last (sc_word ?u) = of_char CHR 0x5c then butlast (sc_word ?u) else sc_word ?u) (rec @ b)"
      using rb by (rule follows_dropped)
    then show thesis using that eol cont recl keep(1,2) rb b S by (simp add: simulates_def)
  next
    case closed
    have "follows (fst ?p, sc_word ?u) (rec @ ?t)" using fol keep(3) by simp
    then have "ngx_http_coraza_rules_scan_word ?u = refused_directive (rec @ ?t)"
      by (rule scan_word_refused [OF _ rt])
    then show thesis using that eol closed recl keep(1,2) S by (simp add: simulates_def follows_Nil)
  qed
qed

lemma seclang_ignored:
  "trim l = [] \<or> hd (trim l) = of_char CHR ''#'' \<Longrightarrow>
   seclang_records ln opened bt rec (l # ls) = seclang_records (ln + 1) opened bt rec ls"
  by (simp only: seclang_records.simps Let_def if_True)

lemma seclang_record_line:
  assumes "\<not> (trim l = [] \<or> hd (trim l) = of_char CHR ''#'')"
    and "start = (case opened of None \<Rightarrow> ln | Some n \<Rightarrow> n)"
    and "bt' \<longleftrightarrow> (if bt then hd (trim l) \<noteq> of_char CHR 0x60 else last (trim l) = of_char CHR 0x60)"
  shows "seclang_records ln opened bt rec (l # ls) =
    (case (if bt' \<or> last (trim l) = of_char CHR 0x5c then None else refused_directive (rec @ trim l)) of
       Some d \<Rightarrow> Some (d, start)
     | None \<Rightarrow> seclang_records (ln + 1)
         (if bt' \<or> last (trim l) = of_char CHR 0x5c then Some start else None) bt'
         (if bt' then rec @ trim l else if last (trim l) = of_char CHR 0x5c then rec @ butlast (trim l) else [])
         ls)"
  unfolding seclang_records.simps Let_def if_not_P [OF assms(1)] assms(2) [symmetric] assms(3) [symmetric]
  by (cases bt'; cases "last (trim l) = of_char CHR 0x5c") (simp_all only: if_True if_False simp_thms option.case)

lemma scan_lines_reference:
  "simulates s ln opened bt rec \<Longrightarrow> \<forall>l \<in> set ls. 0 \<notin> set l \<and> clean_continuation l \<Longrightarrow>
   report (scan_lines s ls) = seclang_records ln opened bt rec ls"
proof (induction ls arbitrary: s ln opened bt rec)
  case Nil
  note S = Nil(1) [unfolded simulates_def]
  have wrd: "ngx_http_coraza_rules_scan_word s = refused_directive rec"
    by (rule scan_word_refused [of "sc_word_done s"]) (use S in blast)+
  have "sc_in_backticks s = bt" using S by blast
  moreover have "the opened = sc_rec_line s" if bt using S that by fastforce
  ultimately show ?case by (cases bt) (simp_all add: report_def wrd)
next
  case (Cons l ls)
  have l: "0 \<notin> set l" "clean_continuation l" and ls: "\<forall>l \<in> set ls. 0 \<notin> set l \<and> clean_continuation l"
    using Cons.prems(2) by simp_all
  let ?t = "trim l"
  show ?case
  proof (cases "?t = [] \<or> hd ?t = of_char CHR ''#''")
    case True
    have "simulates (s\<lparr>sc_line := sc_line s + 1\<rparr>) (ln + 1) opened bt rec"
      using Cons.prems(1) by (simp add: simulates_def)
    from Cons.IH [OF this ls] show ?thesis
      by (simp add: seclang_ignored [OF True] simulates_ignored [OF Cons.prems(1) True]
          del: seclang_records.simps)
  next
    case False
    define start where "start = (case opened of None \<Rightarrow> ln | Some n \<Rightarrow> n)"
    define bt' where "bt' \<longleftrightarrow> (if bt then hd ?t \<noteq> of_char CHR 0x60 else last ?t = of_char CHR 0x60)"
    obtain s' where eol: "ngx_http_coraza_rules_scan_eol (fold rules_scan_byte l s) =
         (if bt' \<or> last ?t = of_char CHR 0x5c then None else refused_directive (rec @ ?t), s')"
      and start': "sc_rec_line s' = start"
      and sim: "simulates (s'\<lparr>sc_line := sc_line s' + 1\<rparr>) (ln + 1)
         (if bt' \<or> last ?t = of_char CHR 0x5c then Some start else None) bt'
         (if bt' then rec @ ?t else if last ?t = of_char CHR 0x5c then rec @ butlast ?t else [])"
      by (rule simulates_record_line [OF Cons.prems(1) l _ _ start_def bt'_def]) (use False in simp_all)
    have "report (scan_lines s (l # ls)) =
        (case (if bt' \<or> last ?t = of_char CHR 0x5c then None else refused_directive (rec @ ?t)) of
           Some d \<Rightarrow> Some (d, start) | None \<Rightarrow> report (scan_lines (s'\<lparr>sc_line := sc_line s' + 1\<rparr>) ls))"
      unfolding scan_lines.simps eol by (simp add: report_def start' split: option.split)
    then show ?thesis
      unfolding seclang_record_line [OF False start_def bt'_def] Cons.IH [OF sim ls] .
  qed
qed

lemma scan_lines_scannable:
  assumes "scannable bs"
  shows "report (rules_scan_all ngx_http_coraza_rules_scan_init bs) = seclang_refused bs"
proof -
  have "\<forall>l \<in> set (text_lines bs). 0 \<notin> set l \<and> clean_continuation l"
    using assms set_text_lines by (fastforce simp: scannable_def)
  then show ?thesis
    unfolding report_scan_lines seclang_refused_def by (rule scan_lines_reference [OF simulates_init])
qed

text \<open>Evaluation on concrete text.\<close>

lemma rules_scan_byte_eval:
  "rules_scan_byte c \<lparr>sc_line = ln, sc_rec_line = rl, sc_in_record = ir, sc_in_backticks = bt,
     sc_word_done = wd, sc_first = f, sc_last = e, sc_word = wrd\<rparr> =
   (if blank c then \<lparr>sc_line = ln, sc_rec_line = rl, sc_in_record = ir, sc_in_backticks = bt,
       sc_word_done = (wd \<or> f \<noteq> 0 \<and> f \<noteq> of_char CHR ''#'' \<and> wrd \<noteq> []), sc_first = f, sc_last = e,
       sc_word = wrd\<rparr>
    else if f = of_char CHR ''#'' \<or> f = 0 \<and> c = of_char CHR ''#'' then
      \<lparr>sc_line = ln, sc_rec_line = rl, sc_in_record = ir, sc_in_backticks = bt,
        sc_word_done = wd, sc_first = of_char CHR ''#'', sc_last = c, sc_word = wrd\<rparr>
    else if wd \<or> length wrd < 32 then
      \<lparr>sc_line = ln, sc_rec_line = (if f = 0 \<and> \<not> ir then ln else rl),
        sc_in_record = (ir \<or> f = 0), sc_in_backticks = bt,
        sc_word_done = wd, sc_first = (if f = 0 then c else f), sc_last = c,
        sc_word = (if wd then wrd else wrd @ [c])\<rparr>
    else
      \<lparr>sc_line = ln, sc_rec_line = (if f = 0 \<and> \<not> ir then ln else rl),
        sc_in_record = (ir \<or> f = 0), sc_in_backticks = bt,
        sc_word_done = True, sc_first = (if f = 0 then c else f), sc_last = c, sc_word = []\<rparr>)"
  by (simp add: rules_scan_byte_def Let_def)

lemmas rules_scan_eval = rules_scan_all_def report_def ngx_string_def blank_def ngx_tolower_def
  ngx_http_coraza_rules_scan_init_def rules_scan_byte_eval ngx_http_coraza_rules_scan_eol_def
  ngx_http_coraza_rules_scan_done_def scan_word_iff

lemmas seclang_eval = seclang_refused_def scannable_def clean_continuation_def ngx_string_def trim_def
  blank_def refused_directive_def ngx_http_coraza_unsupported_directives_def first_word_def ngx_tolower_def

text \<open>
  C17: on rule text without NUL bytes in which no continuation backslash is
  followed by blanks, the streaming scan reports exactly what the line-based
  reference does: the first record whose directive the engine refuses, with the
  line where that record starts, however the record is spread over lines and
  whatever comments, blank lines and action lists surround it.
\<close>

theorem rules_scan_reference:
  assumes "scannable bs"
  shows "report (rules_scan_all ngx_http_coraza_rules_scan_init bs) = seclang_refused bs"
  using assms by (rule scan_lines_scannable)

theorem rules_scan_reference_witness:
  "report (rules_scan_all ngx_http_coraza_rules_scan_init
     (ngx_string ''# c'' @ [0x0a] @ ngx_string ''Sec'' @ [0x5c, 0x0a, 0x20] @ ngx_string ''remoteRULES x'')) =
     Some (ngx_string ''SecRemoteRules'', 2)"
proof -
  let ?t = "ngx_string ''# c'' @ [0x0a] @ ngx_string ''Sec'' @ [0x5c, 0x0a, 0x20] @ ngx_string ''remoteRULES x''"
  have "scannable ?t" by (simp add: seclang_eval)
  moreover have "seclang_refused ?t = Some (ngx_string ''SecRemoteRules'', 2)" by (simp add: seclang_eval)
  ultimately show ?thesis using rules_scan_reference [of ?t] by simp
qed

section \<open>A blank after a continuation\<close>

lemma text_lines_one: "0x0a \<notin> set l \<Longrightarrow> text_lines l = [l]"
  by (induction l) auto

lemma text_lines_newline: "0x0a \<notin> set l \<Longrightarrow> text_lines (l @ 0x0a # r) = l # text_lines r"
  by (induction l) (auto split: list.splits)

text \<open>The bytes a directive is written with mean nothing else to the scan.\<close>

lemma directive_char:
  assumes "map ngx_tolower d = map ngx_tolower (ngx_string ''SecRemoteRules'')" and "c \<in> set d"
  shows "\<not> blank c" "c \<noteq> 0" "c \<noteq> 0x0a" "c \<noteq> of_char CHR 0x5c" "c \<noteq> of_char CHR 0x60" "c \<noteq> of_char CHR ''#''"
proof -
  have "ngx_tolower c \<in> set (map ngx_tolower (ngx_string ''SecRemoteRules''))"
    using assms by (metis image_eqI set_map)
  then show "\<not> blank c" "c \<noteq> 0" "c \<noteq> 0x0a" "c \<noteq> of_char CHR 0x5c" "c \<noteq> of_char CHR 0x60" "c \<noteq> of_char CHR ''#''"
    by (auto simp: ngx_string_def ngx_tolower_def blank_def)
qed

lemma trim_trailing:
  assumes "d \<noteq> []" "\<forall>c \<in> set d. \<not> blank c" "\<forall>c \<in> set bl. blank c"
  shows "trim (d @ bl) = d"
proof -
  have "dropWhile blank (d @ bl) = d @ bl" using assms(1,2) by (cases d) auto
  moreover have "dropWhile blank (rev bl @ rev d) = rev d"
    using assms by (cases "rev d") (auto simp: dropWhile_append)
  ultimately show ?thesis by (simp add: trim_def)
qed

lemma trim_arguments:
  assumes "d \<noteq> []" "\<forall>c \<in> set d. \<not> blank c"
  obtains tl where "trim (d @ 0x20 # args) = d @ tl" "set tl \<subseteq> insert 0x20 (set args)"
    "tl = [] \<or> blank (hd tl)"
proof -
  have "dropWhile blank (d @ 0x20 # args) = d @ 0x20 # args" using assms by (cases d) auto
  moreover have "dropWhile blank (rev args @ 0x20 # rev d) =
      (if \<exists>c \<in> set args. \<not> blank c then dropWhile blank (rev args) @ 0x20 # rev d else rev d)"
    using assms by (cases "rev d") (auto simp: dropWhile_append blank_def)
  ultimately have t: "trim (d @ 0x20 # args) =
      d @ (if \<exists>c \<in> set args. \<not> blank c then 0x20 # rev (dropWhile blank (rev args)) else [])"
    by (simp add: trim_def)
  define tl where "tl = (if \<exists>c \<in> set args. \<not> blank c then 0x20 # rev (dropWhile blank (rev args)) else [])"
  have "set tl \<subseteq> insert 0x20 (set args)" by (auto simp: tl_def dest: set_dropWhileD)
  moreover have "tl = [] \<or> blank (hd tl)" by (simp add: tl_def blank_def)
  ultimately show thesis using that [of tl] t unfolding tl_def [symmetric] by blast
qed

text \<open>
  The refused directive cut in two by a continuation whose backslash has blanks after
  it: \<open>p\<close> before the backslash, the blanks \<open>bl\<close> after it, then \<open>q\<close> and the arguments on
  the second line.
\<close>

definition cut_directive :: "bytes \<Rightarrow> bytes \<Rightarrow> bytes \<Rightarrow> bytes \<Rightarrow> bool" where
  "cut_directive p bl q args \<longleftrightarrow> p \<noteq> [] \<and> q \<noteq> [] \<and>
     map ngx_tolower (p @ q) = map ngx_tolower (ngx_string ''SecRemoteRules'') \<and>
     bl \<noteq> [] \<and> (\<forall>c \<in> set bl. blank c) \<and>
     (\<forall>c \<in> set args. c \<notin> {0, 0x0a, of_char CHR 0x5c, of_char CHR 0x60})"

definition cut_text :: "bytes \<Rightarrow> bytes \<Rightarrow> bytes \<Rightarrow> bytes \<Rightarrow> bytes" where
  "cut_text p bl q args = (p @ [of_char CHR 0x5c] @ bl) @ [0x0a] @ (q @ [0x20] @ args)"

lemma cut_lines:
  assumes "cut_directive p bl q args"
  shows "text_lines (cut_text p bl q args) = [p @ [of_char CHR 0x5c] @ bl, q @ [0x20] @ args]"
    "trim (p @ [of_char CHR 0x5c] @ bl) = p @ [of_char CHR 0x5c]"
    "0 \<notin> set (p @ [of_char CHR 0x5c] @ bl)" "0 \<notin> set (q @ [0x20] @ args)"
proof -
  note c = assms [unfolded cut_directive_def]
  note d = directive_char [of "p @ q"]
  have pq: "\<not> blank x" "x \<noteq> 0" "x \<noteq> 0x0a" if "x \<in> set p \<or> x \<in> set q" for x
    using d [of x] c that by auto
  have bl: "0 \<notin> set bl" "0x0a \<notin> set bl" using c by (auto simp: blank_def)
  have ar: "0 \<notin> set args" "0x0a \<notin> set args" using c by blast+
  have no: "0 \<notin> set p" "0 \<notin> set q" "0x0a \<notin> set p" "0x0a \<notin> set q" using pq(2,3) by blast+
  have n1: "0x0a \<notin> set (p @ [of_char CHR 0x5c] @ bl)" using no bl by simp
  have n2: "0x0a \<notin> set (q @ [0x20] @ args)" using no ar by simp
  show "text_lines (cut_text p bl q args) = [p @ [of_char CHR 0x5c] @ bl, q @ [0x20] @ args]"
    unfolding cut_text_def append_Cons append_Nil text_lines_newline [OF n1 [unfolded append_Cons append_Nil]]
      text_lines_one [OF n2 [unfolded append_Cons append_Nil]] by simp
  show "trim (p @ [of_char CHR 0x5c] @ bl) = p @ [of_char CHR 0x5c]"
    using trim_trailing [of "p @ [of_char CHR 0x5c]" bl] pq(1) c by (auto simp: blank_def)
  show "0 \<notin> set (p @ [of_char CHR 0x5c] @ bl)" "0 \<notin> set (q @ [0x20] @ args)" using no bl ar by simp_all
qed

lemma cut_second_line:
  assumes "cut_directive p bl q args"
  obtains tl where "trim (q @ [0x20] @ args) = q @ tl" "tl = [] \<or> blank (hd tl)"
    "trim (q @ [0x20] @ args) \<noteq> []" "hd (trim (q @ [0x20] @ args)) \<noteq> of_char CHR ''#''"
    "last (trim (q @ [0x20] @ args)) \<noteq> of_char CHR 0x5c" "last (trim (q @ [0x20] @ args)) \<noteq> of_char CHR 0x60"
proof -
  note c = assms [unfolded cut_directive_def]
  have pq: "\<not> blank x \<and> x \<noteq> of_char CHR 0x5c \<and> x \<noteq> of_char CHR 0x60 \<and> x \<noteq> of_char CHR ''#''"
    if "x \<in> set q" for x
    using directive_char [of "p @ q" x] c that by auto
  obtain tl where tl: "trim (q @ 0x20 # args) = q @ tl" "set tl \<subseteq> insert 0x20 (set args)" "tl = [] \<or> blank (hd tl)"
    by (rule trim_arguments [of q args]) (use c pq in auto)
  have "x \<noteq> of_char CHR 0x5c \<and> x \<noteq> of_char CHR 0x60" if "x \<in> set (q @ tl)" for x
    using pq [of x] tl(2) c that by auto
  moreover have "last (q @ tl) \<in> set (q @ tl)" using c by (intro last_in_set) simp
  ultimately have "last (q @ tl) \<noteq> of_char CHR 0x5c" "last (q @ tl) \<noteq> of_char CHR 0x60" by blast+
  moreover have "hd (q @ tl) \<noteq> of_char CHR ''#''" using pq [of "hd q"] c by simp
  ultimately show thesis using that [of tl] tl c by simp
qed

lemma cut_reference:
  assumes "cut_directive p bl q args"
  shows "seclang_refused (cut_text p bl q args) = Some (ngx_string ''SecRemoteRules'', 1)"
proof -
  note c = assms [unfolded cut_directive_def]
  let ?l1 = "p @ [of_char CHR 0x5c] @ bl" and ?l2 = "q @ [0x20] @ args"
  obtain tl where t2: "trim ?l2 = q @ tl" "tl = [] \<or> blank (hd tl)"
    and l2: "trim ?l2 \<noteq> []" "hd (trim ?l2) \<noteq> of_char CHR ''#''"
      "last (trim ?l2) \<noteq> of_char CHR 0x5c" "last (trim ?l2) \<noteq> of_char CHR 0x60"
    using cut_second_line [OF assms] .
  note l1 = cut_lines(2) [OF assms]
  have h1: "\<not> (trim ?l1 = [] \<or> hd (trim ?l1) = of_char CHR ''#'')"
    using directive_char [of "p @ q" "hd p"] c unfolding l1 by simp
  have r1: "seclang_records 1 None False [] [?l1, ?l2] = seclang_records 2 (Some 1) False p [?l2]"
    using seclang_record_line [OF h1, where opened = None and ln = 1 and start = 1 and bt = False and bt' = False
        and rec = "[]" and ls = "[?l2]"]
    unfolding l1 by (simp del: seclang_records.simps One_nat_def)
  have "first_word (p @ trim ?l2) = p @ q"
  proof -
    have "\<forall>x \<in> set (p @ q). \<not> blank x" using directive_char [of "p @ q"] c by blast
    moreover have "first_word tl = []" using t2(2) by (cases tl) (simp_all add: first_word_def)
    ultimately show ?thesis unfolding t2(1) using first_word_append [of "p @ q" tl] by auto
  qed
  then have ref: "refused_directive (p @ trim ?l2) = Some (ngx_string ''SecRemoteRules'')"
    using c by (simp add: refused_directive_def ngx_http_coraza_unsupported_directives_def)
  have h2: "\<not> (trim ?l2 = [] \<or> hd (trim ?l2) = of_char CHR ''#'')" using l2 by blast
  have "seclang_records 2 (Some 1) False p [?l2] = Some (ngx_string ''SecRemoteRules'', 1)"
    using seclang_record_line [OF h2, where opened = "Some 1" and ln = 2 and start = 1 and bt = False
        and bt' = False and rec = p and ls = "[]"] l2 ref
    by (simp del: One_nat_def)
  then show ?thesis unfolding seclang_refused_def cut_lines(1) [OF assms] r1 .
qed

lemma cut_scan:
  assumes "cut_directive p bl q args"
  shows "report (rules_scan_all ngx_http_coraza_rules_scan_init (cut_text p bl q args)) = None"
proof -
  note c = assms [unfolded cut_directive_def]
  let ?l1 = "p @ [of_char CHR 0x5c] @ bl" and ?l2 = "q @ [0x20] @ args"
  let ?w = "p @ [of_char CHR 0x5c]" and ?s = ngx_http_coraza_rules_scan_init
  note l1 = cut_lines(2) [OF assms]
  obtain tl where t2: "trim ?l2 = q @ tl"
    and l2: "trim ?l2 \<noteq> []" "hd (trim ?l2) \<noteq> of_char CHR ''#''"
      "last (trim ?l2) \<noteq> of_char CHR 0x5c" "last (trim ?l2) \<noteq> of_char CHR 0x60"
    using cut_second_line [OF assms] by metis
  have hp: "hd p \<noteq> 0" "hd p \<noteq> of_char CHR ''#''" "\<not> blank (hd p)"
    using directive_char [of "p @ q" "hd p"] c by simp_all
  have hq: "hd (trim ?l2) \<noteq> 0" using directive_char [of "p @ q" "hd q"] c unfolding t2 by simp
  have len: "length (p @ q) = 14" using c map_eq_imp_length_eq by (fastforce simp: ngx_string_def)
  have nb: "\<forall>x \<in> set ?w. \<not> blank x" using directive_char [of "p @ q"] c by (auto simp: blank_def)
  obtain z where z: "\<forall>x \<in> set z. blank x" "z = [] \<longleftrightarrow> \<not> blank (last ?l1)"
    and s1: "fold rules_scan_byte ?l1 ?s = ?s\<lparr>sc_in_record := True,
       sc_rec_line := (if sc_in_record ?s then sc_rec_line ?s else sc_line ?s),
       sc_first := hd (trim ?l1), sc_last := last (trim ?l1),
       sc_word_done := fst (fold feed (trim ?l1 @ z) (sc_word_done ?s, sc_word ?s)),
       sc_word := snd (fold feed (trim ?l1 @ z) (sc_word_done ?s, sc_word ?s))\<rparr>"
    by (rule scan_record_line [of ?s ?l1])
      (use cut_lines(3) [OF assms] hp c in \<open>simp_all add: ngx_http_coraza_rules_scan_init_def l1 [simplified]\<close>)
  have "last ?l1 \<in> set bl" using c by simp
  then have "z \<noteq> []" using z(2) c by blast
  have "fold feed ?w (False, []) = (False, ?w)"
    using feed_first_word [of ?w] nb len hp(3) c by (auto simp: first_word_def)
  then have f: "fold feed (?w @ z) (sc_word_done ?s, sc_word ?s) = (True, ?w)"
    using \<open>z \<noteq> []\<close> z(1) by (simp add: feed_blanks ngx_http_coraza_rules_scan_init_def)
  define s1 where "s1 = fold rules_scan_byte ?l1 ?s"
  have s1: "sc_first s1 = hd p" "sc_last s1 = of_char CHR 0x5c" "sc_word_done s1" "sc_word s1 = ?w"
    "\<not> sc_in_backticks s1"
    using c unfolding s1_def s1 l1 f by (simp_all add: ngx_http_coraza_rules_scan_init_def)
  have e1: "ngx_http_coraza_rules_scan_eol s1 = (None, s1\<lparr>sc_in_backticks := False, sc_first := 0, sc_last := 0\<rparr>)"
    using eol_record [of s1 False] hp s1 by simp
  define s2 where "s2 = s1\<lparr>sc_in_backticks := False, sc_first := 0, sc_last := 0, sc_line := sc_line s1 + 1\<rparr>"
  have s2: "sc_first s2 = 0" "sc_word_done s2" "sc_word s2 = ?w" "\<not> sc_in_backticks s2"
    by (simp_all add: s2_def s1)
  have stuck: "fold feed xs (True, y) = (True, y)" for xs y
    by (induction xs) (auto simp: feed_def)
  obtain z' where s3: "fold rules_scan_byte ?l2 s2 = s2\<lparr>sc_in_record := True,
       sc_rec_line := (if sc_in_record s2 then sc_rec_line s2 else sc_line s2),
       sc_first := hd (trim ?l2), sc_last := last (trim ?l2),
       sc_word_done := fst (fold feed (trim ?l2 @ z') (sc_word_done s2, sc_word s2)),
       sc_word := snd (fold feed (trim ?l2 @ z') (sc_word_done s2, sc_word s2))\<rparr>"
    by (rule scan_record_line [OF s2(1) cut_lines(4) [OF assms] l2(1,2)]) blast
  define s3 where "s3 = fold rules_scan_byte ?l2 s2"
  have s3': "sc_word s3 = ?w" "sc_first s3 = hd (trim ?l2)" "sc_last s3 = last (trim ?l2)" "\<not> sc_in_backticks s3"
    unfolding s3_def s3 using s2 by (simp_all add: stuck)
  have "map ngx_tolower ?w \<noteq> map ngx_tolower (ngx_string ''SecRemoteRules'')"
    using directive_char(4) [of ?w "of_char CHR 0x5c"] by auto
  then have no: "ngx_http_coraza_rules_scan_word s3 = None" by (simp add: scan_word_iff s3')
  have "ngx_http_coraza_rules_scan_eol s3 = (None, s3\<lparr>sc_in_backticks := False, sc_first := 0, sc_last := 0,
      sc_in_record := False, sc_word_done := False, sc_word := []\<rparr>)"
    using eol_record [of s3 False] l2 hq no unfolding s3'(2) [symmetric] s3'(3) [symmetric] by (simp add: s3'(4))
  then have s2f: "fst (scan_lines s2 [?l2]) = None" unfolding scan_lines.simps s3_def [symmetric] by simp
  have "scan_lines ?s [?l1, ?l2] = scan_lines s2 [?l2]"
    unfolding scan_lines.simps(2) [of ?s ?l1] s1_def [symmetric] e1 by (simp add: s2_def)
  with s2f have "fst (scan_lines ?s [?l1, ?l2]) = None" by (simp only:)
  then show ?thesis unfolding report_scan_lines cut_lines(1) [OF assms] by (simp add: report_def)
qed

text \<open>
  C38: the condition on continuation lines is needed.  However the refused directive
  (in any case) is cut in two by a backslash at the end of a line, if blanks follow the
  backslash the scan accepts the text, while the reference, which trims the line before
  it looks at the backslash, finds the directive.  The arguments are any bytes without
  NUL, newline, backslash and backtick.
\<close>

theorem rules_scan_misses_trailing_blank:
  assumes "cut_directive p bl q args"
  shows "report (rules_scan_all ngx_http_coraza_rules_scan_init (cut_text p bl q args)) = None \<and>
    seclang_refused (cut_text p bl q args) = Some (ngx_string ''SecRemoteRules'', 1)"
  using cut_scan [OF assms] cut_reference [OF assms] by blast

theorem rules_scan_misses_trailing_blank_witness:
  "report (rules_scan_all ngx_http_coraza_rules_scan_init
     (ngx_string ''secRemote'' @ [0x5c, 0x20, 0x09, 0x0a] @ ngx_string ''RULES k u'')) = None"
proof -
  let ?p = "ngx_string ''secRemote''" and ?q = "ngx_string ''RULES''" and ?a = "ngx_string ''k u''"
  have "cut_directive ?p [0x20, 0x09] ?q ?a"
    by (simp add: cut_directive_def ngx_string_def ngx_tolower_def blank_def)
  then have "report (rules_scan_all ngx_http_coraza_rules_scan_init (cut_text ?p [0x20, 0x09] ?q ?a)) = None"
    using rules_scan_misses_trailing_blank by blast
  then show ?thesis by (simp add: cut_text_def ngx_string_def)
qed

section \<open>Bounded state\<close>

lemma word_bound_byte: "length (sc_word s) \<le> 32 \<Longrightarrow> length (sc_word (rules_scan_byte c s)) \<le> 32"
  by (simp add: rules_scan_byte_def Let_def)

lemma word_bound_eol:
  "length (sc_word s) \<le> 32 \<Longrightarrow> length (sc_word (snd (ngx_http_coraza_rules_scan_eol s))) \<le> 32"
  by (auto simp: ngx_http_coraza_rules_scan_eol_def Let_def)

text \<open>
  The word buffer of 32 bytes is never overrun: whatever text has been fed in
  whatever chunks, at most 32 bytes of it are in use.
\<close>

lemma rules_scan_word_bounded:
  "length (sc_word s) \<le> 32 \<Longrightarrow> length (sc_word (snd (ngx_http_coraza_rules_scan s bs))) \<le> 32"
proof (induction s bs rule: ngx_http_coraza_rules_scan.induct)
  case (2 s c cs)
  obtain r s' where e: "ngx_http_coraza_rules_scan_eol s = (r, s')" by fastforce
  then show ?case
    using 2 word_bound_eol [of s] word_bound_byte [of s c] by (cases r) auto
qed simp

end
