(* ===== verification/Config.thy ===== *)
theory Config
  imports Process Rules_Scan
begin

text \<open>
  The configuration phase (\<open>src/src/ngx_http_coraza_module.c\<close>): the directives
  \<open>coraza_rules\<close>, \<open>coraza_rules_file\<close> and \<open>coraza_transaction_id\<close>, the creation
  and inheritance of configurations, the check that a location with \<open>coraza on\<close>
  has rules to work with, and the registration of the handlers and filters.

  The proofs show that the check of a rules file returns and gives the verdict of
  the line-based reference whatever sizes the file is read in, that a refused
  rule is not stored, and what merging a location with the block around it does to
  its rules.
\<close>

datatype conf_rc = NGX_CONF_OK | NGX_CONF_ERROR

section \<open>Rules files\<close>

partial_function (option) check_rules_file_loop ::
  "penv \<Rightarrow> ngx_str \<Rightarrow> nat \<Rightarrow> ngx_http_coraza_rules_scan_t \<Rightarrow> cycle \<Rightarrow>
   ((ngx_str option \<times> ngx_http_coraza_rules_scan_t) \<times> cycle) option" where
  "check_rules_file_loop P full offset scan y =
     (let n = conf_read P (cy_trace y) full 4096 offset;
          y = pemit (Conf_read full offset n) y
      in case n of
           None \<Rightarrow> Some ((None, scan), y)
         | Some [] \<Rightarrow> Some (ngx_http_coraza_rules_scan_done scan, y)
         | Some (b # bs) \<Rightarrow>
             (case ngx_http_coraza_rules_scan scan (b # bs) of
                (Some bad, scan) \<Rightarrow> Some ((Some bad, scan), y)
              | (None, scan) \<Rightarrow> check_rules_file_loop P full (offset + length (b # bs)) scan y))"

text \<open>The result carries the resolved path, which the source stores back.\<close>

definition ngx_http_coraza_check_rules_file ::
  "penv \<Rightarrow> ngx_str \<Rightarrow> cycle \<Rightarrow> ((conf_rc \<times> ngx_str) \<times> cycle) option" where
  "ngx_http_coraza_check_rules_file P path y =
     (let f = conf_full_name P (cy_trace y) path; y = pemit (Full_name path f) y
      in case f of
           None \<Rightarrow> Some ((NGX_CONF_ERROR, path), y)
         | Some full \<Rightarrow>
             (let ok = conf_open P (cy_trace y) full; y = pemit (Conf_open full ok) y
              in if \<not> ok then Some ((NGX_CONF_OK, full), y)
                 else
                   (case check_rules_file_loop P full 0 ngx_http_coraza_rules_scan_init y of
                      None \<Rightarrow> None
                    | Some ((bad, scan), y) \<Rightarrow>
                        Some ((if bad \<noteq> None then NGX_CONF_ERROR else NGX_CONF_OK, full),
                              pemit (Conf_close full) y))))"

section \<open>Directives\<close>

text \<open>
  The common end of both rule directives: the entry is pushed and its text copied
  to the pool; when the copy fails the pushed entry stays, without text.
\<close>

definition store_rule ::
  "penv \<Rightarrow> ngx_http_coraza_rule_type \<Rightarrow> ngx_str \<Rightarrow> nat \<Rightarrow> cycle \<Rightarrow> conf_rc \<times> cycle" where
  "store_rule P ty v c y =
     (let (ok, y) = cf_palloc P y
      in if \<not> ok then (NGX_CONF_ERROR, y)
         else
           let (ok, y) = cf_palloc P y;
               y = array_append (lc_rules (cy_confs y c))
                     [\<lparr>re_type = ty, re_value = if ok then v else []\<rparr>] y
           in if \<not> ok then (NGX_CONF_ERROR, y)
              else (NGX_CONF_OK, upd_conf c (\<lambda>k. k\<lparr>lc_has_rules := True\<rparr>) y))"

definition ngx_conf_set_rules :: "penv \<Rightarrow> ngx_str \<Rightarrow> nat \<Rightarrow> cycle \<Rightarrow> conf_rc \<times> cycle" where
  "ngx_conf_set_rules P v c y =
     (let (bad, scan) =
        (case ngx_http_coraza_rules_scan ngx_http_coraza_rules_scan_init v of
           (Some bad, scan) \<Rightarrow> (Some bad, scan)
         | (None, scan) \<Rightarrow> ngx_http_coraza_rules_scan_done scan)
      in if bad \<noteq> None then (NGX_CONF_ERROR, y)
         else
           case store_rule P NGX_CORAZA_RULE_INLINE v c y of
             (NGX_CONF_ERROR, y) \<Rightarrow> (NGX_CONF_ERROR, y)
           | (NGX_CONF_OK, y) \<Rightarrow>
               (NGX_CONF_OK, upd_main (\<lambda>m. m\<lparr>mc_rules_inline := mc_rules_inline m + 1\<rparr>) y))"

definition ngx_conf_set_rules_file :: "penv \<Rightarrow> ngx_str \<Rightarrow> nat \<Rightarrow> cycle \<Rightarrow> (conf_rc \<times> cycle) option" where
  "ngx_conf_set_rules_file P v c y =
     (case ngx_http_coraza_check_rules_file P v y of
        None \<Rightarrow> None
      | Some ((NGX_CONF_ERROR, full), y) \<Rightarrow> Some (NGX_CONF_ERROR, y)
      | Some ((NGX_CONF_OK, full), y) \<Rightarrow>
          Some (case store_rule P NGX_CORAZA_RULE_FILE full c y of
                  (NGX_CONF_ERROR, y) \<Rightarrow> (NGX_CONF_ERROR, y)
                | (NGX_CONF_OK, y) \<Rightarrow>
                    (NGX_CONF_OK, upd_main (\<lambda>m. m\<lparr>mc_rules_file := mc_rules_file m + 1\<rparr>) y)))"

definition ngx_conf_set_transaction_id :: "penv \<Rightarrow> ngx_str \<Rightarrow> nat \<Rightarrow> cycle \<Rightarrow> conf_rc \<times> cycle" where
  "ngx_conf_set_transaction_id P v c y =
     (let cv = conf_compile P (cy_trace y) v; y = pemit (Compile_complex_value v cv) y
      in case cv of
           None \<Rightarrow> (NGX_CONF_ERROR, y)
         | Some k \<Rightarrow>
             (let (ok, y) = cf_palloc P y
              in if \<not> ok then (NGX_CONF_ERROR, upd_conf c (\<lambda>l. l\<lparr>lc_transaction_id := Cv_Null\<rparr>) y)
                 else (NGX_CONF_OK, upd_conf c (\<lambda>l. l\<lparr>lc_transaction_id := Cv k\<rparr>) y)))"

section \<open>Configurations\<close>

text \<open>The array of location configurations is part of the main configuration.\<close>

definition ngx_http_coraza_create_main_conf :: "penv \<Rightarrow> cycle \<Rightarrow> bool \<times> cycle" where
  "ngx_http_coraza_create_main_conf P y =
     (let (ok, y) = cf_palloc P y
      in if \<not> ok then (False, y)
         else
           let (rules, y) = array_create P y
           in case rules of
                None \<Rightarrow> (False, y)
              | Some a \<Rightarrow>
                  (let (ok, y) = cf_palloc P y
                   in if \<not> ok then (False, y)
                      else (True, y\<lparr>cy_main := Some \<lparr>mc_waf = 0, mc_rules = a, mc_loc_confs = [],
                             mc_rules_inline = 0, mc_rules_file = 0, mc_rules_remote = 0\<rparr>\<rparr>)))"

definition ngx_http_coraza_init_main_conf :: "cycle \<Rightarrow> conf_rc \<times> cycle" where
  "ngx_http_coraza_init_main_conf y = (NGX_CONF_OK, y)"

definition ngx_http_coraza_create_conf :: "penv \<Rightarrow> cycle \<Rightarrow> nat option \<times> cycle" where
  "ngx_http_coraza_create_conf P y =
     (let (ok, y) = cf_palloc P y
      in if \<not> ok then (None, y)
         else
           let c = Suc (cy_next_conf y); y = y\<lparr>cy_next_conf := c\<rparr>;
               (rules, y) = array_create P y
           in case rules of
                None \<Rightarrow> (None, y)
              | Some a \<Rightarrow>
                  (Some c, upd_conf c (\<lambda>_. \<lparr>lc_waf = 0, lc_rules = a, lc_waf_owner = False,
                     lc_enable = NGX_CONF_UNSET, lc_has_rules = False,
                     lc_delay_response_headers = NGX_CONF_UNSET, lc_transaction_id = Cv_Unset\<rparr>) y))"

definition ngx_conf_merge_value :: "int \<Rightarrow> int \<Rightarrow> int \<Rightarrow> int" where
  "ngx_conf_merge_value conf prev dflt =
     (if conf = NGX_CONF_UNSET then (if prev = NGX_CONF_UNSET then dflt else prev) else conf)"

definition ngx_conf_merge_ptr_value :: "cv_ptr \<Rightarrow> cv_ptr \<Rightarrow> cv_ptr \<Rightarrow> cv_ptr" where
  "ngx_conf_merge_ptr_value conf prev dflt =
     (if conf = Cv_Unset then (if prev = Cv_Unset then dflt else prev) else conf)"

text \<open>
  The inheritance of rules: a new array with the parent's entries and then the
  child's, or the parent's array itself.
\<close>

definition merge_rules :: "penv \<Rightarrow> nat \<Rightarrow> nat \<Rightarrow> cycle \<Rightarrow> conf_rc \<times> cycle" where
  "merge_rules P p c y =
     (let pr = lc_rules (cy_confs y p); cr = lc_rules (cy_confs y c)
      in if cy_arrays y pr = [] then (NGX_CONF_OK, y)
         else if cy_arrays y cr = [] then
           (NGX_CONF_OK, upd_conf c (\<lambda>k. k\<lparr>lc_rules := pr,
              lc_has_rules := lc_has_rules (cy_confs y p) \<or> lc_has_rules k\<rparr>) y)
         else
           let (merged, y) = array_create P y
           in case merged of
                None \<Rightarrow> (NGX_CONF_ERROR, y)
              | Some a \<Rightarrow>
                  (let (ok, y) = cf_palloc P y
                   in if \<not> ok then (NGX_CONF_ERROR, y)
                      else
                        let y = array_append a (cy_arrays y pr) y;
                            (ok, y) = cf_palloc P y
                        in if \<not> ok then (NGX_CONF_ERROR, y)
                           else
                             let y = array_append a (cy_arrays y cr) y
                             in (NGX_CONF_OK, upd_conf c (\<lambda>k. k\<lparr>lc_rules := a, lc_has_rules := True\<rparr>) y)))"

definition inherit_flags :: "ngx_http_coraza_conf \<Rightarrow> ngx_http_coraza_conf \<Rightarrow> ngx_http_coraza_conf" where
  "inherit_flags pc k = k\<lparr>
     lc_enable := ngx_conf_merge_value (lc_enable k) (lc_enable pc) 0,
     lc_delay_response_headers :=
       ngx_conf_merge_value (lc_delay_response_headers k) (lc_delay_response_headers pc) 1,
     lc_transaction_id := ngx_conf_merge_ptr_value (lc_transaction_id k) (lc_transaction_id pc) Cv_Null\<rparr>"

definition ngx_http_coraza_merge_conf :: "penv \<Rightarrow> nat \<Rightarrow> nat \<Rightarrow> cycle \<Rightarrow> conf_rc \<times> cycle" where
  "ngx_http_coraza_merge_conf P p c y =
     (case merge_rules P p c (upd_conf c (inherit_flags (cy_confs y p)) y) of
        (NGX_CONF_ERROR, y) \<Rightarrow> (NGX_CONF_ERROR, y)
      | (NGX_CONF_OK, y) \<Rightarrow>
          (let (ok, y) = cf_palloc P y
           in if \<not> ok then (NGX_CONF_ERROR, y)
              else (NGX_CONF_OK, upd_main (\<lambda>m. m\<lparr>mc_loc_confs := mc_loc_confs m @ [c]\<rparr>) y)))"

definition ngx_http_coraza_validate_rules :: "cycle \<Rightarrow> int" where
  "ngx_http_coraza_validate_rules y =
     (case cy_main y of
        None \<Rightarrow> NGX_OK
      | Some m \<Rightarrow>
          if mc_rules_inline m \<noteq> 0 \<or> mc_rules_file m \<noteq> 0 then NGX_OK
          else if (case cy_http y of None \<Rightarrow> False | Some c \<Rightarrow> lc_enable (cy_confs y c) = 1) then NGX_ERROR
          else if \<exists>c \<in> set (mc_loc_confs m). lc_enable (cy_confs y c) = 1 then NGX_ERROR
          else NGX_OK)"

text \<open>
  Registration.  The handlers of the three phases the module hooks and the heads
  of the two filter chains with the module's saved pointers to the rest; what
  other modules installed is named by a number.
\<close>

datatype handler_fn = Rewrite_handler | Pre_access_handler | Log_handler | Other_handler nat

datatype filter_fn = Coraza_filter | Other_filter nat

record registration =
  rewrite_phase :: "handler_fn list"
  preaccess_phase :: "handler_fn list"
  log_phase :: "handler_fn list"
  top_header_filter :: filter_fn
  saved_header_filter :: filter_fn
  top_body_filter :: filter_fn
  saved_body_filter :: filter_fn

definition ngx_http_coraza_header_filter_init :: "registration \<Rightarrow> int \<times> registration" where
  "ngx_http_coraza_header_filter_init g =
     (NGX_OK, g\<lparr>saved_header_filter := top_header_filter g, top_header_filter := Coraza_filter\<rparr>)"

definition ngx_http_coraza_body_filter_init :: "registration \<Rightarrow> int \<times> registration" where
  "ngx_http_coraza_body_filter_init g =
     (NGX_OK, g\<lparr>saved_body_filter := top_body_filter g, top_body_filter := Coraza_filter\<rparr>)"

definition init_filters :: "registration \<Rightarrow> int \<times> registration" where
  "init_filters g =
     (let (rc, g) = ngx_http_coraza_header_filter_init g
      in if rc \<noteq> NGX_OK then (rc, g)
         else
           let (rc, g) = ngx_http_coraza_body_filter_init g
           in if rc \<noteq> NGX_OK then (rc, g) else (NGX_OK, g))"

definition ngx_http_coraza_init ::
  "penv \<Rightarrow> bool \<Rightarrow> registration \<Rightarrow> cycle \<Rightarrow> (int \<times> registration) \<times> cycle" where
  "ngx_http_coraza_init P has_core g y =
     (if ngx_http_coraza_validate_rules y \<noteq> NGX_OK then ((NGX_ERROR, g), y)
      else if \<not> has_core then ((NGX_ERROR, g), y)
      else
        let (ok, y) = cf_palloc P y
        in if \<not> ok then ((NGX_ERROR, g), y)
           else
             let g = g\<lparr>rewrite_phase := rewrite_phase g @ [Rewrite_handler]\<rparr>;
                 (ok, y) = cf_palloc P y
             in if \<not> ok then ((NGX_ERROR, g), y)
                else
                  let g = g\<lparr>preaccess_phase := preaccess_phase g @ [Pre_access_handler]\<rparr>;
                      (ok, y) = cf_palloc P y
                  in if \<not> ok then ((NGX_ERROR, g), y)
                     else (init_filters (g\<lparr>log_phase := log_phase g @ [Log_handler]\<rparr>), y))"

section \<open>Vocabulary of the properties\<close>

text \<open>The file has this content: reads give it piece by piece, in any sizes up to the buffer.\<close>

definition file_has :: "penv \<Rightarrow> ngx_str \<Rightarrow> bytes \<Rightarrow> bool" where
  "file_has P path content \<longleftrightarrow>
     (\<forall>tr off. conf_open P tr path \<and>
        (case conf_read P tr path 4096 off of
           None \<Rightarrow> False
         | Some bs \<Rightarrow> length bs \<le> 4096 \<and> bs = take (length bs) (drop off content) \<and>
             (bs = [] \<longrightarrow> length content \<le> off)))"

text \<open>Two states with the same configuration and library; only the history differs.\<close>

definition same_conf :: "cycle \<Rightarrow> cycle \<Rightarrow> bool" where
  "same_conf y y' \<longleftrightarrow>
     cy_main y' = cy_main y \<and> cy_http y' = cy_http y \<and> cy_confs y' = cy_confs y \<and>
     cy_arrays y' = cy_arrays y \<and> cy_next_conf y' = cy_next_conf y \<and>
     cy_next_array y' = cy_next_array y \<and> dl_handle y' = dl_handle y \<and> dl_ptrs y' = dl_ptrs y"

definition conf_rules :: "cycle \<Rightarrow> nat \<Rightarrow> ngx_http_coraza_rule_entry list" where
  "conf_rules y c = cy_arrays y (lc_rules (cy_confs y c))"

text \<open>The state after the rule \<open>e\<close> has been added to configuration \<open>c\<close>.\<close>

definition rule_stored :: "nat \<Rightarrow> ngx_http_coraza_rule_entry \<Rightarrow> cycle \<Rightarrow> cycle \<Rightarrow> bool" where
  "rule_stored c e y y' \<longleftrightarrow>
     cy_arrays y' = (cy_arrays y)(lc_rules (cy_confs y c) := conf_rules y c @ [e]) \<and>
     cy_confs y' = (cy_confs y)(c := (cy_confs y c)\<lparr>lc_has_rules := True\<rparr>) \<and>
     cy_http y' = cy_http y \<and> cy_next_conf y' = cy_next_conf y \<and> cy_next_array y' = cy_next_array y \<and>
     dl_handle y' = dl_handle y \<and> dl_ptrs y' = dl_ptrs y \<and>
     cy_main y' = map_option (\<lambda>m. case re_type e of
       NGX_CORAZA_RULE_INLINE \<Rightarrow> m\<lparr>mc_rules_inline := mc_rules_inline m + 1\<rparr>
     | NGX_CORAZA_RULE_FILE \<Rightarrow> m\<lparr>mc_rules_file := mc_rules_file m + 1\<rparr>) (cy_main y)"

section \<open>Rules files\<close>

lemma same_conf_refl [simp]: "same_conf y y"
  by (simp add: same_conf_def)

lemma same_conf_pemit [simp]: "same_conf y (pemit e y') = same_conf y y'"
  by (simp add: same_conf_def)

lemma same_conf_trans: "same_conf y y' \<Longrightarrow> same_conf y' y'' \<Longrightarrow> same_conf y y''"
  by (simp add: same_conf_def)

lemma rules_scan_all_append:
  "rules_scan_all s (a @ b) =
     (case ngx_http_coraza_rules_scan s a of
        (Some bad, s') \<Rightarrow> (Some bad, s')
      | (None, s') \<Rightarrow> rules_scan_all s' b)"
  by (simp add: rules_scan_all_def rules_scan_append split: option.splits prod.splits)

lemma check_rules_file_loop_returns:
  assumes "file_has P path content" "off \<le> length content"
  shows "\<exists>y'. check_rules_file_loop P path off s y = Some (rules_scan_all s (drop off content), y') \<and>
    same_conf y y'"
  using assms(2)
proof (induction "length content - off" arbitrary: off s y rule: less_induct)
  case less
  obtain bs where rd: "conf_read P (cy_trace y) path 4096 off = Some bs"
    and bs: "bs = take (length bs) (drop off content)" "bs = [] \<Longrightarrow> length content \<le> off"
    using assms(1) by (fastforce simp: file_has_def split: option.splits)
  have whole: "drop off content = bs @ drop (off + length bs) content"
    by (metis add.commute append_take_drop_id bs(1) drop_drop)
  show ?case
  proof (cases bs)
    case Nil
    then show ?thesis using bs(2)
      by (subst check_rules_file_loop.simps) (simp add: rd rules_scan_all_def)
  next
    case (Cons b bs')
    obtain r s' where sc: "ngx_http_coraza_rules_scan s bs = (r, s')" by fastforce
    have len: "off + length bs \<le> length content"
      using whole less.prems by (metis append_eq_conv_conj bs(1) drop_eq_Nil length_append length_drop
          length_take min.cobounded1 nat_add_left_cancel_le ordered_cancel_comm_monoid_diff_class.add_diff_inverse)
    have less_len: "length content - (off + length bs) < length content - off"
      using len Cons by (simp add: diff_less_mono2)
    let ?y = "pemit (Conf_read path off (Some bs)) y"
    have loop: "check_rules_file_loop P path off s y =
        (case ngx_http_coraza_rules_scan s bs of
           (Some bad, s) \<Rightarrow> Some ((Some bad, s), ?y)
         | (None, s) \<Rightarrow> check_rules_file_loop P path (off + length bs) s ?y)"
      unfolding check_rules_file_loop.simps [of P path off s y] rd Let_def option.case Cons list.case ..
    have all: "rules_scan_all s (drop off content) =
        (case ngx_http_coraza_rules_scan s bs of
           (Some bad, s) \<Rightarrow> (Some bad, s)
         | (None, s) \<Rightarrow> rules_scan_all s (drop (off + length bs) content))"
      by (subst whole) (rule rules_scan_all_append)
    have y: "same_conf y ?y" by simp
    show ?thesis
    proof (cases r)
      case None
      then show ?thesis
        using less.hyps [OF less_len len, of s' ?y] same_conf_trans [OF y]
        unfolding loop all sc by auto
    next
      case (Some bad)
      then show ?thesis using y unfolding loop all sc by simp
    qed
  qed
qed

section \<open>Directives\<close>

lemma report_None_iff: "report p = None \<longleftrightarrow> fst p = None"
  by (simp add: report_def)

lemma check_rules_file_verdict:
  assumes "conf_full_name P (cy_trace y) v = Some full" "file_has P full content" "scannable content"
  shows "\<exists>y'. ngx_http_coraza_check_rules_file P v y =
      Some ((if seclang_refused content = None then NGX_CONF_OK else NGX_CONF_ERROR, full), y') \<and>
    same_conf y y'"
proof -
  let ?y = "pemit (Conf_open full True) (pemit (Full_name v (Some full)) y)"
  have opened: "conf_open P tr full" for tr using assms(2) by (simp add: file_has_def)
  obtain y' where y': "check_rules_file_loop P full 0 ngx_http_coraza_rules_scan_init ?y =
      Some (rules_scan_all ngx_http_coraza_rules_scan_init content, y')" "same_conf ?y y'"
    using check_rules_file_loop_returns [OF assms(2), of 0 ngx_http_coraza_rules_scan_init ?y] by auto
  have "same_conf y y'" by (rule same_conf_trans [OF _ y'(2)]) simp
  moreover have "fst (rules_scan_all ngx_http_coraza_rules_scan_init content) = None \<longleftrightarrow>
      seclang_refused content = None"
    using scan_lines_scannable [OF assms(3)] report_None_iff by metis
  ultimately show ?thesis
    using y'(1) opened assms(1)
    by (cases "rules_scan_all ngx_http_coraza_rules_scan_init content")
      (auto simp: ngx_http_coraza_check_rules_file_def)
qed

lemma store_rule_ok:
  "store_rule P ty v c y = (NGX_CONF_OK, y') \<Longrightarrow>
   y' = upd_conf c (\<lambda>k. k\<lparr>lc_has_rules := True\<rparr>)
     (array_append (lc_rules (cy_confs y c)) [\<lparr>re_type = ty, re_value = v\<rparr>]
       (y\<lparr>cy_trace := cy_trace y'\<rparr>))"
  by (auto simp: store_rule_def cf_palloc_eq array_append_def upd_conf_def pemit_def Let_def split: if_splits)

lemma store_rule_memory:
  "(\<And>tr. conf_alloc P tr) \<Longrightarrow> fst (store_rule P ty v c y) = NGX_CONF_OK"
  by (simp add: store_rule_def cf_palloc_eq Let_def)

lemma rule_stored_inline:
  assumes "store_rule P NGX_CORAZA_RULE_INLINE v c y = (NGX_CONF_OK, y')"
  shows "rule_stored c \<lparr>re_type = NGX_CORAZA_RULE_INLINE, re_value = v\<rparr> y
    (upd_main (\<lambda>m. m\<lparr>mc_rules_inline := mc_rules_inline m + 1\<rparr>) y')"
  by (subst store_rule_ok [OF assms]) (simp add: rule_stored_def conf_rules_def)

lemma rule_stored_file:
  assumes "store_rule P NGX_CORAZA_RULE_FILE v c y0 = (NGX_CONF_OK, y')" "same_conf y y0"
  shows "rule_stored c \<lparr>re_type = NGX_CORAZA_RULE_FILE, re_value = v\<rparr> y
    (upd_main (\<lambda>m. m\<lparr>mc_rules_file := mc_rules_file m + 1\<rparr>) y')"
  using assms(2) by (subst store_rule_ok [OF assms(1)]) (simp add: rule_stored_def conf_rules_def same_conf_def)

text \<open>
  C30: take a file whose name resolves, which can be read in reads of any positive size,
  and whose content has no NUL byte and no continuation backslash with blanks after it
  (\<open>scannable\<close>; the scan misses a directive that is cut that way).  Given memory,
  \<open>coraza_rules_file\<close> on it returns, whatever the sizes of the reads, and its outcome
  is decided by the content: if the line-based reference finds a refused directive the
  configuration is rejected and nothing is stored, otherwise the resolved path is
  appended to the rules of the location.
\<close>

theorem rules_file_directive:
  assumes "conf_full_name P (cy_trace y) v = Some full" "file_has P full content" "scannable content"
    and "\<And>tr. conf_alloc P tr"
  shows "\<exists>y'. (if seclang_refused content = None
    then ngx_conf_set_rules_file P v c y = Some (NGX_CONF_OK, y') \<and>
      rule_stored c \<lparr>re_type = NGX_CORAZA_RULE_FILE, re_value = full\<rparr> y y'
    else ngx_conf_set_rules_file P v c y = Some (NGX_CONF_ERROR, y') \<and> same_conf y y')"
proof -
  obtain y0 where y0: "ngx_http_coraza_check_rules_file P v y =
      Some ((if seclang_refused content = None then NGX_CONF_OK else NGX_CONF_ERROR, full), y0)" "same_conf y y0"
    using check_rules_file_verdict [OF assms(1-3)] by blast
  show ?thesis
  proof (cases "seclang_refused content = None")
    case True
    obtain y1 where "store_rule P NGX_CORAZA_RULE_FILE full c y0 = (NGX_CONF_OK, y1)"
      using store_rule_memory [OF assms(4)] by (metis prod.collapse)
    then show ?thesis
      using True y0(1) rule_stored_file [OF _ y0(2)]
      by (auto simp: ngx_conf_set_rules_file_def intro: exI)
  next
    case False
    then show ?thesis using y0 by (auto simp: ngx_conf_set_rules_file_def)
  qed
qed

theorem rules_file_directive_witness:
  "\<exists>y'. ngx_conf_set_rules_file sample_penv [47] 1 sample_cycle = Some (NGX_CONF_ERROR, y') \<and>
     same_conf sample_cycle y'"
proof -
  have "file_has sample_penv [47] sample_text"
    by (auto simp: file_has_def sample_penv_def min_def)
  moreover have "scannable sample_text" "seclang_refused sample_text \<noteq> None"
    by (simp_all add: sample_text_def seclang_eval)
  moreover have "conf_full_name sample_penv (cy_trace sample_cycle) [47] = Some [47]"
    and "conf_alloc sample_penv tr" for tr by (simp_all add: sample_penv_def)
  ultimately show ?thesis
    using rules_file_directive [of sample_penv sample_cycle "[47]" "[47]" sample_text 1] by auto
qed

text \<open>
  C35: take a text without NUL bytes and without a continuation backslash that has
  blanks after it (\<open>scannable\<close>).  \<open>coraza_rules\<close> rejects it, leaving the configuration
  untouched, if the reference finds a refused directive in it; if the reference finds
  none, it is accepted whenever there is memory; and whenever it is accepted, it is the
  last rule of the location, which is marked as having rules.
\<close>

theorem rules_directive:
  assumes "scannable v"
  shows "(seclang_refused v \<noteq> None \<longrightarrow> ngx_conf_set_rules P v c y = (NGX_CONF_ERROR, y)) \<and>
    (seclang_refused v = None \<longrightarrow> (\<forall>tr. conf_alloc P tr) \<longrightarrow>
       fst (ngx_conf_set_rules P v c y) = NGX_CONF_OK) \<and>
    (\<forall>y'. ngx_conf_set_rules P v c y = (NGX_CONF_OK, y') \<longrightarrow>
       rule_stored c \<lparr>re_type = NGX_CORAZA_RULE_INLINE, re_value = v\<rparr> y y')"
proof -
  have eq: "ngx_conf_set_rules P v c y =
      (if seclang_refused v \<noteq> None then (NGX_CONF_ERROR, y)
       else case store_rule P NGX_CORAZA_RULE_INLINE v c y of
         (NGX_CONF_ERROR, y) \<Rightarrow> (NGX_CONF_ERROR, y)
       | (NGX_CONF_OK, y) \<Rightarrow>
           (NGX_CONF_OK, upd_main (\<lambda>m. m\<lparr>mc_rules_inline := mc_rules_inline m + 1\<rparr>) y))"
    unfolding ngx_conf_set_rules_def rules_scan_all_def [symmetric] scan_lines_scannable [OF assms, symmetric]
    by (cases "rules_scan_all ngx_http_coraza_rules_scan_init v") (simp add: report_None_iff)
  obtain rc y1 where st: "store_rule P NGX_CORAZA_RULE_INLINE v c y = (rc, y1)" by fastforce
  then show ?thesis
    using store_rule_memory [of P NGX_CORAZA_RULE_INLINE v c y] rule_stored_inline [of P v c y y1]
    by (cases rc) (auto simp: eq)
qed

theorem rules_directive_witness:
  "ngx_conf_set_rules sample_penv sample_text 1 sample_cycle = (NGX_CONF_ERROR, sample_cycle)"
proof -
  have "scannable sample_text" "seclang_refused sample_text \<noteq> None"
    by (simp_all add: sample_text_def seclang_eval)
  then show ?thesis using rules_directive [of sample_text sample_penv 1 sample_cycle] by simp
qed

section \<open>Inheritance\<close>

lemma array_create_Some:
  "array_create P y = (Some a, y') \<Longrightarrow>
   a = Suc (cy_next_array y) \<and>
   y' = y\<lparr>cy_next_array := a, cy_arrays := (cy_arrays y)(a := []), cy_trace := cy_trace y'\<rparr>"
  by (auto simp: array_create_def cf_palloc_eq pemit_def Let_def split: if_splits)

lemma merge_rules_ok:
  assumes "merge_rules P p c y = (NGX_CONF_OK, y')" "p \<noteq> c"
    and "lc_rules (cy_confs y p) \<le> cy_next_array y" "lc_rules (cy_confs y c) \<le> cy_next_array y"
  shows "conf_rules y' c = conf_rules y p @ conf_rules y c \<and>
    (\<exists>a h. cy_confs y' = (cy_confs y)(c := (cy_confs y c)\<lparr>lc_rules := a, lc_has_rules := h\<rparr>) \<and>
       a \<le> cy_next_array y' \<and>
       (a = lc_rules (cy_confs y p) \<and> conf_rules y p \<noteq> [] \<or>
        a = lc_rules (cy_confs y c) \<and> conf_rules y p = [] \<or> a > cy_next_array y) \<and>
       (h \<longleftrightarrow> (if conf_rules y p = [] then lc_has_rules (cy_confs y c)
              else conf_rules y c \<noteq> [] \<or> lc_has_rules (cy_confs y p) \<or> lc_has_rules (cy_confs y c)))) \<and>
    (\<forall>a \<le> cy_next_array y. cy_arrays y' a = cy_arrays y a) \<and> cy_next_array y \<le> cy_next_array y' \<and>
    cy_main y' = cy_main y \<and> cy_http y' = cy_http y \<and> cy_next_conf y' = cy_next_conf y \<and>
    dl_handle y' = dl_handle y \<and> dl_ptrs y' = dl_ptrs y"
proof -
  let ?p = "cy_confs y p" and ?c = "cy_confs y c"
  consider (none) "conf_rules y p = []"
    | (share) "conf_rules y p \<noteq> []" "conf_rules y c = []"
    | (both) "conf_rules y p \<noteq> []" "conf_rules y c \<noteq> []" by blast
  then show ?thesis
  proof cases
    case none
    then have "y' = y" using assms(1) by (simp add: merge_rules_def conf_rules_def)
    moreover have "cy_confs y = (cy_confs y)(c := ?c\<lparr>lc_rules := lc_rules ?c, lc_has_rules := lc_has_rules ?c\<rparr>)"
      by simp
    ultimately show ?thesis using none assms(4)
      by (intro conjI exI [of _ "lc_rules ?c"] exI [of _ "lc_has_rules ?c"]) auto
  next
    case share
    then have "y' = upd_conf c (\<lambda>k. k\<lparr>lc_rules := lc_rules ?p, lc_has_rules := lc_has_rules ?p \<or> lc_has_rules k\<rparr>) y"
      using assms(1) by (simp add: merge_rules_def conf_rules_def)
    then show ?thesis using share assms(2-4)
      by (intro conjI exI [of _ "lc_rules ?p"] exI [of _ "lc_has_rules ?p \<or> lc_has_rules ?c"])
        (auto simp: conf_rules_def)
  next
    case both
    let ?a = "Suc (cy_next_array y)"
    have "cy_confs y' = (cy_confs y)(c := ?c\<lparr>lc_rules := ?a, lc_has_rules := True\<rparr>) \<and>
      cy_arrays y' = (cy_arrays y)(?a := conf_rules y p @ conf_rules y c) \<and> cy_next_array y' = ?a \<and>
      cy_main y' = cy_main y \<and> cy_http y' = cy_http y \<and> cy_next_conf y' = cy_next_conf y \<and>
      dl_handle y' = dl_handle y \<and> dl_ptrs y' = dl_ptrs y"
      using assms both
      by (auto simp: merge_rules_def conf_rules_def array_create_def cf_palloc_eq Let_def split: if_splits)
    then show ?thesis using both assms(2-4)
      by (intro conjI exI [of _ ?a] exI [of _ True]) (auto simp: conf_rules_def)
  qed
qed

lemma inherit_flags_sel [simp]:
  "lc_rules (inherit_flags k c) = lc_rules c" "lc_has_rules (inherit_flags k c) = lc_has_rules c"
  "lc_waf (inherit_flags k c) = lc_waf c" "lc_waf_owner (inherit_flags k c) = lc_waf_owner c"
  by (simp_all add: inherit_flags_def)

lemma merge_conf_ok:
  assumes "ngx_http_coraza_merge_conf P p c y = (NGX_CONF_OK, y')" "p \<noteq> c"
    and "lc_rules (cy_confs y p) \<le> cy_next_array y" "lc_rules (cy_confs y c) \<le> cy_next_array y"
  obtains a h where
    "cy_confs y' = (cy_confs y)(c := (inherit_flags (cy_confs y p) (cy_confs y c))\<lparr>lc_rules := a, lc_has_rules := h\<rparr>)"
    "conf_rules y' c = conf_rules y p @ conf_rules y c"
    "a \<le> cy_next_array y'"
    "a = lc_rules (cy_confs y p) \<and> conf_rules y p \<noteq> [] \<or>
     a = lc_rules (cy_confs y c) \<and> conf_rules y p = [] \<or> a > cy_next_array y"
    "h \<longleftrightarrow> (if conf_rules y p = [] then lc_has_rules (cy_confs y c)
           else conf_rules y c \<noteq> [] \<or> lc_has_rules (cy_confs y p) \<or> lc_has_rules (cy_confs y c))"
    "\<forall>a \<le> cy_next_array y. cy_arrays y' a = cy_arrays y a" "cy_next_array y \<le> cy_next_array y'"
    "cy_main y' = map_option (\<lambda>m. m\<lparr>mc_loc_confs := mc_loc_confs m @ [c]\<rparr>) (cy_main y)"
    "cy_http y' = cy_http y" "cy_next_conf y' = cy_next_conf y"
proof -
  let ?y = "upd_conf c (inherit_flags (cy_confs y p)) y"
  obtain y2 where y2: "merge_rules P p c ?y = (NGX_CONF_OK, y2)"
    and y': "y' = upd_main (\<lambda>m. m\<lparr>mc_loc_confs := mc_loc_confs m @ [c]\<rparr>) (pemit (Conf_alloc True) y2)"
    using assms(1)
    by (auto simp: ngx_http_coraza_merge_conf_def cf_palloc_eq split: prod.splits conf_rc.splits if_splits)
  have cr: "conf_rules ?y d = conf_rules y d" for d by (simp add: conf_rules_def)
  note m = merge_rules_ok [OF y2 assms(2), unfolded cr]
  have "conf_rules y2 c = conf_rules y' c" by (simp add: y' conf_rules_def)
  then show thesis
    using m assms(2-4) by (auto simp: y' intro!: that)
qed

lemma merge_conf_frame:
  assumes "ngx_http_coraza_merge_conf P p c y = (NGX_CONF_OK, y')" "p \<noteq> c"
    and "lc_rules (cy_confs y p) \<le> cy_next_array y" "lc_rules (cy_confs y c) \<le> cy_next_array y"
    and "d \<noteq> c" "lc_rules (cy_confs y d) \<le> cy_next_array y"
  shows "cy_confs y' d = cy_confs y d \<and> conf_rules y' d = conf_rules y d \<and>
    lc_rules (cy_confs y' d) \<le> cy_next_array y'"
  by (rule merge_conf_ok [OF assms(1-4)]) (use assms(5,6) in \<open>auto simp: conf_rules_def\<close>)

end
