(* ===== verification/Dl.thy ===== *)
theory Dl
  imports Process
begin

text \<open>
  Loading of libcoraza in a worker (\<open>src/src/ngx_http_coraza_dl.c\<close> over
  \<open>src/src/dynlib.h\<close>) and the wrappers of the calls that act on configurations
  and WAFs; the wrappers of the calls on transactions are in \<open>Base\<close>.

  The invariant: while the library is open every function pointer is set and the
  library reported a supported version, and there is one open more than there
  are closes; otherwise as many of each.
\<close>

section \<open>The loader\<close>

definition CORAZA_DYNLIB :: string where
  "CORAZA_DYNLIB = ''libcoraza'' @ ''.so''"

definition dynlib_open :: "penv \<Rightarrow> string \<Rightarrow> cycle \<Rightarrow> bool \<times> cycle" where
  "dynlib_open P path y = (let h = dlopen P (cy_trace y) path in (h, pemit (Dl_open path h) y))"

definition dynlib_sym :: "penv \<Rightarrow> string \<Rightarrow> cycle \<Rightarrow> bool \<times> cycle" where
  "dynlib_sym P name y = (let p = dlsym P (cy_trace y) name in (p, pemit (Dl_sym name p) y))"

definition dynlib_close :: "cycle \<Rightarrow> cycle" where
  "dynlib_close y = pemit Dl_close y"

text \<open>The symbols in the order the source resolves them.\<close>

definition dl_symbols :: "string list" where
  "dl_symbols = [
     ''coraza_new_waf_config'', ''coraza_rules_add'', ''coraza_rules_add_file'',
     ''coraza_free_waf_config'', ''coraza_new_waf'', ''coraza_free_waf'', ''coraza_free_string'',
     ''coraza_rules_count'', ''coraza_new_transaction'', ''coraza_new_transaction_with_id'',
     ''coraza_free_transaction'', ''coraza_intervention'', ''coraza_free_intervention'',
     ''coraza_process_connection'', ''coraza_process_uri'', ''coraza_add_request_header'',
     ''coraza_process_request_headers'', ''coraza_append_request_body'',
     ''coraza_process_request_body'', ''coraza_is_request_body_accessible'',
     ''coraza_add_response_header'', ''coraza_append_response_body'',
     ''coraza_process_response_body'', ''coraza_process_response_headers'',
     ''coraza_process_logging'', ''coraza_update_status_code'',
     ''coraza_is_response_body_processable'', ''coraza_add_request_headers'',
     ''coraza_add_response_headers'', ''coraza_version_num'']"

text \<open>
  \<open>DL_SYM\<close> for each symbol of the list, until one is missing: then the library is
  closed again and the handle cleared.
\<close>

fun DL_SYM :: "penv \<Rightarrow> string list \<Rightarrow> cycle \<Rightarrow> bool \<times> cycle" where
  "DL_SYM P [] y = (True, y)"
| "DL_SYM P (name # names) y =
     (let (p, y) = dynlib_sym P name y; y = y\<lparr>dl_ptrs := (dl_ptrs y)(name := p)\<rparr>
      in if \<not> p then (False, (dynlib_close y)\<lparr>dl_handle := False\<rparr>) else DL_SYM P names y)"

definition ngx_http_coraza_dl_open :: "penv \<Rightarrow> cycle \<Rightarrow> int \<times> cycle" where
  "ngx_http_coraza_dl_open P y =
     (if dl_handle y then (NGX_OK, y)
      else
        let (h, y) = dynlib_open P CORAZA_DYNLIB y; y = y\<lparr>dl_handle := h\<rparr>
        in if \<not> h then (NGX_ERROR, y)
           else
             let (ok, y) = DL_SYM P dl_symbols y
             in if \<not> ok then (NGX_ERROR, y)
                else
                  let version = eng_version_num P (cy_trace y); y = pemit (Dl_version version) y
                  in if version < 10700 then (NGX_ERROR, (dynlib_close y)\<lparr>dl_handle := False\<rparr>)
                     else (NGX_OK, y))"

definition ngx_http_coraza_dl_close :: "cycle \<Rightarrow> cycle" where
  "ngx_http_coraza_dl_close y = y"

section \<open>Wrappers\<close>

definition coraza_new_waf_config :: "penv \<Rightarrow> cycle \<Rightarrow> nat \<times> cycle" where
  "coraza_new_waf_config P y = (let c = eng_new_waf_config P (cy_trace y) in (c, pemit (New_waf_config c) y))"

definition coraza_rules_add :: "penv \<Rightarrow> nat \<Rightarrow> ngx_str \<Rightarrow> cycle \<Rightarrow> int \<times> cycle" where
  "coraza_rules_add P c s y = (let n = eng_rules_add P (cy_trace y) c s in (n, pemit (Rules_add c s n) y))"

definition coraza_rules_add_file :: "penv \<Rightarrow> nat \<Rightarrow> ngx_str \<Rightarrow> cycle \<Rightarrow> int \<times> cycle" where
  "coraza_rules_add_file P c s y =
     (let n = eng_rules_add_file P (cy_trace y) c s in (n, pemit (Rules_add_file c s n) y))"

definition coraza_free_waf_config :: "nat \<Rightarrow> cycle \<Rightarrow> cycle" where
  "coraza_free_waf_config c y = pemit (Free_waf_config c) y"

definition coraza_new_waf :: "penv \<Rightarrow> nat \<Rightarrow> cycle \<Rightarrow> (waf \<times> bool) \<times> cycle" where
  "coraza_new_waf P c y =
     (let (v, err) = eng_new_waf P (cy_trace y) c in ((v, err), pemit (New_waf c v err) y))"

definition coraza_free_waf :: "waf \<Rightarrow> cycle \<Rightarrow> cycle" where
  "coraza_free_waf v y = pemit (Free_waf v) y"

text \<open>A null string, here the flag \<open>False\<close>, is not passed on.\<close>

definition coraza_free_string :: "bool \<Rightarrow> cycle \<Rightarrow> cycle" where
  "coraza_free_string s y = (if s then pemit Free_string y else y)"

definition coraza_rules_count :: "penv \<Rightarrow> waf \<Rightarrow> cycle \<Rightarrow> int \<times> cycle" where
  "coraza_rules_count P v y = (let n = eng_rules_count P (cy_trace y) v in (n, pemit (Rules_count v n) y))"

text \<open>
  The pointer a call goes through: the wrapper of each call of the interface, as its
  body in \<open>ngx_http_coraza_dl.c\<close> names it.  The calls on configurations and WAFs are
  events of the process, the calls on transactions are events of a request.  These two
  functions are the specification of what has to be loaded; they do not refer to the
  list of symbols of the loader.
\<close>

fun called_symbol :: "proc_event \<Rightarrow> string option" where
  "called_symbol (New_waf_config c) = Some ''coraza_new_waf_config''"
| "called_symbol (Rules_add c s n) = Some ''coraza_rules_add''"
| "called_symbol (Rules_add_file c s n) = Some ''coraza_rules_add_file''"
| "called_symbol (Free_waf_config c) = Some ''coraza_free_waf_config''"
| "called_symbol (New_waf c v err) = Some ''coraza_new_waf''"
| "called_symbol (Free_waf v) = Some ''coraza_free_waf''"
| "called_symbol Free_string = Some ''coraza_free_string''"
| "called_symbol (Rules_count v n) = Some ''coraza_rules_count''"
| "called_symbol (Dl_version v) = Some ''coraza_version_num''"
| "called_symbol _ = None"

fun call_symbol :: "coraza_call \<Rightarrow> string" where
  "call_symbol (Process_connection a p b q) = ''coraza_process_connection''"
| "call_symbol (Process_uri u m v) = ''coraza_process_uri''"
| "call_symbol (Add_request_header n l v k) = ''coraza_add_request_header''"
| "call_symbol (Add_request_headers bs l k) = ''coraza_add_request_headers''"
| "call_symbol Process_request_headers = ''coraza_process_request_headers''"
| "call_symbol Is_request_body_accessible = ''coraza_is_request_body_accessible''"
| "call_symbol (Append_request_body bs l) = ''coraza_append_request_body''"
| "call_symbol Process_request_body = ''coraza_process_request_body''"
| "call_symbol (Add_response_header n l v k) = ''coraza_add_response_header''"
| "call_symbol (Add_response_headers bs l k) = ''coraza_add_response_headers''"
| "call_symbol (Process_response_headers st v) = ''coraza_process_response_headers''"
| "call_symbol Is_response_body_processable = ''coraza_is_response_body_processable''"
| "call_symbol (Append_response_body bs l) = ''coraza_append_response_body''"
| "call_symbol Process_response_body = ''coraza_process_response_body''"
| "call_symbol Free_intervention = ''coraza_free_intervention''"
| "call_symbol (Update_status_code st) = ''coraza_update_status_code''"
| "call_symbol Process_logging = ''coraza_process_logging''"
| "call_symbol Free_transaction = ''coraza_free_transaction''"

fun request_symbol :: "event \<Rightarrow> string option" where
  "request_symbol (Eng t c n) = Some (call_symbol c)"
| "request_symbol (Polled t iv) = Some ''coraza_intervention''"
| "request_symbol (New_transaction v None t) = Some ''coraza_new_transaction''"
| "request_symbol (New_transaction v (Some tid) t) = Some ''coraza_new_transaction_with_id''"
| "request_symbol _ = None"

section \<open>The loader invariant\<close>

definition opens :: "proc_event list \<Rightarrow> nat" where
  "opens tr = length (filter (\<lambda>e. case e of Dl_open _ h \<Rightarrow> h | _ \<Rightarrow> False) tr)"

definition closes :: "proc_event list \<Rightarrow> nat" where
  "closes tr = length (filter (\<lambda>e. e = Dl_close) tr)"

definition dl_ok :: "cycle \<Rightarrow> bool" where
  "dl_ok y \<longleftrightarrow>
     (dl_handle y \<longrightarrow> (\<forall>s \<in> set dl_symbols. dl_ptrs y s) \<and>
        (\<exists>v \<ge> 10700. Dl_version v \<in> set (cy_trace y))) \<and>
     opens (cy_trace y) = closes (cy_trace y) + of_bool (dl_handle y)"

lemma opens_simps [simp]:
  "opens [] = 0" "opens (e # tr) = of_bool (case e of Dl_open _ h \<Rightarrow> h | _ \<Rightarrow> False) + opens tr"
  "opens (tr @ tr') = opens tr + opens tr'"
  by (simp_all add: opens_def)

lemma closes_simps [simp]:
  "closes [] = 0" "closes (e # tr) = of_bool (e = Dl_close) + closes tr"
  "closes (tr @ tr') = closes tr + closes tr'"
  by (simp_all add: closes_def)

lemma called_symbol_bound: "called_symbol e = Some s \<Longrightarrow> s \<in> set dl_symbols"
  by (cases e) (auto simp: dl_symbols_def)

lemma request_symbol_bound: "request_symbol e = Some s \<Longrightarrow> s \<in> set dl_symbols"
proof (cases e rule: request_symbol.cases)
  case (1 t c n)
  moreover assume "request_symbol e = Some s"
  ultimately show ?thesis by (cases c) (auto simp: dl_symbols_def)
qed (auto simp: dl_symbols_def)

lemma DL_SYM_result:
  "DL_SYM P names y = (ok, y') \<Longrightarrow> dl_handle y \<Longrightarrow>
   dl_handle y' = ok \<and> (ok \<longrightarrow> (\<forall>s. dl_ptrs y' s \<longleftrightarrow> s \<in> set names \<or> dl_ptrs y s)) \<and>
   opens (cy_trace y') = opens (cy_trace y) \<and> closes (cy_trace y') = closes (cy_trace y) + of_bool (\<not> ok)"
  by (induction P names y rule: DL_SYM.induct)
    (auto simp: dynlib_sym_def dynlib_close_def Let_def split: if_splits)

lemma DL_SYM_resolves:
  "(\<And>tr s. dlsym P tr s) \<Longrightarrow> DL_SYM P names y \<noteq> (False, y')"
  by (induction P names y rule: DL_SYM.induct) (simp_all add: dynlib_sym_def Let_def)

lemma dl_open_result:
  assumes "dl_ok y" "ngx_http_coraza_dl_open P y = (rc, y')"
  shows "dl_ok y' \<and> rc = (if dl_handle y' then NGX_OK else NGX_ERROR)"
proof (cases "dl_handle y")
  case True
  then show ?thesis using assms by (simp add: ngx_http_coraza_dl_open_def)
next
  case False
  define y0 where "y0 = pemit (Dl_open CORAZA_DYNLIB True) (y\<lparr>dl_handle := True\<rparr>)"
  obtain ok y1 where y1: "DL_SYM P dl_symbols y0 = (ok, y1)" by fastforce
  have y0: "dl_handle y0" "(pemit (Dl_open CORAZA_DYNLIB True) y)\<lparr>dl_handle := True\<rparr> = y0"
    by (simp_all add: y0_def pemit_def)
  have balance: "opens (cy_trace y) = closes (cy_trace y)" using assms(1) False by (simp add: dl_ok_def)
  then have "opens (cy_trace y0) = Suc (closes (cy_trace y0))" by (simp add: y0_def)
  moreover note DL_SYM_result [OF y1 y0(1)]
  ultimately show ?thesis
    using assms(2) False balance y1
    by (auto simp: ngx_http_coraza_dl_open_def dynlib_open_def dynlib_close_def dl_ok_def y0(2) Let_def
        split: if_splits intro!: exI [of _ "eng_version_num P (cy_trace y1)"])
qed

lemma dl_open_accepts:
  assumes "\<forall>tr s. dlopen P tr s \<and> dlsym P tr s \<and> eng_version_num P tr \<ge> 10700"
    and "ngx_http_coraza_dl_open P y = (rc, y')"
  shows "rc = NGX_OK"
  using assms DL_SYM_resolves [of P dl_symbols]
  by (auto simp: ngx_http_coraza_dl_open_def dynlib_open_def Let_def simp flip: not_le
      split: if_splits prod.splits)

text \<open>
  C34: loading is all or nothing.  Started from a state that satisfies the loader
  invariant, it ends in one; it returns \<open>NGX_OK\<close> exactly when the library is open, and
  then the pointer behind every call the connector makes is set, those on
  configurations and WAFs as well as those on transactions, and a version of at least
  1.7.0 was read; on failure the library is not left open: there are as many closes as
  opens.  A library that has all symbols and a supported version is accepted.
\<close>

theorem dl_open_all_or_nothing:
  assumes "dl_ok y" and "ngx_http_coraza_dl_open P y = (rc, y')"
  shows "dl_ok y' \<and> rc = (if dl_handle y' then NGX_OK else NGX_ERROR) \<and>
    (rc = NGX_OK \<longrightarrow> (\<forall>e s. called_symbol e = Some s \<longrightarrow> dl_ptrs y' s) \<and>
       (\<forall>e s. request_symbol e = Some s \<longrightarrow> dl_ptrs y' s) \<and>
       (\<exists>v \<ge> 10700. Dl_version v \<in> set (cy_trace y'))) \<and>
    (rc \<noteq> NGX_OK \<longrightarrow> opens (cy_trace y') = closes (cy_trace y')) \<and>
    ((\<forall>tr s. dlopen P tr s \<and> dlsym P tr s \<and> eng_version_num P tr \<ge> 10700) \<longrightarrow> rc = NGX_OK)"
proof -
  have y': "dl_ok y'" "rc = (if dl_handle y' then NGX_OK else NGX_ERROR)"
    using dl_open_result [OF assms] by simp_all
  have "dl_handle y' \<Longrightarrow> s \<in> set dl_symbols \<Longrightarrow> dl_ptrs y' s" for s
    using y'(1) by (simp add: dl_ok_def)
  with y' show ?thesis
    using dl_open_accepts [OF _ assms(2)] called_symbol_bound request_symbol_bound
    by (auto simp: dl_ok_def split: if_splits)
qed

theorem dl_open_all_or_nothing_witness:
  "fst (ngx_http_coraza_dl_open sample_penv sample_cycle) = NGX_OK"
proof -
  have "dl_ok sample_cycle" by (simp add: dl_ok_def opens_def closes_def sample_cycle_def)
  moreover obtain rc y' where "ngx_http_coraza_dl_open sample_penv sample_cycle = (rc, y')" by fastforce
  ultimately show ?thesis
    using dl_open_all_or_nothing [of sample_cycle sample_penv rc y'] by (simp add: sample_penv_def)
qed

end
