(* ===== verification/Configured.thy ===== *)
theory Configured
  imports Config Dl
begin

text \<open>
  The states nginx can reach while it reads a configuration, as a step relation
  over the operations of \<open>Config\<close>, and the invariant they keep.  It is what the
  start of a worker relies on: no location has a WAF yet, each has a rules array
  of its own or shares a non-empty one, the array of the main configuration is
  not among them and stays empty, and the counters of rule directives say whether
  there are rules at all.
\<close>

section \<open>Reachable configurations\<close>

text \<open>
  What nginx can do with the module while it reads a configuration: create the
  main configuration, then create location configurations, run directives on
  them, and merge each of them once, in any order.  An operation that fails ends
  the configuration, so only successful ones are steps.
\<close>

definition no_cycle :: cycle where
  "no_cycle = \<lparr>cy_main = None, cy_http = None, cy_confs = (\<lambda>_. empty_conf 0), cy_arrays = (\<lambda>_. []),
     cy_next_conf = 0, cy_next_array = 0, dl_handle = False, dl_ptrs = (\<lambda>_. False), cy_trace = []\<rparr>"

inductive config_step :: "penv \<Rightarrow> cycle \<Rightarrow> cycle \<Rightarrow> bool" for P where
  create: "ngx_http_coraza_create_conf P y = (Some c, y') \<Longrightarrow>
    config_step P y (y'\<lparr>cy_http := (if cy_http y' = None then Some c else cy_http y')\<rparr>)"
| rules: "1 \<le> c \<Longrightarrow> c \<le> cy_next_conf y \<Longrightarrow> ngx_conf_set_rules P v c y = (NGX_CONF_OK, y') \<Longrightarrow>
    config_step P y y'"
| rules_file: "1 \<le> c \<Longrightarrow> c \<le> cy_next_conf y \<Longrightarrow>
    ngx_conf_set_rules_file P v c y = Some (NGX_CONF_OK, y') \<Longrightarrow> config_step P y y'"
| transaction_id: "1 \<le> c \<Longrightarrow> c \<le> cy_next_conf y \<Longrightarrow>
    ngx_conf_set_transaction_id P v c y = (NGX_CONF_OK, y') \<Longrightarrow> config_step P y y'"
| enable: "1 \<le> c \<Longrightarrow> c \<le> cy_next_conf y \<Longrightarrow> lc_enable (cy_confs y c) = NGX_CONF_UNSET \<Longrightarrow>
    config_step P y (upd_conf c (\<lambda>k. k\<lparr>lc_enable := of_bool b\<rparr>) y)"
| delay: "1 \<le> c \<Longrightarrow> c \<le> cy_next_conf y \<Longrightarrow> lc_delay_response_headers (cy_confs y c) = NGX_CONF_UNSET \<Longrightarrow>
    config_step P y (upd_conf c (\<lambda>k. k\<lparr>lc_delay_response_headers := of_bool b\<rparr>) y)"
| merge: "1 \<le> p \<Longrightarrow> p \<le> cy_next_conf y \<Longrightarrow> 1 \<le> c \<Longrightarrow> c \<le> cy_next_conf y \<Longrightarrow> p \<noteq> c \<Longrightarrow>
    cy_main y = Some m \<Longrightarrow> c \<notin> set (mc_loc_confs m) \<Longrightarrow>
    ngx_http_coraza_merge_conf P p c y = (NGX_CONF_OK, y') \<Longrightarrow> config_step P y y'"

inductive configured :: "penv \<Rightarrow> cycle \<Rightarrow> bool" for P where
  start: "ngx_http_coraza_create_main_conf P no_cycle = (True, y) \<Longrightarrow> configured P y"
| step: "configured P y \<Longrightarrow> config_step P y y' \<Longrightarrow> configured P y'"

definition conf_ok :: "ngx_http_coraza_main_conf \<Rightarrow> cycle \<Rightarrow> nat \<Rightarrow> bool" where
  "conf_ok m y c \<longleftrightarrow>
     lc_waf (cy_confs y c) = 0 \<and> \<not> lc_waf_owner (cy_confs y c) \<and>
     0 < lc_rules (cy_confs y c) \<and> lc_rules (cy_confs y c) \<le> cy_next_array y \<and>
     lc_rules (cy_confs y c) \<noteq> mc_rules m \<and>
     (lc_has_rules (cy_confs y c) \<longleftrightarrow> conf_rules y c \<noteq> [])"

definition unshared :: "cycle \<Rightarrow> bool" where
  "unshared y \<longleftrightarrow> (\<forall>c d. 1 \<le> c \<longrightarrow> c \<le> cy_next_conf y \<longrightarrow> 1 \<le> d \<longrightarrow> d \<le> cy_next_conf y \<longrightarrow> c \<noteq> d \<longrightarrow>
     lc_rules (cy_confs y c) = lc_rules (cy_confs y d) \<longrightarrow> conf_rules y c \<noteq> [])"

definition some_rules :: "cycle \<Rightarrow> bool" where
  "some_rules y \<longleftrightarrow> (\<exists>c. 1 \<le> c \<and> c \<le> cy_next_conf y \<and> conf_rules y c \<noteq> [])"

definition wf_config :: "cycle \<Rightarrow> bool" where
  "wf_config y \<longleftrightarrow>
     (\<exists>m. cy_main y = Some m \<and> mc_waf m = 0 \<and> 0 < mc_rules m \<and> mc_rules m \<le> cy_next_array y \<and>
        cy_arrays y (mc_rules m) = [] \<and> distinct (mc_loc_confs m) \<and>
        set (mc_loc_confs m) \<subseteq> {1..cy_next_conf y} \<and>
        (\<forall>c. 1 \<le> c \<longrightarrow> c \<le> cy_next_conf y \<longrightarrow> conf_ok m y c) \<and>
        (some_rules y \<longleftrightarrow> mc_rules_inline m + mc_rules_file m \<noteq> 0)) \<and>
     unshared y \<and> (\<forall>c. cy_http y = Some c \<longrightarrow> 1 \<le> c \<and> c \<le> cy_next_conf y)"

section \<open>Every step keeps the invariant\<close>

lemma wf_configI:
  assumes "cy_main y = Some m" "mc_waf m = 0" "0 < mc_rules m" "mc_rules m \<le> cy_next_array y"
    "cy_arrays y (mc_rules m) = []" "distinct (mc_loc_confs m)" "set (mc_loc_confs m) \<subseteq> {1..cy_next_conf y}"
    "\<And>c. 1 \<le> c \<Longrightarrow> c \<le> cy_next_conf y \<Longrightarrow> conf_ok m y c"
    "some_rules y \<longleftrightarrow> mc_rules_inline m + mc_rules_file m \<noteq> 0" "unshared y"
    "\<And>c. cy_http y = Some c \<Longrightarrow> 1 \<le> c \<and> c \<le> cy_next_conf y"
  shows "wf_config y"
  using assms unfolding wf_config_def by (intro conjI exI [of _ m]) simp_all

lemma wf_configE:
  assumes "wf_config y"
  obtains m where "cy_main y = Some m" "mc_waf m = 0" "0 < mc_rules m" "mc_rules m \<le> cy_next_array y"
    "cy_arrays y (mc_rules m) = []" "distinct (mc_loc_confs m)" "set (mc_loc_confs m) \<subseteq> {1..cy_next_conf y}"
    "\<And>c. 1 \<le> c \<Longrightarrow> c \<le> cy_next_conf y \<Longrightarrow> conf_ok m y c"
    "some_rules y \<longleftrightarrow> mc_rules_inline m + mc_rules_file m \<noteq> 0" "unshared y"
    "\<And>c. cy_http y = Some c \<Longrightarrow> 1 \<le> c \<and> c \<le> cy_next_conf y"
  using assms unfolding wf_config_def by (elim conjE exE) (rule that; simp)

lemma wf_create_main: "ngx_http_coraza_create_main_conf P no_cycle = (True, y) \<Longrightarrow> wf_config y"
  by (rule wf_configI)
    (auto simp: ngx_http_coraza_create_main_conf_def array_create_def cf_palloc_eq no_cycle_def
      some_rules_def unshared_def split: if_splits)

lemma wf_create:
  assumes "wf_config y" and "ngx_http_coraza_create_conf P y = (Some c, y')"
  shows "wf_config (y'\<lparr>cy_http := (if cy_http y' = None then Some c else cy_http y')\<rparr>)"
proof -
  let ?a = "Suc (cy_next_array y)"
  let ?z = "y'\<lparr>cy_http := (if cy_http y' = None then Some c else cy_http y')\<rparr>"
  have y': "c = Suc (cy_next_conf y)" "cy_confs y' = (cy_confs y)(c := empty_conf ?a)"
    "cy_arrays y' = (cy_arrays y)(?a := [])" "cy_next_conf y' = c" "cy_next_array y' = ?a"
    "cy_main y' = cy_main y" "cy_http y' = cy_http y"
    using assms(2)
    by (auto simp: ngx_http_coraza_create_conf_def array_create_def cf_palloc_eq empty_conf_def Let_def
        split: if_splits)
  from assms(1) show ?thesis
  proof (rule wf_configE)
    fix m
    assume m: "cy_main y = Some m" "mc_waf m = 0" "0 < mc_rules m" "mc_rules m \<le> cy_next_array y"
      "cy_arrays y (mc_rules m) = []" "distinct (mc_loc_confs m)" "set (mc_loc_confs m) \<subseteq> {1..cy_next_conf y}"
      and ok: "\<And>c. 1 \<le> c \<Longrightarrow> c \<le> cy_next_conf y \<Longrightarrow> conf_ok m y c"
      and cnt: "some_rules y \<longleftrightarrow> mc_rules_inline m + mc_rules_file m \<noteq> 0" and un: "unshared y"
      and http: "\<And>c. cy_http y = Some c \<Longrightarrow> 1 \<le> c \<and> c \<le> cy_next_conf y"
    have old: "conf_rules ?z d = conf_rules y d \<and> cy_confs ?z d = cy_confs y d"
      if "1 \<le> d" "d \<le> cy_next_conf y" for d
      using ok [OF that] that by (auto simp: conf_rules_def conf_ok_def y')
    have new: "conf_rules ?z c = []" by (simp add: conf_rules_def y' empty_conf_def)
    have range: "d \<le> cy_next_conf ?z \<longleftrightarrow> d \<le> cy_next_conf y \<or> d = c" for d using y' by auto
    show ?thesis
    proof (rule wf_configI)
      show "conf_ok m ?z d" if "1 \<le> d" "d \<le> cy_next_conf ?z" for d
        using ok [of d] old [of d] new that m(4) range
        by (auto simp: conf_ok_def y' empty_conf_def)
      show "some_rules ?z \<longleftrightarrow> mc_rules_inline m + mc_rules_file m \<noteq> 0"
        unfolding cnt [symmetric] some_rules_def using old new range by metis
      show "unshared ?z"
        unfolding unshared_def
      proof (intro allI impI)
        fix d e
        assume de: "1 \<le> d" "d \<le> cy_next_conf ?z" "1 \<le> e" "e \<le> cy_next_conf ?z" "d \<noteq> e"
          "lc_rules (cy_confs ?z d) = lc_rules (cy_confs ?z e)"
        then have "d \<noteq> c" "e \<noteq> c" using ok range old by (fastforce simp: y' empty_conf_def conf_ok_def)+
        then show "conf_rules ?z d \<noteq> []" using un de range old unfolding unshared_def by metis
      qed
      show "1 \<le> d \<and> d \<le> cy_next_conf ?z" if "cy_http ?z = Some d" for d
        using http that by (auto simp: y' split: if_splits)
    qed (use m in \<open>auto simp: y'\<close>)
  qed
qed

lemma wf_rule_stored:
  assumes "wf_config y" and "1 \<le> c" "c \<le> cy_next_conf y" and st: "rule_stored c e y y'"
  shows "wf_config y'"
  using assms(1)
proof (rule wf_configE)
  fix m
  assume m: "cy_main y = Some m" "mc_waf m = 0" "0 < mc_rules m" "mc_rules m \<le> cy_next_array y"
    "cy_arrays y (mc_rules m) = []" "distinct (mc_loc_confs m)" "set (mc_loc_confs m) \<subseteq> {1..cy_next_conf y}"
    and ok: "\<And>c. 1 \<le> c \<Longrightarrow> c \<le> cy_next_conf y \<Longrightarrow> conf_ok m y c"
    and un: "unshared y"
    and http: "\<And>c. cy_http y = Some c \<Longrightarrow> 1 \<le> c \<and> c \<le> cy_next_conf y"
  define m' where "m' = (case re_type e of
       NGX_CORAZA_RULE_INLINE \<Rightarrow> m\<lparr>mc_rules_inline := mc_rules_inline m + 1\<rparr>
     | NGX_CORAZA_RULE_FILE \<Rightarrow> m\<lparr>mc_rules_file := mc_rules_file m + 1\<rparr>)"
  note S = st [unfolded rule_stored_def]
  have m': "mc_waf m' = mc_waf m" "mc_rules m' = mc_rules m" "mc_loc_confs m' = mc_loc_confs m"
    "mc_rules_inline m' + mc_rules_file m' \<noteq> 0" "cy_main y' = Some m'"
    using S m(1) by (cases "re_type e"; simp add: m'_def)+
  note okc = ok [OF assms(2,3), unfolded conf_ok_def]
  have lr: "lc_rules (cy_confs y' d) = lc_rules (cy_confs y d)" for d using S by simp
  have cr: "conf_rules y' d =
      (if lc_rules (cy_confs y d) = lc_rules (cy_confs y c) then conf_rules y c @ [e] else conf_rules y d)" for d
    using S by (simp add: conf_rules_def)
  have same: "conf_rules y c = conf_rules y d" if "lc_rules (cy_confs y d) = lc_rules (cy_confs y c)" for d
    using that by (simp add: conf_rules_def)
  show "wf_config y'"
  proof (rule wf_configI)
    show "conf_ok m' y' d" if d: "1 \<le> d" "d \<le> cy_next_conf y'" for d
    proof (cases "d = c")
      case True
      then show ?thesis using okc S by (simp add: conf_ok_def cr m')
    next
      case False
      have okd: "conf_ok m y d" using ok d S by simp
      moreover have "conf_rules y c \<noteq> []" if "lc_rules (cy_confs y d) = lc_rules (cy_confs y c)"
        using un False d assms(2,3) that S unfolding unshared_def by metis
      ultimately show ?thesis using False S same [of d] by (auto simp: conf_ok_def cr m')
    qed
    show "some_rules y' \<longleftrightarrow> mc_rules_inline m' + mc_rules_file m' \<noteq> 0"
      using m'(4) assms(2,3) S by (auto simp: some_rules_def cr intro!: exI [of _ c])
    show "unshared y'"
      using un S by (simp add: unshared_def cr lr)
    show "cy_arrays y' (mc_rules m') = []" using okc m(5) S by (simp add: m')
  qed (use S m m' http in auto)
qed

lemma wf_upd_flags:
  assumes "wf_config y"
    and keep: "\<And>k. lc_waf (f k) = lc_waf k \<and> lc_waf_owner (f k) = lc_waf_owner k \<and>
      lc_rules (f k) = lc_rules k \<and> lc_has_rules (f k) = lc_has_rules k"
  shows "wf_config (upd_conf c f y)"
proof -
  have lr: "lc_rules (cy_confs (upd_conf c f y) d) = lc_rules (cy_confs y d)" for d
    using keep by simp
  have cr: "conf_rules (upd_conf c f y) d = conf_rules y d" for d
    using keep by (simp add: conf_rules_def)
  have ok: "conf_ok m (upd_conf c f y) d = conf_ok m y d" for m d
    unfolding conf_ok_def cr using keep by simp
  show ?thesis
    using assms(1) unfolding wf_config_def unshared_def some_rules_def cr ok lr by simp
qed

lemma wf_same_conf: "wf_config y \<Longrightarrow> same_conf y y' \<Longrightarrow> wf_config y'"
  by (simp add: wf_config_def same_conf_def conf_ok_def unshared_def some_rules_def conf_rules_def)

lemma set_transaction_id_ok:
  assumes "ngx_conf_set_transaction_id P v c y = (NGX_CONF_OK, y')"
  shows "\<exists>y0 k. same_conf y y0 \<and> y' = upd_conf c (\<lambda>l. l\<lparr>lc_transaction_id := Cv k\<rparr>) y0"
proof -
  obtain k where "y' = upd_conf c (\<lambda>l. l\<lparr>lc_transaction_id := Cv k\<rparr>)
      (pemit (Conf_alloc True) (pemit (Compile_complex_value v (Some k)) y))"
    using assms
    by (auto simp: ngx_conf_set_transaction_id_def cf_palloc_eq Let_def split: option.splits if_splits)
  then show ?thesis by (metis same_conf_pemit same_conf_refl)
qed

lemma set_rules_ok:
  "ngx_conf_set_rules P v c y = (NGX_CONF_OK, y') \<Longrightarrow>
   rule_stored c \<lparr>re_type = NGX_CORAZA_RULE_INLINE, re_value = v\<rparr> y y'"
  using rule_stored_inline [of P v c y]
  by (auto simp: ngx_conf_set_rules_def Let_def split: prod.splits option.splits if_splits conf_rc.splits)

fun conf_event :: "proc_event \<Rightarrow> bool" where
  "conf_event (Conf_alloc b) = True"
| "conf_event (Full_name p f) = True"
| "conf_event (Conf_open p b) = True"
| "conf_event (Conf_read p off bs) = True"
| "conf_event (Conf_close p) = True"
| "conf_event (Compile_complex_value v k) = True"
| "conf_event _ = False"

definition calm :: "cycle \<Rightarrow> cycle \<Rightarrow> bool" where
  "calm y y' \<longleftrightarrow> dl_handle y' = dl_handle y \<and> dl_ptrs y' = dl_ptrs y \<and>
     (\<exists>es. cy_trace y' = cy_trace y @ es \<and> list_all conf_event es)"

lemma calm_refl [simp]: "calm y y"
  by (simp add: calm_def)

lemma calm_trans: "calm y y' \<Longrightarrow> calm y' y'' \<Longrightarrow> calm y y''"
  by (auto simp: calm_def)

lemma calm_pemit: "calm y y' \<Longrightarrow> conf_event e \<Longrightarrow> calm y (pemit e y')"
  by (auto simp: calm_def)

lemma calm_same:
  "calm y y' \<Longrightarrow> cy_trace y'' = cy_trace y' \<Longrightarrow> dl_handle y'' = dl_handle y' \<Longrightarrow> dl_ptrs y'' = dl_ptrs y' \<Longrightarrow>
   calm y y''"
  by (simp add: calm_def)

text \<open>The loop only appends its reads to the history.\<close>

lemma check_rules_file_loop_appends:
  assumes run: "check_rules_file_loop P full offset scan y = Some r"
    and R: "\<And>y p off bs. R y (pemit (Conf_read p off bs) y)" "\<And>y y' y''. R y y' \<Longrightarrow> R y' y'' \<Longrightarrow> R y y''"
  shows "R y (snd r)"
proof -
  have "(\<lambda>(x, y) r. R y (snd r)) ((((P, full), offset), scan), y) r"
  proof (rule check_rules_file_loop.raw_induct [OF _ run])
    fix f :: "penv \<Rightarrow> ngx_str \<Rightarrow> nat \<Rightarrow> ngx_http_coraza_rules_scan_t \<Rightarrow> cycle \<Rightarrow>
      ((ngx_str option \<times> ngx_http_coraza_rules_scan_t) \<times> cycle) option"
    fix P full offset scan y r
    assume ih: "\<And>P full offset scan y r. f P full offset scan y = Some r \<Longrightarrow>
        (\<lambda>(x, y) r. R y (snd r)) ((((P, full), offset), scan), y) r"
      and body: "(let n = conf_read P (cy_trace y) full 4096 offset;
          y = pemit (Conf_read full offset n) y
      in case n of None \<Rightarrow> Some ((None, scan), y)
         | Some [] \<Rightarrow> Some (ngx_http_coraza_rules_scan_done scan, y)
         | Some (b # bs) \<Rightarrow>
             case ngx_http_coraza_rules_scan scan (b # bs) of
             (None, scan) \<Rightarrow> f P full (offset + length (b # bs)) scan y
             | (Some bad, scan) \<Rightarrow> Some ((Some bad, scan), y)) = Some r"
    let ?y = "pemit (Conf_read full offset (conf_read P (cy_trace y) full 4096 offset)) y"
    have "snd r = ?y \<or> R ?y (snd r)"
      using body ih [of P full _ _ ?y r]
      by (auto simp: Let_def split: option.splits list.splits prod.splits)
    then show "(\<lambda>(x, y) r. R y (snd r)) ((((P, full), offset), scan), y) r"
      using R(1) R(2) [of y ?y "snd r"] by auto
  qed
  then show ?thesis by simp
qed

lemma check_rules_file_appends:
  assumes run: "ngx_http_coraza_check_rules_file P v y = Some (r, y')"
    and R: "\<And>y e. conf_event e \<Longrightarrow> R y (pemit e y)" "\<And>y y' y''. R y y' \<Longrightarrow> R y' y'' \<Longrightarrow> R y y''"
  shows "R y y'"
proof -
  let ?y = "pemit (Full_name v (conf_full_name P (cy_trace y) v)) y"
  show ?thesis
  proof (cases "conf_full_name P (cy_trace y) v")
    case None
    then show ?thesis using run R(1) by (auto simp: ngx_http_coraza_check_rules_file_def)
  next
    case (Some full)
    let ?o = "conf_open P (cy_trace ?y) full"
    let ?z = "pemit (Conf_open full ?o) ?y"
    have z: "R y ?z" by (rule R(2) [OF R(1) R(1)]) simp_all
    show ?thesis
    proof (cases ?o)
      case False
      then have "y' = ?z" using run Some by (auto simp: ngx_http_coraza_check_rules_file_def)
      then show ?thesis using z by simp
    next
      case True
      then obtain r' where "check_rules_file_loop P full 0 ngx_http_coraza_rules_scan_init ?z = Some r'"
        "y' = pemit (Conf_close full) (snd r')"
        using run Some by (auto simp: ngx_http_coraza_check_rules_file_def split: option.splits)
      moreover have "R ?z (snd r')"
        by (rule check_rules_file_loop_appends [OF calculation(1)]) (auto intro: R)
      moreover have "R (snd r') (pemit (Conf_close full) (snd r'))" by (rule R(1)) simp
      ultimately show ?thesis using R(2) [OF R(2) [OF z]] by blast
    qed
  qed
qed

lemma check_rules_file_same:
  "ngx_http_coraza_check_rules_file P v y = Some (r, y') \<Longrightarrow> same_conf y y'"
  by (rule check_rules_file_appends [where R = same_conf]) (auto intro: same_conf_trans)

lemma check_rules_file_calm:
  "ngx_http_coraza_check_rules_file P v y = Some (r, y') \<Longrightarrow> calm y y'"
  by (rule check_rules_file_appends [where R = calm]) (auto intro: calm_pemit calm_trans)

lemma set_rules_file_ok:
  assumes "ngx_conf_set_rules_file P v c y = Some (NGX_CONF_OK, y')"
  shows "\<exists>full. rule_stored c \<lparr>re_type = NGX_CORAZA_RULE_FILE, re_value = full\<rparr> y y'"
proof -
  obtain full y0 y1 where "ngx_http_coraza_check_rules_file P v y = Some ((NGX_CONF_OK, full), y0)"
    and st: "store_rule P NGX_CORAZA_RULE_FILE full c y0 = (NGX_CONF_OK, y1)"
    and y': "y' = upd_main (\<lambda>m. m\<lparr>mc_rules_file := mc_rules_file m + 1\<rparr>) y1"
    using assms
    by (auto simp: ngx_conf_set_rules_file_def split: option.splits prod.splits conf_rc.splits)
  then show ?thesis using rule_stored_file [OF st check_rules_file_same] by blast
qed

lemma wf_merge:
  assumes "wf_config y" and p: "1 \<le> p" "p \<le> cy_next_conf y" and c: "1 \<le> c" "c \<le> cy_next_conf y" "p \<noteq> c"
    and "cy_main y = Some m" "c \<notin> set (mc_loc_confs m)"
    and mrg: "ngx_http_coraza_merge_conf P p c y = (NGX_CONF_OK, y')"
  shows "wf_config y'"
  using assms(1)
proof (rule wf_configE)
  fix m0
  assume m0: "cy_main y = Some m0" "mc_waf m0 = 0" "0 < mc_rules m0" "mc_rules m0 \<le> cy_next_array y"
    "cy_arrays y (mc_rules m0) = []" "distinct (mc_loc_confs m0)" "set (mc_loc_confs m0) \<subseteq> {1..cy_next_conf y}"
    and ok: "\<And>c. 1 \<le> c \<Longrightarrow> c \<le> cy_next_conf y \<Longrightarrow> conf_ok m0 y c"
    and cnt: "some_rules y \<longleftrightarrow> mc_rules_inline m0 + mc_rules_file m0 \<noteq> 0"
    and un: "unshared y"
    and http: "\<And>c. cy_http y = Some c \<Longrightarrow> 1 \<le> c \<and> c \<le> cy_next_conf y"
  let ?m = "m0\<lparr>mc_loc_confs := mc_loc_confs m0 @ [c]\<rparr>"
  have le: "lc_rules (cy_confs y d) \<le> cy_next_array y" if "1 \<le> d" "d \<le> cy_next_conf y" for d
    using ok [OF that] by (simp add: conf_ok_def)
  note okp = ok [OF p, unfolded conf_ok_def] and okc = ok [OF c(1,2), unfolded conf_ok_def]
  obtain a h where
    confs: "cy_confs y' = (cy_confs y)(c := (inherit_flags (cy_confs y p) (cy_confs y c))\<lparr>lc_rules := a, lc_has_rules := h\<rparr>)"
    and rules: "conf_rules y' c = conf_rules y p @ conf_rules y c"
    and a: "a \<le> cy_next_array y'"
    "a = lc_rules (cy_confs y p) \<and> conf_rules y p \<noteq> [] \<or>
     a = lc_rules (cy_confs y c) \<and> conf_rules y p = [] \<or> a > cy_next_array y"
    and h: "h \<longleftrightarrow> (if conf_rules y p = [] then lc_has_rules (cy_confs y c)
           else conf_rules y c \<noteq> [] \<or> lc_has_rules (cy_confs y p) \<or> lc_has_rules (cy_confs y c))"
    and arr: "\<forall>a \<le> cy_next_array y. cy_arrays y' a = cy_arrays y a" "cy_next_array y \<le> cy_next_array y'"
    and rest: "cy_main y' = Some ?m" "cy_http y' = cy_http y" "cy_next_conf y' = cy_next_conf y"
    by (rule merge_conf_ok [OF mrg c(3) le [OF p] le [OF c(1,2)]]) (use m0(1) in auto)
  have old: "conf_rules y' d = conf_rules y d" "cy_confs y' d = cy_confs y d"
    if "1 \<le> d" "d \<le> cy_next_conf y" "d \<noteq> c" for d
    using arr(1) le [OF that(1,2)] that(3) by (simp_all add: conf_rules_def confs)
  show "wf_config y'"
  proof (rule wf_configI)
    show "conf_ok ?m y' d" if d: "1 \<le> d" "d \<le> cy_next_conf y'" for d
    proof (cases "d = c")
      case True
      have "0 < a" "a \<noteq> mc_rules m0" using a(2) okp okc m0(4) by auto
      moreover have "h \<longleftrightarrow> conf_rules y' c \<noteq> []" using h okp okc rules by auto
      ultimately show ?thesis using True okc a(1) by (simp add: conf_ok_def confs)
    next
      case False
      then show ?thesis using ok [of d] old [of d] d rest(3) arr(2) by (simp add: conf_ok_def)
    qed
    have "some_rules y' \<longleftrightarrow> some_rules y"
      unfolding some_rules_def rest(3) using rules old p c by (metis append_is_Nil_conv)
    then show "some_rules y' \<longleftrightarrow> mc_rules_inline ?m + mc_rules_file ?m \<noteq> 0" using cnt by simp
    have shared_c: "conf_rules y' c \<noteq> []" if e: "1 \<le> e" "e \<le> cy_next_conf y" "e \<noteq> c" "lc_rules (cy_confs y e) = a" for e
      using a(2) e le [of e] un c rules unfolding unshared_def by fastforce
    show "unshared y'"
      unfolding unshared_def rest(3)
    proof (intro allI impI)
      fix d e
      assume de: "1 \<le> d" "d \<le> cy_next_conf y" "1 \<le> e" "e \<le> cy_next_conf y" "d \<noteq> e"
        "lc_rules (cy_confs y' d) = lc_rules (cy_confs y' e)"
      have "conf_rules y' d = conf_rules y' e" using de(6) by (simp add: conf_rules_def)
      moreover have "lc_rules (cy_confs y' c) = a" by (simp add: confs)
      ultimately show "conf_rules y' d \<noteq> []"
        using de shared_c [of d] shared_c [of e] un old unfolding unshared_def by metis
    qed
  qed (use m0 rest http arr assms(7,8) c in auto)
qed

lemma wf_step:
  assumes "config_step P y y'" "wf_config y"
  shows "wf_config y'"
  using assms(1)
proof cases
  case (create c y0)
  then show ?thesis using wf_create [OF assms(2)] by simp
next
  case (rules c v)
  then show ?thesis using wf_rule_stored [OF assms(2)] set_rules_ok by blast
next
  case (rules_file c v)
  then show ?thesis using wf_rule_stored [OF assms(2)] set_rules_file_ok by blast
next
  case (transaction_id c v)
  then obtain y0 k where "same_conf y y0" "y' = upd_conf c (\<lambda>l. l\<lparr>lc_transaction_id := Cv k\<rparr>) y0"
    using set_transaction_id_ok by blast
  then show ?thesis using wf_upd_flags [OF wf_same_conf [OF assms(2)]] by simp
next
  case (merge p c m)
  then show ?thesis using wf_merge [OF assms(2)] by blast
qed (simp_all add: wf_upd_flags [OF assms(2)])

lemma wf_configured: "configured P y \<Longrightarrow> wf_config y"
  by (induction rule: configured.induct) (blast intro: wf_create_main wf_step)+

section \<open>The history of a configuration\<close>

text \<open>
  The contract of an operation of the configuration phase: it makes no call of
  libcoraza or of the loader.  What follows from it for the state of both.
\<close>

locale conf_operation =
  fixes op :: "penv \<Rightarrow> cycle \<Rightarrow> 'r \<times> cycle"
  assumes op_calm: "calm y (snd (op P y))"
begin

lemma engine_same: "engine (cy_trace (snd (op P y))) = engine (cy_trace y)"
proof -
  obtain es where es: "cy_trace (snd (op P y)) = cy_trace y @ es" "list_all conf_event es"
    using op_calm [of y P] by (auto simp: calm_def)
  have "fold engine_step es e = e" for e
    using es(2)
  proof (induction es arbitrary: e)
    case (Cons a es)
    then show ?case by (cases a) simp_all
  qed simp
  then show ?thesis using es(1) by simp
qed

lemma keeps_dl_ok: "dl_ok y \<Longrightarrow> dl_ok (snd (op P y))"
proof -
  assume ok: "dl_ok y"
  obtain es where es: "cy_trace (snd (op P y)) = cy_trace y @ es" "list_all conf_event es"
    and dl: "dl_handle (snd (op P y)) = dl_handle y" "dl_ptrs (snd (op P y)) = dl_ptrs y"
    using op_calm [of y P] by (auto simp: calm_def)
  have "opens es = 0 \<and> closes es = 0"
    using es(2)
  proof (induction es)
    case (Cons a es)
    then show ?case by (cases a) simp_all
  qed simp
  then show ?thesis using ok es(1) dl by (auto simp: dl_ok_def)
qed

end

lemma cf_palloc_calm: "cf_palloc P y = (ok, y') \<Longrightarrow> calm y y'"
  by (auto simp: cf_palloc_eq intro: calm_pemit)

lemma array_create_calm: "array_create P y = (r, y') \<Longrightarrow> calm y y'"
  by (auto simp: array_create_def cf_palloc_eq Let_def calm_def split: if_splits)

interpretation create_main: conf_operation ngx_http_coraza_create_main_conf
proof
  show "calm y (snd (ngx_http_coraza_create_main_conf P y))" for y P
    by (auto simp: ngx_http_coraza_create_main_conf_def array_create_def cf_palloc_eq Let_def calm_def)
qed

interpretation create_conf: conf_operation ngx_http_coraza_create_conf
proof
  show "calm y (snd (ngx_http_coraza_create_conf P y))" for y P
    by (auto simp: ngx_http_coraza_create_conf_def array_create_def cf_palloc_eq Let_def calm_def)
qed

lemma store_rule_calm: "calm y (snd (store_rule P ty v c y))"
  by (auto simp: store_rule_def cf_palloc_eq Let_def calm_def)

interpretation set_rules: conf_operation "\<lambda>P. ngx_conf_set_rules P v c" for v c
proof
  show "calm y (snd (ngx_conf_set_rules P v c y))" for y P
    using store_rule_calm [of y P NGX_CORAZA_RULE_INLINE v c]
    by (auto simp: ngx_conf_set_rules_def Let_def calm_def split: prod.splits conf_rc.splits option.splits)
qed

interpretation set_transaction_id: conf_operation "\<lambda>P. ngx_conf_set_transaction_id P v c" for v c
proof
  show "calm y (snd (ngx_conf_set_transaction_id P v c y))" for y P
    by (auto simp: ngx_conf_set_transaction_id_def cf_palloc_eq Let_def calm_def split: option.splits)
qed

lemma merge_rules_calm: "calm y (snd (merge_rules P p c y))"
  by (auto simp: merge_rules_def array_create_def cf_palloc_eq Let_def calm_def)

interpretation merge_conf: conf_operation "\<lambda>P. ngx_http_coraza_merge_conf P p c" for p c
proof
  show "calm y (snd (ngx_http_coraza_merge_conf P p c y))" for y P
    using merge_rules_calm [of "upd_conf c (inherit_flags (cy_confs y p)) y" P p c]
    by (auto simp: ngx_http_coraza_merge_conf_def cf_palloc_eq Let_def calm_def split: prod.splits conf_rc.splits)
qed

interpretation set_rules_file: conf_operation
  "\<lambda>P y. case ngx_conf_set_rules_file P v c y of None \<Rightarrow> (NGX_CONF_ERROR, y) | Some r \<Rightarrow> r" for v c
proof
  fix y P
  show "calm y (snd (case ngx_conf_set_rules_file P v c y of None \<Rightarrow> (NGX_CONF_ERROR, y) | Some r \<Rightarrow> r))"
  proof (cases "ngx_http_coraza_check_rules_file P v y")
    case None
    then show ?thesis by (simp add: ngx_conf_set_rules_file_def)
  next
    case (Some x)
    obtain rc full y0 where x: "x = ((rc, full), y0)" by (metis prod.exhaust)
    have c0: "calm y y0" using Some x check_rules_file_calm by blast
    have "calm y (snd (store_rule P NGX_CORAZA_RULE_FILE full c y0))"
      using calm_trans [OF c0 store_rule_calm] .
    then show ?thesis using Some x c0
      by (cases rc)
        (auto simp: ngx_conf_set_rules_file_def intro: calm_same split: prod.splits conf_rc.splits)
  qed
qed

lemma config_step_history:
  assumes "config_step P y y'"
  shows "engine (cy_trace y') = engine (cy_trace y) \<and> (dl_ok y \<longrightarrow> dl_ok y')"
  using assms
proof cases
  case (create c y0)
  then show ?thesis
    using create_conf.engine_same [of P y] create_conf.keeps_dl_ok [of y P] by (simp add: dl_ok_def)
next
  case (rules c v)
  then show ?thesis using set_rules.engine_same [where P = P and v = v and c = c and y = y]
      set_rules.keeps_dl_ok [where P = P and v = v and c = c and y = y] by simp
next
  case (rules_file c v)
  then show ?thesis
    using set_rules_file.engine_same [where P = P and v = v and c = c and y = y]
      set_rules_file.keeps_dl_ok [where P = P and v = v and c = c and y = y] by simp
next
  case (transaction_id c v)
  then show ?thesis
    using set_transaction_id.engine_same [where P = P and v = v and c = c and y = y]
      set_transaction_id.keeps_dl_ok [where P = P and v = v and c = c and y = y] by simp
next
  case (merge p c m)
  then show ?thesis using merge_conf.engine_same [where P = P and p = p and c = c and y = y]
      merge_conf.keeps_dl_ok [where P = P and p = p and c = c and y = y] by simp
qed (simp_all add: dl_ok_def)

lemma configured_history:
  "configured P y \<Longrightarrow> engine (cy_trace y) = no_engine \<and> dl_ok y"
proof (induction rule: configured.induct)
  case (start y)
  have "dl_ok no_cycle" "engine (cy_trace no_cycle) = no_engine" by (simp_all add: dl_ok_def no_cycle_def)
  then show ?case
    using start create_main.engine_same [of P no_cycle] create_main.keeps_dl_ok [of no_cycle P] by simp
next
  case (step y y')
  then show ?case using config_step_history by simp
qed

text \<open>A configuration with one location, one rule and \<open>coraza on\<close>, for witnesses.\<close>

definition sample_configured :: cycle where
  "sample_configured =
     upd_conf 1 (\<lambda>k. k\<lparr>lc_enable := 1\<rparr>)
       (let y = snd (ngx_http_coraza_create_conf sample_penv (snd (ngx_http_coraza_create_main_conf sample_penv no_cycle)))
        in y\<lparr>cy_http := Some 1\<rparr>)"

lemma sample_configured: "configured sample_penv sample_configured"
proof -
  let ?m = "snd (ngx_http_coraza_create_main_conf sample_penv no_cycle)"
  let ?c = "snd (ngx_http_coraza_create_conf sample_penv ?m)"
  have "configured sample_penv ?m"
    by (rule configured.start)
      (simp add: prod_eq_iff ngx_http_coraza_create_main_conf_def array_create_def cf_palloc_eq sample_penv_def)
  moreover have "config_step sample_penv ?m (?c\<lparr>cy_http := (if cy_http ?c = None then Some 1 else cy_http ?c)\<rparr>)"
    by (rule config_step.create)
      (simp add: prod_eq_iff ngx_http_coraza_create_conf_def ngx_http_coraza_create_main_conf_def
        array_create_def cf_palloc_eq sample_penv_def no_cycle_def)
  moreover have "cy_http ?c = None" "cy_next_conf ?c = 1" "lc_enable (cy_confs ?c 1) = NGX_CONF_UNSET"
    by (simp_all add: ngx_http_coraza_create_conf_def ngx_http_coraza_create_main_conf_def
        array_create_def cf_palloc_eq sample_penv_def no_cycle_def)
  ultimately show ?thesis
    using config_step.enable [of 1 "?c\<lparr>cy_http := Some 1\<rparr>" sample_penv True]
    by (auto simp: sample_configured_def Let_def intro: configured.step)
qed

text \<open>The same with an inline rule in the \<open>http\<close> block and a server that inherits it.\<close>

definition sample_site :: cycle where
  "sample_site =
     snd (ngx_http_coraza_merge_conf sample_penv 1 2
       (snd (ngx_http_coraza_create_conf sample_penv
         (snd (ngx_conf_set_rules sample_penv [65] 1 sample_configured)))))"

lemma sample_site: "configured sample_penv sample_site" "1 \<le> cy_next_conf sample_site"
  "cy_main sample_site = Some \<lparr>mc_waf = 0, mc_rules = 1, mc_loc_confs = [2], mc_rules_inline = 1,
     mc_rules_file = 0, mc_rules_remote = 0\<rparr>"
  "conf_rules sample_site 2 = [\<lparr>re_type = NGX_CORAZA_RULE_INLINE, re_value = [65]\<rparr>]"
proof -
  let ?r = "snd (ngx_conf_set_rules sample_penv [65] 1 sample_configured)"
  let ?c = "snd (ngx_http_coraza_create_conf sample_penv ?r)"
  note eval = sample_configured_def ngx_http_coraza_create_conf_def ngx_http_coraza_create_main_conf_def
    array_create_def cf_palloc_eq sample_penv_def no_cycle_def empty_conf_def Let_def
    ngx_conf_set_rules_def store_rule_def rules_scan_eval ngx_string_def
  have r: "config_step sample_penv sample_configured ?r"
    by (rule config_step.rules [of 1 _ _ "[65]"]) (simp_all add: prod_eq_iff eval)
  have "config_step sample_penv ?r (?c\<lparr>cy_http := (if cy_http ?c = None then Some 2 else cy_http ?c)\<rparr>)"
    by (rule config_step.create) (simp add: prod_eq_iff eval)
  moreover have "?c\<lparr>cy_http := (if cy_http ?c = None then Some 2 else cy_http ?c)\<rparr> = ?c" by (simp add: eval)
  ultimately have c: "config_step sample_penv ?r ?c" by simp
  have "config_step sample_penv ?c sample_site"
    unfolding sample_site_def
    by (rule config_step.merge [of 1 _ 2],
        simp_all add: prod_eq_iff ngx_http_coraza_merge_conf_def merge_rules_def inherit_flags_def eval, simp)
  then show "configured sample_penv sample_site"
    using r c sample_configured configured.step by metis
  show "1 \<le> cy_next_conf sample_site"
    "cy_main sample_site = Some \<lparr>mc_waf = 0, mc_rules = 1, mc_loc_confs = [2], mc_rules_inline = 1,
      mc_rules_file = 0, mc_rules_remote = 0\<rparr>"
    "conf_rules sample_site 2 = [\<lparr>re_type = NGX_CORAZA_RULE_INLINE, re_value = [65]\<rparr>]"
    by (simp_all add: sample_site_def conf_rules_def ngx_http_coraza_merge_conf_def merge_rules_def
        inherit_flags_def eval)
qed

text \<open>
  C31: every configuration nginx can build with the module's operations, in any
  order, is well formed: whatever is configured, a worker starts with no WAF
  handle set, every registered location registered once, location rules arrays
  that never alias the main one, and \<open>has_rules\<close> set exactly on the locations
  with rules.
\<close>

theorem configured_well_formed:
  assumes "configured P y"
  shows "wf_config y"
  by (rule wf_configured [OF assms])

theorem configured_well_formed_witness: "wf_config sample_configured"
  by (rule configured_well_formed [OF sample_configured])

text \<open>
  C36: the check at the end of the configuration.  It rejects exactly the
  configurations that switch \<open>coraza on\<close> somewhere and have no rule anywhere.
\<close>

theorem validate_rules_rejects:
  assumes "configured P y"
  shows "ngx_http_coraza_validate_rules y = NGX_ERROR \<longleftrightarrow>
     (\<forall>c. 1 \<le> c \<longrightarrow> c \<le> cy_next_conf y \<longrightarrow> conf_rules y c = []) \<and>
     (\<exists>c m. cy_main y = Some m \<and> (cy_http y = Some c \<or> c \<in> set (mc_loc_confs m)) \<and>
        lc_enable (cy_confs y c) = 1)"
proof -
  have "wf_config y" using assms by (rule wf_configured)
  then obtain m where m: "cy_main y = Some m" "some_rules y \<longleftrightarrow> mc_rules_inline m + mc_rules_file m \<noteq> 0"
    by (rule wf_configE)
  have "(\<forall>c. 1 \<le> c \<longrightarrow> c \<le> cy_next_conf y \<longrightarrow> conf_rules y c = []) \<longleftrightarrow>
      mc_rules_inline m = 0 \<and> mc_rules_file m = 0"
    using m(2) unfolding some_rules_def by auto
  then show ?thesis using m(1)
    by (auto simp: ngx_http_coraza_validate_rules_def split: option.splits)
qed

theorem validate_rules_rejects_witness: "ngx_http_coraza_validate_rules sample_configured = NGX_ERROR"
proof -
  have "conf_rules sample_configured c = []" "cy_http sample_configured = Some 1"
    "lc_enable (cy_confs sample_configured 1) = 1" "\<exists>m. cy_main sample_configured = Some m" for c
    by (simp_all add: sample_configured_def conf_rules_def ngx_http_coraza_create_conf_def
        ngx_http_coraza_create_main_conf_def array_create_def cf_palloc_eq sample_penv_def no_cycle_def)
  then show ?thesis unfolding validate_rules_rejects [OF sample_configured] by blast
qed

end
