(* ===== verification/Waf.thy ===== *)
theory Waf
  imports Configured Dl Utils
begin

text \<open>
  The WAFs of a worker (\<open>src/src/ngx_http_coraza_module.c\<close>): compiling a rules
  array, building and sharing WAFs when a worker starts, and freeing them when it
  exits.

  The start of a worker is followed through \<open>engine\<close>, the state of libcoraza that
  the history of calls leaves behind.  The results: a location with rules gets a
  WAF that was compiled from exactly its rules, locations share one exactly when
  their rules are the same, every temporary configuration is freed on every path,
  and exit frees every WAF exactly once.
\<close>

section \<open>Comparing and compiling rules\<close>

fun entries_equal :: "ngx_http_coraza_rule_entry list \<Rightarrow> ngx_http_coraza_rule_entry list \<Rightarrow> bool" where
  "entries_equal (a # as) (b # bs) =
     (if re_type a \<noteq> re_type b \<or> length (re_value a) \<noteq> length (re_value b) \<or>
         take (length (re_value a)) (re_value a) \<noteq> take (length (re_value a)) (re_value b)
      then False else entries_equal as bs)"
| "entries_equal _ _ = True"

definition ngx_http_coraza_rules_equal :: "cycle \<Rightarrow> nat \<Rightarrow> nat \<Rightarrow> bool" where
  "ngx_http_coraza_rules_equal y a b =
     (if a = b then True
      else if a = 0 \<or> b = 0 \<or> length (cy_arrays y a) \<noteq> length (cy_arrays y b) then False
      else entries_equal (cy_arrays y a) (cy_arrays y b))"

text \<open>
  The terminated copy of a rule's text, as the C function it is passed to reads
  it: the bytes before the first NUL.
\<close>

definition rule_cstring :: "bytes \<Rightarrow> bytes" where
  "rule_cstring v = c_string (v @ [0])"

fun build_waf_loop :: "penv \<Rightarrow> nat \<Rightarrow> ngx_http_coraza_rule_entry list \<Rightarrow> cycle \<Rightarrow> bool \<times> cycle" where
  "build_waf_loop P config [] y = (True, y)"
| "build_waf_loop P config (e # es) y =
     (let (ok, y) = cf_palloc P y
      in if \<not> ok then (False, coraza_free_waf_config config y)
         else
           let (n, y) = (case re_type e of
                  NGX_CORAZA_RULE_INLINE \<Rightarrow> coraza_rules_add P config (rule_cstring (re_value e)) y
                | NGX_CORAZA_RULE_FILE \<Rightarrow> coraza_rules_add_file P config (rule_cstring (re_value e)) y)
           in if n < 0 then (False, coraza_free_waf_config config y)
              else build_waf_loop P config es y)"

definition finish_waf :: "penv \<Rightarrow> nat \<Rightarrow> cycle \<Rightarrow> waf \<times> cycle" where
  "finish_waf P config y =
     (let ((v, err), y) = coraza_new_waf P config y
      in (v, coraza_free_string err (coraza_free_waf_config config y)))"

definition ngx_http_coraza_build_waf :: "penv \<Rightarrow> nat \<Rightarrow> cycle \<Rightarrow> waf \<times> cycle" where
  "ngx_http_coraza_build_waf P rules y =
     (if rules = 0 \<or> cy_arrays y rules = [] then (0, y)
      else
        let (config, y) = coraza_new_waf_config P y
        in if config = 0 then (0, y)
           else
             let (ok, y) = build_waf_loop P config (cy_arrays y rules) y
             in if \<not> ok then (0, y) else finish_waf P config y)"

section \<open>Start and exit of a worker\<close>

definition init_main_waf :: "penv \<Rightarrow> ngx_http_coraza_main_conf \<Rightarrow> cycle \<Rightarrow> waf \<times> cycle" where
  "init_main_waf P m y =
     (if cy_arrays y (mc_rules m) \<noteq> [] then ngx_http_coraza_build_waf P (mc_rules m) y
      else
        let (cfg, y) = coraza_new_waf_config P y
        in if cfg = 0 then (mc_waf m, y) else finish_waf P cfg y)"

text \<open>The count is an argument of a log macro, which evaluates it only if it logs.\<close>

definition log_rules_count :: "penv \<Rightarrow> waf \<Rightarrow> cycle \<Rightarrow> cycle" where
  "log_rules_count P v y =
     (if log_notice P (cy_trace y) then snd (coraza_rules_count P v y) else y)"

text \<open>The donor of a WAF: the first location before this one that owns one with equal rules.\<close>

definition find_donor :: "cycle \<Rightarrow> nat list \<Rightarrow> nat \<Rightarrow> nat option" where
  "find_donor y before c =
     find (\<lambda>j. lc_waf_owner (cy_confs y j) \<and> lc_waf (cy_confs y j) \<noteq> 0 \<and>
       ngx_http_coraza_rules_equal y (lc_rules (cy_confs y j)) (lc_rules (cy_confs y c))) before"

fun init_loc_wafs ::
  "penv \<Rightarrow> ngx_http_coraza_main_conf \<Rightarrow> nat list \<Rightarrow> nat list \<Rightarrow> cycle \<Rightarrow> int \<times> cycle" where
  "init_loc_wafs P m before [] y = (NGX_OK, y)"
| "init_loc_wafs P m before (c # cs) y =
     (let k = cy_confs y c
      in if \<not> lc_has_rules k \<or> cy_arrays y (lc_rules k) = [] then init_loc_wafs P m (before @ [c]) cs y
         else if lc_rules k = mc_rules m \<and> mc_waf m \<noteq> 0 then
           init_loc_wafs P m (before @ [c]) cs (upd_conf c (\<lambda>k. k\<lparr>lc_waf := mc_waf m\<rparr>) y)
         else
           case find_donor y before c of
             Some j \<Rightarrow>
               init_loc_wafs P m (before @ [c]) cs
                 (upd_conf c (\<lambda>k. k\<lparr>lc_waf := lc_waf (cy_confs y j), lc_waf_owner := False\<rparr>) y)
           | None \<Rightarrow>
               (let (v, y) = ngx_http_coraza_build_waf P (lc_rules k) y;
                    y = upd_conf c (\<lambda>k. k\<lparr>lc_waf := v\<rparr>) y
                in if v = 0 then (NGX_ERROR, y)
                   else
                     init_loc_wafs P m (before @ [c]) cs
                       (log_rules_count P v (upd_conf c (\<lambda>k. k\<lparr>lc_waf_owner := True\<rparr>) y))))"

definition ngx_http_coraza_init_process :: "penv \<Rightarrow> cycle \<Rightarrow> int \<times> cycle" where
  "ngx_http_coraza_init_process P y =
     (let (rc, y) = ngx_http_coraza_dl_open P y
      in if rc \<noteq> NGX_OK then (NGX_ERROR, y)
         else
           case cy_main y of
             None \<Rightarrow> (NGX_OK, y)
           | Some m \<Rightarrow>
               (let (v, y) = init_main_waf P m y;
                    m = m\<lparr>mc_waf := v\<rparr>; y = upd_main (\<lambda>_. m) y
                in if v = 0 then (NGX_ERROR, y)
                   else init_loc_wafs P m [] (mc_loc_confs m) (log_rules_count P v y)))"

fun free_loc_wafs :: "ngx_http_coraza_main_conf \<Rightarrow> nat list \<Rightarrow> cycle \<Rightarrow> cycle" where
  "free_loc_wafs m [] y = y"
| "free_loc_wafs m (c # cs) y =
     (let k = cy_confs y c
      in free_loc_wafs m cs
           (if lc_waf_owner k \<and> lc_waf k \<noteq> 0 \<and> lc_waf k \<noteq> mc_waf m then coraza_free_waf (lc_waf k) y else y))"

definition clear_loc_wafs :: "nat list \<Rightarrow> cycle \<Rightarrow> cycle" where
  "clear_loc_wafs cs y = fold (\<lambda>c. upd_conf c (\<lambda>k. k\<lparr>lc_waf := 0, lc_waf_owner := False\<rparr>)) cs y"

definition ngx_http_coraza_exit_process :: "cycle \<Rightarrow> cycle" where
  "ngx_http_coraza_exit_process y =
     (case cy_main y of
        None \<Rightarrow> ngx_http_coraza_dl_close y
      | Some m \<Rightarrow>
          (let y = clear_loc_wafs (mc_loc_confs m) (free_loc_wafs m (mc_loc_confs m) y);
               y = (if mc_waf m \<noteq> 0
                    then upd_main (\<lambda>m. m\<lparr>mc_waf := 0\<rparr>) (coraza_free_waf (mc_waf m) y) else y)
           in ngx_http_coraza_dl_close y))"

section \<open>Vocabulary of the properties\<close>

text \<open>The rules of a location as libcoraza gets them.\<close>

definition texts :: "ngx_http_coraza_rule_entry list \<Rightarrow> rule_text" where
  "texts es = map (\<lambda>e. (re_type e, rule_cstring (re_value e))) es"

text \<open>
  The start so far, for the locations \<open>before\<close>: libcoraza holds the empty main
  WAF and one WAF per owner, each compiled from the rules of its owner; the
  owners have pairwise different rules; every location with rules uses the WAF of
  the owner with the same rules.
\<close>

definition waf_table ::
  "waf \<Rightarrow> nat set \<Rightarrow> (nat \<Rightarrow> waf) \<Rightarrow> (nat \<Rightarrow> bool) \<Rightarrow> (nat \<Rightarrow> ngx_http_coraza_rule_entry list) \<Rightarrow>
   engine_state \<Rightarrow> bool" where
  "waf_table v B W Own R e \<longleftrightarrow>
     \<not> es_bad e \<and> es_configs e = Map.empty \<and> es_wafs e 0 = None \<and> es_wafs e v = Some [] \<and>
     dom (es_wafs e) = insert v (W ` {c \<in> B. Own c}) \<and> v \<notin> W ` {c \<in> B. Own c} \<and>
     inj_on W {c \<in> B. Own c} \<and> inj_on R {c \<in> B. Own c} \<and>
     (\<forall>c \<in> B. if R c = [] then W c = 0 \<and> \<not> Own c
        else es_wafs e (W c) = Some (texts (R c)) \<and> (\<exists>d \<in> B. Own d \<and> W d = W c \<and> R d = R c))"

definition wafs_ok :: "waf \<Rightarrow> nat list \<Rightarrow> cycle \<Rightarrow> bool" where
  "wafs_ok v before y \<longleftrightarrow>
     waf_table v (set before) (\<lambda>c. lc_waf (cy_confs y c)) (\<lambda>c. lc_waf_owner (cy_confs y c)) (conf_rules y)
       (engine (cy_trace y))"

section \<open>Comparing rules\<close>

lemma entries_equal_iff: "length as = length bs \<Longrightarrow> entries_equal as bs \<longleftrightarrow> as = bs"
  by (induction as bs rule: list_induct2) (auto intro: ngx_http_coraza_rule_entry.equality)

lemma rules_equal_arrays:
  "a \<noteq> 0 \<Longrightarrow> b \<noteq> 0 \<Longrightarrow> ngx_http_coraza_rules_equal y a b \<longleftrightarrow> cy_arrays y a = cy_arrays y b"
  by (auto simp: ngx_http_coraza_rules_equal_def entries_equal_iff)

section \<open>Compiling\<close>

lemma engine_free_config:
  "es_configs (engine (cy_trace y)) c = Some acc \<Longrightarrow>
   engine (cy_trace (coraza_free_waf_config c y)) =
     (engine (cy_trace y))\<lparr>es_configs := (es_configs (engine (cy_trace y)))(c := None)\<rparr>"
  by (simp add: coraza_free_waf_config_def)

text \<open>What is left of a configuration when the loop ends.\<close>

fun kept :: "bool \<Rightarrow> 'a \<Rightarrow> 'a option" where
  "kept True x = Some x"
| "kept False x = None"

text \<open>One turn of the loop, with the engine call of either kind named once.\<close>

definition add_call :: "penv \<Rightarrow> nat \<Rightarrow> ngx_http_coraza_rule_entry \<Rightarrow> cycle \<Rightarrow> int \<times> cycle" where
  "add_call P c e y = (case re_type e of
     NGX_CORAZA_RULE_INLINE \<Rightarrow> coraza_rules_add P c (rule_cstring (re_value e)) y
   | NGX_CORAZA_RULE_FILE \<Rightarrow> coraza_rules_add_file P c (rule_cstring (re_value e)) y)"

lemma add_call_engine:
  "add_call P c e y = (n, y') \<Longrightarrow>
   same_conf y y' \<and> engine (cy_trace y') = add_rule c (re_type e) (rule_cstring (re_value e)) n (engine (cy_trace y))"
  by (auto simp: add_call_def coraza_rules_add_def coraza_rules_add_file_def Let_def
      split: ngx_http_coraza_rule_type.splits)

lemma build_waf_loop_Cons:
  "build_waf_loop P c (e # es) y =
     (let ok = conf_alloc P (cy_trace y); y = pemit (Conf_alloc ok) y; (n, z) = add_call P c e y
      in if \<not> ok then (False, coraza_free_waf_config c y)
         else if n < 0 then (False, coraza_free_waf_config c z) else build_waf_loop P c es z)"
  by (simp add: cf_palloc_eq add_call_def Let_def split: prod.split)

lemma build_waf_loop_engine:
  "build_waf_loop P c es y = (ok, y') \<Longrightarrow> es_configs (engine (cy_trace y)) c = Some acc \<Longrightarrow>
   same_conf y y' \<and>
   engine (cy_trace y') = (engine (cy_trace y))\<lparr>es_configs :=
     (es_configs (engine (cy_trace y)))(c := kept ok (acc @ texts es))\<rparr>"
proof (induction es arbitrary: y acc)
  case Nil
  then show ?case by (auto simp: texts_def fun_upd_idem)
next
  case (Cons e es)
  define x where "x = pemit (Conf_alloc (conf_alloc P (cy_trace y))) y"
  obtain n z where nz: "add_call P c e x = (n, z)" by fastforce
  note call = add_call_engine [OF nz]
  have x: "same_conf y x" "engine (cy_trace x) = engine (cy_trace y)" by (simp_all add: x_def)
  have xz: "same_conf y z" using call x(1) same_conf_trans by blast
  have step: "build_waf_loop P c (e # es) y =
      (if \<not> conf_alloc P (cy_trace y) then (False, coraza_free_waf_config c x)
       else if n < 0 then (False, coraza_free_waf_config c z) else build_waf_loop P c es z)"
    by (simp only: build_waf_loop_Cons x_def [symmetric] Let_def nz split)
  consider (alloc) "\<not> conf_alloc P (cy_trace y)" | (refused) "conf_alloc P (cy_trace y)" "n < 0"
    | (added) "conf_alloc P (cy_trace y)" "\<not> n < 0" by blast
  then show ?case
  proof cases
    case alloc
    then have "ok = False" "y' = coraza_free_waf_config c x" using Cons.prems(1) [unfolded step] by simp_all
    then show ?thesis using engine_free_config [of x c acc] Cons.prems(2) x
      by (simp add: coraza_free_waf_config_def fun_upd_def)
  next
    case refused
    then have y': "ok = False" "y' = coraza_free_waf_config c z" using Cons.prems(1) [unfolded step] by simp_all
    have "engine (cy_trace z) = engine (cy_trace y)"
      using call refused(2) x(2) Cons.prems(2) by (simp add: add_rule_def)
    then show ?thesis using y' engine_free_config [of z c acc] Cons.prems(2) xz
      by (simp add: coraza_free_waf_config_def fun_upd_def)
  next
    case added
    let ?acc = "acc @ [(re_type e, rule_cstring (re_value e))]"
    have z: "engine (cy_trace z) = (engine (cy_trace y))\<lparr>es_configs := (es_configs (engine (cy_trace y)))(c \<mapsto> ?acc)\<rparr>"
      using call added(2) x(2) Cons.prems(2) by (simp add: add_rule_def)
    have "build_waf_loop P c es z = (ok, y')" using Cons.prems(1) [unfolded step] added by simp
    from Cons.IH [OF this, of ?acc] show ?thesis
      using xz same_conf_trans by (auto simp: z texts_def fun_upd_def cong: if_cong)
  qed
qed

lemma finish_waf_engine:
  assumes "finish_waf P c y = (v, y')" "es_configs (engine (cy_trace y)) c = Some rs"
  shows "same_conf y y' \<and> v = fst (eng_new_waf P (cy_trace y) c) \<and>
    engine (cy_trace y') = (engine (cy_trace y))\<lparr>es_configs := (es_configs (engine (cy_trace y)))(c := None),
      es_wafs := (if v = 0 then es_wafs (engine (cy_trace y)) else (es_wafs (engine (cy_trace y)))(v \<mapsto> rs))\<rparr>"
  using assms
  by (auto simp: finish_waf_def coraza_new_waf_def coraza_free_waf_config_def coraza_free_string_def Let_def
      split: prod.splits if_splits)

lemma new_config_engine:
  assumes "fresh_handles P" "es_configs (engine (cy_trace y)) = Map.empty"
    and "coraza_new_waf_config P y = (c, y')"
  shows "same_conf y y' \<and> engine (cy_trace y') =
    (if c = 0 then engine (cy_trace y) else (engine (cy_trace y))\<lparr>es_configs := [c \<mapsto> []]\<rparr>)"
  using assms by (auto simp: coraza_new_waf_config_def Let_def)

text \<open>
  Compiling adds the new WAF, if there is one, to what libcoraza holds, and
  leaves no configuration behind.
\<close>

definition adds_waf :: "waf \<Rightarrow> rule_text \<Rightarrow> cycle \<Rightarrow> cycle \<Rightarrow> bool" where
  "adds_waf v rs y y' \<longleftrightarrow> same_conf y y' \<and> es_wafs (engine (cy_trace y)) v = None \<and>
     engine (cy_trace y') =
       (if v = 0 then engine (cy_trace y)
        else (engine (cy_trace y))\<lparr>es_wafs := (es_wafs (engine (cy_trace y)))(v \<mapsto> rs)\<rparr>)"

lemma adds_waf_null: "same_conf y y' \<Longrightarrow> engine (cy_trace y') = engine (cy_trace y) \<Longrightarrow> adds_waf 0 rs y y'"
  using engine_null by (simp add: adds_waf_def)

lemma finish_waf_adds:
  assumes fresh: "fresh_handles P" and y: "es_configs (engine (cy_trace y)) = Map.empty"
    and x: "engine (cy_trace x) = (engine (cy_trace y))\<lparr>es_configs := [c \<mapsto> rs]\<rparr>" "same_conf y x"
    and fin: "finish_waf P c x = (v, y')"
  shows "adds_waf v rs y y'"
proof -
  have "es_wafs (engine (cy_trace x)) (fst (eng_new_waf P (cy_trace x) c)) = None"
    using fresh by (simp add: fresh_handles_def)
  moreover have "same_conf y y'" using finish_waf_engine [OF fin] x same_conf_trans by simp
  moreover have "(engine (cy_trace y))\<lparr>es_configs := Map.empty\<rparr> = engine (cy_trace y)"
    using y by (metis engine_state.surjective engine_state.update_convs(1))
  ultimately show ?thesis
    using finish_waf_engine [OF fin] x(1) by (simp add: adds_waf_def)
qed

lemma build_waf_adds:
  assumes fresh: "fresh_handles P" and y: "es_configs (engine (cy_trace y)) = Map.empty"
    and "rules \<noteq> 0" "cy_arrays y rules \<noteq> []" and b: "ngx_http_coraza_build_waf P rules y = (v, y')"
  shows "adds_waf v (texts (cy_arrays y rules)) y y'"
proof -
  obtain c x where x: "coraza_new_waf_config P y = (c, x)" by fastforce
  note X = new_config_engine [OF fresh y x]
  obtain ok z where z: "build_waf_loop P c (cy_arrays x rules) x = (ok, z)" by fastforce
  have arr: "cy_arrays x rules = cy_arrays y rules" using X by (simp add: same_conf_def)
  have step: "ngx_http_coraza_build_waf P rules y =
      (if c = 0 then (0, x) else if \<not> ok then (0, z) else finish_waf P c z)"
    using assms(3,4) by (simp add: ngx_http_coraza_build_waf_def x z)
  show ?thesis
  proof (cases "c = 0")
    case True
    then show ?thesis using b step X by (auto intro: adds_waf_null)
  next
    case False
    have Z: "same_conf x z" "engine (cy_trace z) = (engine (cy_trace x))\<lparr>es_configs :=
        (es_configs (engine (cy_trace x)))(c := kept ok (texts (cy_arrays y rules)))\<rparr>"
      using build_waf_loop_engine [OF z, of "[]"] X False by (simp_all add: arr)
    have yz: "same_conf y z" using X Z(1) same_conf_trans by blast
    show ?thesis
    proof (cases ok)
      case True
      then show ?thesis
        using finish_waf_adds [OF fresh y _ yz, of c "texts (cy_arrays y rules)" v y'] b step False Z(2) X by simp
    next
      case nok: False
      have "engine (cy_trace z) = engine (cy_trace y)"
        using Z(2) X False nok y by (simp add: fun_upd_idem)
      then show ?thesis using b step False nok yz by (auto intro: adds_waf_null)
    qed
  qed
qed

lemma init_main_waf_adds:
  assumes "fresh_handles P" "es_configs (engine (cy_trace y)) = Map.empty"
    and "cy_arrays y (mc_rules m) = []" "mc_waf m = 0" "init_main_waf P m y = (v, y')"
  shows "adds_waf v [] y y'"
proof -
  obtain c x where x: "coraza_new_waf_config P y = (c, x)" by fastforce
  note X = new_config_engine [OF assms(1,2) x]
  have step: "init_main_waf P m y = (if c = 0 then (0, x) else finish_waf P c x)"
    using assms(3,4) by (simp add: init_main_waf_def x)
  show ?thesis
    using X assms(5) step finish_waf_adds [OF assms(1,2), of x c "[]" v y']
    by (cases "c = 0") (auto intro: adds_waf_null)
qed

section \<open>The table of WAFs\<close>

lemma owners_insert:
  "{x \<in> insert c B. Own x} = (if Own c then insert c {x \<in> B. Own x} else {x \<in> B. Own x})"
  by auto

lemma table_cong:
  assumes "\<And>c. c \<in> B \<Longrightarrow> W c = W' c \<and> Own c = Own' c \<and> R c = R' c"
  shows "waf_table v B W Own R e = waf_table v B W' Own' R' e"
proof -
  have own: "{c \<in> B. Own c} = {c \<in> B. Own' c}" using assms by auto
  have img: "W ` {c \<in> B. Own' c} = W' ` {c \<in> B. Own' c}" using assms by (intro image_cong) auto
  have inj: "inj_on W {c \<in> B. Own' c} = inj_on W' {c \<in> B. Own' c}"
    "inj_on R {c \<in> B. Own' c} = inj_on R' {c \<in> B. Own' c}"
    by (rule inj_on_cong; use assms in auto)+
  have "(\<forall>c \<in> B. if R c = [] then W c = 0 \<and> \<not> Own c
        else es_wafs e (W c) = Some (texts (R c)) \<and> (\<exists>d \<in> B. Own d \<and> W d = W c \<and> R d = R c)) =
      (\<forall>c \<in> B. if R' c = [] then W' c = 0 \<and> \<not> Own' c
        else es_wafs e (W' c) = Some (texts (R' c)) \<and> (\<exists>d \<in> B. Own' d \<and> W' d = W' c \<and> R' d = R' c))"
    using assms by (intro ball_cong refl) (auto simp: assms)
  then show ?thesis unfolding waf_table_def own img inj by simp
qed

lemma table_skip:
  assumes "waf_table v B W Own R e" "R c = []" "W c = 0" "\<not> Own c"
  shows "waf_table v (insert c B) W Own R e"
  using assms unfolding waf_table_def owners_insert by auto

lemma table_owner_live:
  assumes "waf_table v B W Own R e" "d \<in> B" "Own d"
  shows "R d \<noteq> []" "es_wafs e (W d) = Some (texts (R d))" "W d \<noteq> 0"
proof -
  have "if R d = [] then W d = 0 \<and> \<not> Own d
      else es_wafs e (W d) = Some (texts (R d)) \<and> (\<exists>d' \<in> B. Own d' \<and> W d' = W d \<and> R d' = R d)"
    using assms(1,2) unfolding waf_table_def by blast
  then show "R d \<noteq> []" "es_wafs e (W d) = Some (texts (R d))" using assms(3) by (auto split: if_splits)
  then show "W d \<noteq> 0" using assms(1) by (auto simp: waf_table_def)
qed

lemma table_share:
  assumes "waf_table v B W Own R e" "d \<in> B" "Own d" "W c = W d" "R c = R d" "\<not> Own c"
  shows "waf_table v (insert c B) W Own R e"
  using assms table_owner_live [OF assms(1-3)] unfolding waf_table_def owners_insert by auto

lemma table_own:
  assumes t: "waf_table v B W Own R e" and c: "c \<notin> B" "Own c" "R c \<noteq> []" "W c \<noteq> 0"
    and new: "es_wafs e (W c) = None" and uniq: "\<And>d. d \<in> B \<Longrightarrow> Own d \<Longrightarrow> R d \<noteq> R c"
  shows "waf_table v (insert c B) W Own R (e\<lparr>es_wafs := (es_wafs e)(W c \<mapsto> texts (R c))\<rparr>)"
proof -
  have live: "es_wafs e (W d) = Some (texts (R d))" if "d \<in> B" "R d \<noteq> []" for d
    using t that unfolding waf_table_def by auto
  have ne: "W d \<noteq> W c" if "d \<in> B" "R d \<noteq> []" for d using live [OF that] new by auto
  have nv: "v \<noteq> W c" using t new by (auto simp: waf_table_def)
  have ow: "R d \<noteq> []" if "d \<in> B" "Own d" for d using table_owner_live(1) [OF t that] .
  have dm: "dom (es_wafs e) = insert v (W ` {c \<in> B. Own c})" "v \<notin> W ` {c \<in> B. Own c}"
    "inj_on W {c \<in> B. Own c}" "inj_on R {c \<in> B. Own c}"
    and row: "\<And>d. d \<in> B \<Longrightarrow> if R d = [] then W d = 0 \<and> \<not> Own d
        else es_wafs e (W d) = Some (texts (R d)) \<and> (\<exists>d' \<in> B. Own d' \<and> W d' = W d \<and> R d' = R d)"
    using t unfolding waf_table_def by auto
  have "inj_on W (insert c {c \<in> B. Own c})" using dm(3) ne ow by (auto simp: inj_on_insert image_iff) metis
  moreover have "inj_on R (insert c {c \<in> B. Own c})" using dm(4) uniq by (auto simp: inj_on_insert image_iff) metis
  moreover have "if R d = [] then W d = 0 \<and> \<not> Own d
        else ((es_wafs e)(W c \<mapsto> texts (R c))) (W d) = Some (texts (R d)) \<and>
          (\<exists>d' \<in> insert c B. Own d' \<and> W d' = W d \<and> R d' = R d)" if "d \<in> insert c B" for d
    using that row [of d] c ne by (auto split: if_splits)
  ultimately show ?thesis
    using t nv c dm(1,2) ne unfolding waf_table_def owners_insert by auto
qed

lemma table_shares:
  assumes t: "waf_table v B W Own R e" and "c \<in> B" "d \<in> B" "R c \<noteq> []" "R d \<noteq> []"
  shows "W c = W d \<longleftrightarrow> R c = R d"
proof -
  have inj: "inj_on W {c \<in> B. Own c}" "inj_on R {c \<in> B. Own c}" using t by (auto simp: waf_table_def)
  obtain c' d' where "c' \<in> B" "Own c'" "W c' = W c" "R c' = R c" "d' \<in> B" "Own d'" "W d' = W d" "R d' = R d"
    using assms unfolding waf_table_def by (metis (no_types, lifting))
  then show ?thesis using inj unfolding inj_on_def by (metis (mono_tags, lifting) mem_Collect_eq)
qed

section \<open>The start of a worker\<close>

text \<open>The rules and the settings of a location do not change while a worker starts.\<close>

definition same_rules :: "cycle \<Rightarrow> cycle \<Rightarrow> bool" where
  "same_rules y y' \<longleftrightarrow> cy_arrays y' = cy_arrays y \<and>
     (\<forall>c. lc_rules (cy_confs y' c) = lc_rules (cy_confs y c) \<and>
          lc_has_rules (cy_confs y' c) = lc_has_rules (cy_confs y c) \<and>
          lc_enable (cy_confs y' c) = lc_enable (cy_confs y c) \<and>
          lc_transaction_id (cy_confs y' c) = lc_transaction_id (cy_confs y c))"

lemma same_rules_refl [simp]: "same_rules y y"
  by (simp add: same_rules_def)

lemma same_rules_trans: "same_rules y y' \<Longrightarrow> same_rules y' y'' \<Longrightarrow> same_rules y y''"
  by (simp add: same_rules_def)

lemma same_rules_conf: "same_rules y y' \<Longrightarrow> conf_rules y' c = conf_rules y c"
  by (simp add: same_rules_def conf_rules_def)

lemma same_conf_rules: "same_conf y y' \<Longrightarrow> same_rules y y'"
  by (simp add: same_conf_def same_rules_def)

lemma log_rules_count_engine:
  assumes "es_wafs (engine (cy_trace y)) v \<noteq> None"
  shows "same_conf y (log_rules_count P v y) \<and> engine (cy_trace (log_rules_count P v y)) = engine (cy_trace y)"
  using assms by (auto simp: log_rules_count_def coraza_rules_count_def Let_def)

lemma find_donor_Some:
  assumes "find_donor y before c = Some j" "0 < lc_rules (cy_confs y c)"
    "\<And>d. d \<in> set before \<Longrightarrow> 0 < lc_rules (cy_confs y d)"
  shows "j \<in> set before \<and> lc_waf_owner (cy_confs y j) \<and> conf_rules y j = conf_rules y c"
  using assms by (auto simp: find_donor_def find_Some_iff conf_rules_def rules_equal_arrays)

lemma find_donor_None:
  assumes "find_donor y before c = None" "0 < lc_rules (cy_confs y c)"
    "\<And>d. d \<in> set before \<Longrightarrow> 0 < lc_rules (cy_confs y d)"
    and "d \<in> set before" "lc_waf_owner (cy_confs y d)" "lc_waf (cy_confs y d) \<noteq> 0"
  shows "conf_rules y d \<noteq> conf_rules y c"
  using assms by (auto simp: find_donor_def find_None_iff conf_rules_def rules_equal_arrays)

lemma wafs_ok_extend:
  assumes "wafs_ok v before y" "c \<notin> set before" "same_rules y y'"
    and "\<And>d. d \<noteq> c \<Longrightarrow> cy_confs y' d = cy_confs y d"
  shows "waf_table v (set before) (\<lambda>d. lc_waf (cy_confs y' d)) (\<lambda>d. lc_waf_owner (cy_confs y' d))
    (conf_rules y') (engine (cy_trace y))"
proof -
  have "d \<noteq> c" if "d \<in> set before" for d using that assms(2) by auto
  then show ?thesis
    using assms(1) unfolding wafs_ok_def
    by (subst table_cong) (auto simp: assms(4) same_rules_conf [OF assms(3)])
qed

lemma wafs_ok_no_rules:
  assumes "wafs_ok v before y" "conf_ok m y c" "conf_rules y c = []"
  shows "wafs_ok v (before @ [c]) y"
  using table_skip [OF assms(1) [unfolded wafs_ok_def], of c] assms(2,3) by (simp add: wafs_ok_def conf_ok_def)

lemma wafs_ok_share:
  assumes ok: "wafs_ok v before y" "c \<notin> set before" and j: "j \<in> set before" "lc_waf_owner (cy_confs y j)"
    "conf_rules y j = conf_rules y c"
    and y': "y' = upd_conf c (\<lambda>k. k\<lparr>lc_waf := lc_waf (cy_confs y j), lc_waf_owner := False\<rparr>) y"
  shows "wafs_ok v (before @ [c]) y' \<and> same_rules y y'"
proof -
  have sr: "same_rules y y'" by (simp add: y' same_rules_def)
  have "j \<noteq> c" using j(1) ok(2) by auto
  then show ?thesis
    using table_share [OF wafs_ok_extend [OF ok sr] j(1), of c] j sr
    by (simp add: wafs_ok_def y' same_rules_conf [OF sr, unfolded y'])
qed

lemma wafs_ok_own:
  assumes ok: "wafs_ok v before y" "c \<notin> set before" and rs: "conf_rules y c \<noteq> []" and w: "w \<noteq> 0"
    and add: "adds_waf w (texts (conf_rules y c)) y y1"
    and uniq: "\<And>d. d \<in> set before \<Longrightarrow> lc_waf_owner (cy_confs y d) \<Longrightarrow> conf_rules y d \<noteq> conf_rules y c"
    and y': "y' = log_rules_count P w (upd_conf c (\<lambda>k. k\<lparr>lc_waf_owner := True\<rparr>)
      (upd_conf c (\<lambda>k. k\<lparr>lc_waf := w\<rparr>) y1))"
  shows "wafs_ok v (before @ [c]) y' \<and> same_rules y y'"
proof -
  let ?y2 = "upd_conf c (\<lambda>k. k\<lparr>lc_waf_owner := True\<rparr>) (upd_conf c (\<lambda>k. k\<lparr>lc_waf := w\<rparr>) y1)"
  note A = add [unfolded adds_waf_def]
  have eng: "engine (cy_trace ?y2) = (engine (cy_trace y))\<lparr>es_wafs := (es_wafs (engine (cy_trace y)))(w \<mapsto> texts (conf_rules y c))\<rparr>"
    using A w by simp
  then have log: "same_conf ?y2 y'" "engine (cy_trace y') = engine (cy_trace ?y2)"
    using log_rules_count_engine [of ?y2 w P] by (simp_all add: y')
  have sr: "same_rules y y'"
    by (rule same_rules_trans [OF _ same_conf_rules [OF log(1)]]) (use A in \<open>simp add: same_rules_def same_conf_def\<close>)
  have conf: "cy_confs y' d = (if d = c then (cy_confs y c)\<lparr>lc_waf := w, lc_waf_owner := True\<rparr> else cy_confs y d)" for d
    using A log(1) by (simp add: same_conf_def)
  have t: "waf_table v (set before) (\<lambda>d. lc_waf (cy_confs y' d)) (\<lambda>d. lc_waf_owner (cy_confs y' d))
      (conf_rules y') (engine (cy_trace y))"
    by (rule wafs_ok_extend [OF ok sr]) (simp add: conf)
  have "waf_table v (insert c (set before)) (\<lambda>d. lc_waf (cy_confs y' d)) (\<lambda>d. lc_waf_owner (cy_confs y' d))
      (conf_rules y') (engine (cy_trace y'))"
  proof -
    have d: "conf_rules y' d \<noteq> conf_rules y' c" if "d \<in> set before" "lc_waf_owner (cy_confs y' d)" for d
      using uniq that ok(2) conf by (auto simp: same_rules_conf [OF sr] split: if_splits)
    have c: "lc_waf_owner (cy_confs y' c)" "conf_rules y' c \<noteq> []" "lc_waf (cy_confs y' c) \<noteq> 0"
      "es_wafs (engine (cy_trace y)) (lc_waf (cy_confs y' c)) = None"
      using A rs w by (simp_all add: conf same_rules_conf [OF sr])
    have "engine (cy_trace y') = (engine (cy_trace y))\<lparr>es_wafs :=
        (es_wafs (engine (cy_trace y)))(lc_waf (cy_confs y' c) \<mapsto> texts (conf_rules y' c))\<rparr>"
      using A w by (simp add: log(2) conf same_rules_conf [OF sr])
    then show ?thesis using table_own [OF t ok(2) c d] by simp
  qed
  then show ?thesis using sr by (simp add: wafs_ok_def)
qed

text \<open>What holds at every exit of the loop, and what holds in addition at a regular one.\<close>

lemma init_loc_wafs_result:
  assumes fresh: "fresh_handles P"
  shows "init_loc_wafs P m before cs y = (rc, y') \<Longrightarrow> wafs_ok (mc_waf m) before y \<Longrightarrow>
    distinct (before @ cs) \<Longrightarrow> \<forall>c \<in> set cs. conf_ok m y c \<Longrightarrow>
    \<forall>c \<in> set before. 0 < lc_rules (cy_confs y c) \<Longrightarrow>
    same_rules y y' \<and> cy_main y' = cy_main y \<and>
    (if rc = NGX_OK then wafs_ok (mc_waf m) (before @ cs) y'
     else \<not> es_bad (engine (cy_trace y')) \<and> es_configs (engine (cy_trace y')) = Map.empty)"
proof (induction cs arbitrary: before y)
  case (Cons c cs)
  have c: "c \<notin> set before" "conf_ok m y c" using Cons.prems by auto
  have c0: "0 < lc_rules (cy_confs y c)" "lc_has_rules (cy_confs y c) \<longleftrightarrow> conf_rules y c \<noteq> []"
    "lc_rules (cy_confs y c) \<noteq> mc_rules m" using c(2) by (simp_all add: conf_ok_def)
  have rec: ?case
    if run: "init_loc_wafs P m (before @ [c]) cs z = (rc, y')" and z: "wafs_ok (mc_waf m) (before @ [c]) z"
      and sr: "same_rules y z" and mn: "cy_main z = cy_main y" and fr: "\<And>d. d \<noteq> c \<Longrightarrow> cy_confs z d = cy_confs y d"
      and na: "cy_next_array z = cy_next_array y" for z
  proof -
    have "\<forall>d \<in> set cs. conf_ok m z d"
    proof
      fix d assume "d \<in> set cs"
      moreover from this have "d \<noteq> c" using Cons.prems(3) by auto
      ultimately show "conf_ok m z d" using Cons.prems(4) fr [of d] na same_rules_conf [OF sr, of d] by (simp add: conf_ok_def)
    qed
    moreover have "\<forall>d \<in> set (before @ [c]). 0 < lc_rules (cy_confs z d)"
      using Cons.prems(5) c0(1) sr by (simp add: same_rules_def)
    ultimately have "same_rules z y' \<and> cy_main y' = cy_main z \<and>
        (if rc = NGX_OK then wafs_ok (mc_waf m) ((before @ [c]) @ cs) y'
         else \<not> es_bad (engine (cy_trace y')) \<and> es_configs (engine (cy_trace y')) = Map.empty)"
      using Cons.IH [OF run z] Cons.prems(3) by (simp cong: if_cong)
    then show ?thesis using sr mn same_rules_trans by (simp cong: if_cong)
  qed
  have eq: "init_loc_wafs P m before (c # cs) y =
      (if conf_rules y c = [] then init_loc_wafs P m (before @ [c]) cs y
       else case find_donor y before c of
         Some j \<Rightarrow> init_loc_wafs P m (before @ [c]) cs
           (upd_conf c (\<lambda>k. k\<lparr>lc_waf := lc_waf (cy_confs y j), lc_waf_owner := False\<rparr>) y)
       | None \<Rightarrow> (let (v, y) = ngx_http_coraza_build_waf P (lc_rules (cy_confs y c)) y;
                      y = upd_conf c (\<lambda>k. k\<lparr>lc_waf := v\<rparr>) y
                  in if v = 0 then (NGX_ERROR, y)
                     else init_loc_wafs P m (before @ [c]) cs
                       (log_rules_count P v (upd_conf c (\<lambda>k. k\<lparr>lc_waf_owner := True\<rparr>) y))))"
    using c0(2,3) by (simp add: conf_rules_def Let_def)
  consider (none) "conf_rules y c = []" | (share) j where "conf_rules y c \<noteq> []" "find_donor y before c = Some j"
    | (build) "conf_rules y c \<noteq> []" "find_donor y before c = None" by (cases "find_donor y before c") auto
  then show ?case
  proof cases
    case none
    show ?thesis
      by (rule rec [of y]) (use Cons.prems(1) [unfolded eq] none wafs_ok_no_rules [OF Cons.prems(2) c(2)] in simp_all)
  next
    case share
    let ?z = "upd_conf c (\<lambda>k. k\<lparr>lc_waf := lc_waf (cy_confs y j), lc_waf_owner := False\<rparr>) y"
    have j: "j \<in> set before" "lc_waf_owner (cy_confs y j)" "conf_rules y j = conf_rules y c"
      using find_donor_Some [OF share(2) c0(1)] Cons.prems(5) by auto
    have "wafs_ok (mc_waf m) (before @ [c]) ?z \<and> same_rules y ?z"
      by (rule wafs_ok_share [OF Cons.prems(2) c(1) j refl])
    then show ?thesis
      by (intro rec [of ?z]) (use Cons.prems(1) [unfolded eq] share in simp_all)
  next
    case build
    obtain v y1 where b: "ngx_http_coraza_build_waf P (lc_rules (cy_confs y c)) y = (v, y1)" by fastforce
    have e0: "es_configs (engine (cy_trace y)) = Map.empty" "\<not> es_bad (engine (cy_trace y))"
      using Cons.prems(2) by (simp_all add: wafs_ok_def waf_table_def)
    have add: "adds_waf v (texts (conf_rules y c)) y y1"
      using build_waf_adds [OF fresh e0(1) _ _ b] c0(1) build(1) by (simp add: conf_rules_def)
    let ?z = "upd_conf c (\<lambda>k. k\<lparr>lc_waf := v\<rparr>) y1"
    let ?z2 = "log_rules_count P v (upd_conf c (\<lambda>k. k\<lparr>lc_waf_owner := True\<rparr>) ?z)"
    have y1: "same_conf y y1" using add by (simp add: adds_waf_def)
    show ?thesis
    proof (cases "v = 0")
      case True
      then have "rc = NGX_ERROR" "y' = ?z" using Cons.prems(1) [unfolded eq] build b by simp_all
      then show ?thesis
        using add True e0 y1 by (simp add: adds_waf_def same_rules_def same_conf_def)
    next
      case False
      have uniq: "conf_rules y d \<noteq> conf_rules y c" if "d \<in> set before" "lc_waf_owner (cy_confs y d)" for d
        using find_donor_None [OF build(2) c0(1)] Cons.prems(5) that
          table_owner_live(3) [OF Cons.prems(2) [unfolded wafs_ok_def]] by auto
      have "es_wafs (engine (cy_trace (upd_conf c (\<lambda>k. k\<lparr>lc_waf_owner := True\<rparr>) ?z))) v \<noteq> None"
        using add False by (simp add: adds_waf_def)
      then have "same_conf (upd_conf c (\<lambda>k. k\<lparr>lc_waf_owner := True\<rparr>) ?z) ?z2"
        using log_rules_count_engine by blast
      moreover have "wafs_ok (mc_waf m) (before @ [c]) ?z2 \<and> same_rules y ?z2"
        by (rule wafs_ok_own [OF Cons.prems(2) c(1) build(1) False add uniq refl])
      ultimately show ?thesis
        using y1 by (intro rec [of ?z2]) (use Cons.prems(1) [unfolded eq] build b False in \<open>auto simp: same_conf_def\<close>)
    qed
  qed
qed auto

lemma init_loc_wafs_rc: "fst (init_loc_wafs P m before cs y) \<in> {NGX_OK, NGX_ERROR}"
  by (induction P m before cs y rule: init_loc_wafs.induct)
    (auto simp: Let_def split: option.splits prod.splits)

text \<open>Loading the library touches neither the configuration nor the engine.\<close>

definition loads :: "cycle \<Rightarrow> cycle \<Rightarrow> bool" where
  "loads y y' \<longleftrightarrow> cy_main y' = cy_main y \<and> cy_http y' = cy_http y \<and> cy_confs y' = cy_confs y \<and>
     cy_arrays y' = cy_arrays y \<and> cy_next_conf y' = cy_next_conf y \<and> cy_next_array y' = cy_next_array y \<and>
     engine (cy_trace y') = engine (cy_trace y)"

lemma DL_SYM_loads: "loads y (snd (DL_SYM P names y))"
  by (induction P names y rule: DL_SYM.induct) (simp_all add: loads_def dynlib_sym_def dynlib_close_def Let_def)

lemma dl_open_loads: "loads y (snd (ngx_http_coraza_dl_open P y))"
proof -
  let ?y = "(pemit (Dl_open CORAZA_DYNLIB True) y)\<lparr>dl_handle := True\<rparr>"
  have "loads y (snd (DL_SYM P dl_symbols ?y))"
    using DL_SYM_loads [of ?y P dl_symbols] by (simp add: loads_def)
  then show ?thesis
    by (cases "DL_SYM P dl_symbols ?y")
      (auto simp: ngx_http_coraza_dl_open_def dynlib_open_def dynlib_close_def loads_def Let_def)
qed

lemma loads_wf: "loads y y' \<Longrightarrow> wf_config y \<Longrightarrow> wf_config y'"
  by (simp add: loads_def wf_config_def conf_ok_def unshared_def some_rules_def conf_rules_def)

definition worker_ready :: "cycle \<Rightarrow> bool" where
  "worker_ready y \<longleftrightarrow> wf_config y \<and> engine (cy_trace y) = no_engine \<and> dl_ok y"

lemma waf_table_start:
  assumes "adds_waf v [] y y'" "v \<noteq> 0" "engine (cy_trace y) = no_engine"
  shows "waf_table v {} W Own R (engine (cy_trace y'))"
  using assms by (simp add: waf_table_def adds_waf_def no_engine_def)

lemma init_process_result:
  assumes fresh: "fresh_handles P" and ready: "worker_ready y"
    and run: "ngx_http_coraza_init_process P y = (rc, y')"
  shows "if rc = NGX_OK then same_rules y y' \<and> (\<exists>m v. cy_main y = Some m \<and> cy_main y' = Some (m\<lparr>mc_waf := v\<rparr>) \<and>
      wafs_ok v (mc_loc_confs m) y' \<and> v \<noteq> 0)
    else rc = NGX_ERROR \<and> \<not> es_bad (engine (cy_trace y')) \<and> es_configs (engine (cy_trace y')) = Map.empty"
proof -
  obtain rc0 y0 where y0: "ngx_http_coraza_dl_open P y = (rc0, y0)" by fastforce
  have ld: "loads y y0" using dl_open_loads [of y P] y0 by simp
  have eng0: "engine (cy_trace y0) = no_engine" using ld ready by (simp add: loads_def worker_ready_def)
  have "wf_config y0" using loads_wf [OF ld] ready by (simp add: worker_ready_def)
  then obtain m where m: "cy_main y0 = Some m" "mc_waf m = 0" "cy_arrays y0 (mc_rules m) = []"
    "distinct (mc_loc_confs m)" "set (mc_loc_confs m) \<subseteq> {1..cy_next_conf y0}"
    and okc: "\<And>c. 1 \<le> c \<Longrightarrow> c \<le> cy_next_conf y0 \<Longrightarrow> conf_ok m y0 c"
    by (rule wf_configE) blast
  obtain v y1 where y1: "init_main_waf P m y0 = (v, y1)" by fastforce
  let ?m = "m\<lparr>mc_waf := v\<rparr>"
  let ?y2 = "upd_main (\<lambda>_. ?m) y1"
  let ?y3 = "log_rules_count P v ?y2"
  have eq: "ngx_http_coraza_init_process P y =
      (if rc0 \<noteq> NGX_OK then (NGX_ERROR, y0) else if v = 0 then (NGX_ERROR, ?y2)
       else init_loc_wafs P ?m [] (mc_loc_confs m) ?y3)"
    by (simp add: ngx_http_coraza_init_process_def y0 m(1) y1 Let_def)
  have add: "adds_waf v [] y0 y1"
    by (rule init_main_waf_adds [OF fresh _ m(3,2) y1]) (simp add: eng0 no_engine_def)
  note A = add [unfolded adds_waf_def]
  consider (dl) "rc0 \<noteq> NGX_OK" | (main) "rc0 = NGX_OK" "v = 0" | (locs) "rc0 = NGX_OK" "v \<noteq> 0" by blast
  then show ?thesis
  proof cases
    case dl
    then show ?thesis using run [unfolded eq] eng0 by (auto simp: no_engine_def)
  next
    case main
    then show ?thesis using run [unfolded eq] A eng0 by (auto simp: no_engine_def)
  next
    case locs
    have "es_wafs (engine (cy_trace ?y2)) v \<noteq> None" using A locs(2) by simp
    then have lg: "same_conf ?y2 ?y3" "engine (cy_trace ?y3) = engine (cy_trace y1)"
      using log_rules_count_engine [of ?y2 v P] by simp_all
    have same: "cy_confs ?y3 = cy_confs y0" "cy_arrays ?y3 = cy_arrays y0" "cy_next_array ?y3 = cy_next_array y0"
      "cy_main ?y3 = Some ?m"
      using lg(1) A m(1) by (simp_all add: same_conf_def)
    have "wafs_ok (mc_waf ?m) [] ?y3"
      using waf_table_start [OF add locs(2) eng0] by (simp add: wafs_ok_def lg(2))
    moreover have "\<forall>c \<in> set (mc_loc_confs m). conf_ok ?m ?y3 c"
      using okc m(5) by (auto simp: conf_ok_def same conf_rules_def)
    ultimately have "same_rules ?y3 y' \<and> cy_main y' = Some ?m \<and>
        (if rc = NGX_OK then wafs_ok v (mc_loc_confs m) y'
         else \<not> es_bad (engine (cy_trace y')) \<and> es_configs (engine (cy_trace y')) = Map.empty)"
      using init_loc_wafs_result [OF fresh, of ?m "[]" "mc_loc_confs m" ?y3 rc y'] run [unfolded eq] locs m(4) same(4)
      by (simp cong: if_cong)
    moreover have "same_rules y ?y3" using ld by (simp add: same_rules_def same loads_def)
    moreover have "rc = NGX_OK \<or> rc = NGX_ERROR" using run [unfolded eq] locs init_loc_wafs_rc [of P ?m "[]" "mc_loc_confs m" ?y3] by auto
    moreover have "cy_main y = Some m" using ld m(1) by (simp add: loads_def)
    ultimately show ?thesis
      using locs(2) same_rules_trans [of y ?y3 y']
      by (cases "rc = NGX_OK") (auto intro!: exI [of _ m] exI [of _ v])
  qed
qed

section \<open>The exit of a worker\<close>

lemma free_loc_wafs_engine:
  assumes "distinct cs"
    and "\<forall>c \<in> set cs. lc_waf_owner (cy_confs y c) \<longrightarrow>
      es_wafs (engine (cy_trace y)) (lc_waf (cy_confs y c)) \<noteq> None \<and> lc_waf (cy_confs y c) \<noteq> 0 \<and>
      lc_waf (cy_confs y c) \<noteq> mc_waf m"
    and "inj_on (\<lambda>c. lc_waf (cy_confs y c)) {c \<in> set cs. lc_waf_owner (cy_confs y c)}"
  shows "same_conf y (free_loc_wafs m cs y) \<and>
    engine (cy_trace (free_loc_wafs m cs y)) = (engine (cy_trace y))\<lparr>es_wafs :=
      es_wafs (engine (cy_trace y)) |` (- (\<lambda>c. lc_waf (cy_confs y c)) ` {c \<in> set cs. lc_waf_owner (cy_confs y c)})\<rparr>"
  using assms
proof (induction cs arbitrary: y)
  case (Cons c cs)
  let ?own = "lc_waf_owner (cy_confs y c)" and ?w = "lc_waf (cy_confs y c)"
  let ?W = "\<lambda>c. lc_waf (cy_confs y c)" and ?O = "{c \<in> set cs. lc_waf_owner (cy_confs y c)}"
  have sets: "{d \<in> set (c # cs). lc_waf_owner (cy_confs y d)} = (if ?own then insert c ?O else ?O)" by auto
  show ?case
  proof (cases ?own)
    case False
    then show ?thesis using Cons.IH [of y] Cons.prems unfolding sets by (simp add: Let_def)
  next
    case True
    let ?y = "coraza_free_waf ?w y"
    have w: "es_wafs (engine (cy_trace y)) ?w \<noteq> None" "?w \<noteq> 0" "?w \<noteq> mc_waf m" using Cons.prems(2) True by auto
    have fr: "cy_confs ?y = cy_confs y" by (simp add: coraza_free_waf_def)
    have eng: "engine (cy_trace ?y) = (engine (cy_trace y))\<lparr>es_wafs := (es_wafs (engine (cy_trace y)))(?w := None)\<rparr>"
      using w(1) by (auto simp: coraza_free_waf_def)
    have "?W d \<noteq> ?w" if "d \<in> ?O" for d
      using Cons.prems(1,3) True that unfolding sets by (auto simp: inj_on_def)
    then have live: "\<forall>d \<in> set cs. lc_waf_owner (cy_confs ?y d) \<longrightarrow>
        es_wafs (engine (cy_trace ?y)) (lc_waf (cy_confs ?y d)) \<noteq> None \<and> lc_waf (cy_confs ?y d) \<noteq> 0 \<and>
        lc_waf (cy_confs ?y d) \<noteq> mc_waf m"
      using Cons.prems(2) by (auto simp: fr eng)
    have inj: "inj_on (\<lambda>c. lc_waf (cy_confs ?y c)) {c \<in> set cs. lc_waf_owner (cy_confs ?y c)}"
      using Cons.prems(3) True unfolding sets fr by (simp add: inj_on_insert)
    have ih: "same_conf ?y (free_loc_wafs m cs ?y)"
      "engine (cy_trace (free_loc_wafs m cs ?y)) = (engine (cy_trace ?y))\<lparr>es_wafs :=
        es_wafs (engine (cy_trace ?y)) |` (- ?W ` ?O)\<rparr>"
      using Cons.IH [OF _ live inj] Cons.prems(1) by (simp_all add: fr)
    have res: "((es_wafs (engine (cy_trace y)))(?w := None)) |` (- ?W ` ?O) =
        es_wafs (engine (cy_trace y)) |` (- ?W ` insert c ?O)"
      by (auto simp: restrict_map_def fun_eq_iff)
    have step: "free_loc_wafs m (c # cs) y = free_loc_wafs m cs ?y" using True w by (simp add: Let_def)
    have "same_conf y ?y" by (simp add: coraza_free_waf_def)
    then have "same_conf y (free_loc_wafs m cs ?y)" using ih(1) same_conf_trans by blast
    moreover have "engine (cy_trace (free_loc_wafs m cs ?y)) = (engine (cy_trace y))\<lparr>es_wafs :=
        es_wafs (engine (cy_trace y)) |` (- ?W ` insert c ?O)\<rparr>"
      unfolding ih(2) eng res [symmetric] by simp
    ultimately show ?thesis unfolding sets step if_P [OF True] by blast
  qed
qed (simp add: restrict_map_def)

lemma clear_loc_wafs_frame:
  "cy_trace (clear_loc_wafs cs y) = cy_trace y \<and> cy_main (clear_loc_wafs cs y) = cy_main y \<and>
   (\<forall>c. cy_confs (clear_loc_wafs cs y) c =
      (if c \<in> set cs then (cy_confs y c)\<lparr>lc_waf := 0, lc_waf_owner := False\<rparr> else cy_confs y c))"
  by (induction cs arbitrary: y) (auto simp: clear_loc_wafs_def)

lemma exit_process_frees:
  assumes ok: "wafs_ok v (mc_loc_confs m) y" and m: "cy_main y = Some m" "mc_waf m = v" "v \<noteq> 0"
    "distinct (mc_loc_confs m)"
  shows "engine (cy_trace (ngx_http_coraza_exit_process y)) = no_engine \<and>
    cy_main (ngx_http_coraza_exit_process y) = Some (m\<lparr>mc_waf := 0\<rparr>) \<and>
    (\<forall>c \<in> set (mc_loc_confs m). lc_waf (cy_confs (ngx_http_coraza_exit_process y) c) = 0 \<and>
       \<not> lc_waf_owner (cy_confs (ngx_http_coraza_exit_process y) c))"
proof -
  let ?cs = "mc_loc_confs m" and ?e = "engine (cy_trace y)"
  let ?O = "{c \<in> set ?cs. lc_waf_owner (cy_confs y c)}" and ?W = "\<lambda>c. lc_waf (cy_confs y c)"
  note T = ok [unfolded wafs_ok_def]
  have t: "\<not> es_bad ?e" "es_configs ?e = Map.empty" "es_wafs ?e v = Some []"
    "dom (es_wafs ?e) = insert v (?W ` ?O)" "v \<notin> ?W ` ?O" "inj_on ?W ?O"
    using T unfolding waf_table_def by blast+
  let ?y = "free_loc_wafs m ?cs y"
  have "\<forall>c \<in> set ?cs. lc_waf_owner (cy_confs y c) \<longrightarrow>
      es_wafs ?e (lc_waf (cy_confs y c)) \<noteq> None \<and> lc_waf (cy_confs y c) \<noteq> 0 \<and> lc_waf (cy_confs y c) \<noteq> mc_waf m"
    using table_owner_live(2,3) [OF T] t(5) m(2) by (auto simp: image_iff)
  then have F: "same_conf y ?y" "engine (cy_trace ?y) = ?e\<lparr>es_wafs := es_wafs ?e |` (- ?W ` ?O)\<rparr>"
    using free_loc_wafs_engine [OF m(4)] t(6) by auto
  have "(es_wafs ?e |` (- ?W ` ?O))(v := None) = Map.empty"
    using t(4) by (auto simp: fun_eq_iff restrict_map_def dom_def)
  moreover have "(es_wafs ?e |` (- ?W ` ?O)) v = Some []" using t(3,5) by (simp add: restrict_map_def)
  ultimately have "engine_step (Free_waf v) (engine (cy_trace ?y)) = no_engine"
    using t(1,2) by (simp add: F(2) no_engine_def)
  moreover have "ngx_http_coraza_exit_process y =
      upd_main (\<lambda>m. m\<lparr>mc_waf := 0\<rparr>) (coraza_free_waf v (clear_loc_wafs ?cs ?y))"
    using m by (simp add: ngx_http_coraza_exit_process_def ngx_http_coraza_dl_close_def Let_def)
  ultimately show ?thesis
    using clear_loc_wafs_frame [of ?cs ?y] F(1) m(1) by (simp add: coraza_free_waf_def same_conf_def)
qed

lemma worker_ready: "configured P y \<Longrightarrow> worker_ready y"
  using wf_configured configured_history by (simp add: worker_ready_def)

section \<open>When a worker starts\<close>

text \<open>An environment in which nothing fails.\<close>

definition nothing_fails :: "penv \<Rightarrow> bool" where
  "nothing_fails P \<longleftrightarrow>
     (\<forall>tr. conf_alloc P tr \<and> eng_version_num P tr \<ge> 10700 \<and> eng_new_waf_config P tr \<noteq> 0) \<and>
     (\<forall>tr s. dlopen P tr s \<and> dlsym P tr s) \<and>
     (\<forall>tr c s. eng_rules_add P tr c s \<ge> 0 \<and> eng_rules_add_file P tr c s \<ge> 0) \<and>
     (\<forall>tr c. fst (eng_new_waf P tr c) \<noteq> 0)"

lemma finish_waf_succeeds: "nothing_fails P \<Longrightarrow> fst (finish_waf P c y) \<noteq> 0"
  by (simp add: nothing_fails_def finish_waf_def coraza_new_waf_def Let_def split: prod.splits) (metis fst_conv)

lemma build_waf_loop_succeeds: "nothing_fails P \<Longrightarrow> fst (build_waf_loop P c es y)"
proof (induction es arbitrary: y)
  case (Cons e es)
  obtain n z where nz: "add_call P c e (pemit (Conf_alloc True) y) = (n, z)" by fastforce
  then have "n \<ge> 0"
    using Cons.prems
    by (auto simp: add_call_def coraza_rules_add_def coraza_rules_add_file_def nothing_fails_def Let_def
        split: ngx_http_coraza_rule_type.splits)
  then show ?case
    unfolding build_waf_loop_Cons using Cons nz by (simp add: nothing_fails_def Let_def)
qed simp

lemma build_waf_succeeds:
  assumes "nothing_fails P" "rules \<noteq> 0" "cy_arrays y rules \<noteq> []"
  shows "fst (ngx_http_coraza_build_waf P rules y) \<noteq> 0"
  using assms build_waf_loop_succeeds [OF assms(1)] finish_waf_succeeds [OF assms(1)]
  by (simp add: ngx_http_coraza_build_waf_def coraza_new_waf_config_def nothing_fails_def Let_def split: prod.split)
    (metis fst_conv)

lemma build_waf_loop_confs: "cy_confs (snd (build_waf_loop P c es y)) = cy_confs y"
proof (induction es arbitrary: y)
  case (Cons e es)
  obtain n z where nz: "add_call P c e (pemit (Conf_alloc (conf_alloc P (cy_trace y))) y) = (n, z)" by fastforce
  then have "cy_confs z = cy_confs y" using add_call_engine [OF nz] by (simp add: same_conf_def)
  then show ?case
    unfolding build_waf_loop_Cons using Cons.IH [of z] nz by (simp add: Let_def coraza_free_waf_config_def)
qed simp

lemma build_waf_confs: "cy_confs (snd (ngx_http_coraza_build_waf P rules y)) = cy_confs y"
  using build_waf_loop_confs [of P "eng_new_waf_config P (cy_trace y)" "cy_arrays y rules"
      "pemit (New_waf_config (eng_new_waf_config P (cy_trace y))) y"]
  by (auto simp: ngx_http_coraza_build_waf_def coraza_new_waf_config_def finish_waf_def coraza_new_waf_def
      coraza_free_waf_config_def coraza_free_string_def Let_def split: prod.splits)

lemma init_loc_wafs_succeeds:
  assumes "nothing_fails P"
  shows "(\<forall>c \<in> set cs. lc_rules (cy_confs y c) \<noteq> 0) \<Longrightarrow> fst (init_loc_wafs P m before cs y) = NGX_OK"
proof (induction cs arbitrary: before y)
  case (Cons c cs)
  have rec: "fst (init_loc_wafs P m (before @ [c]) cs z) = NGX_OK"
    if "\<And>d. lc_rules (cy_confs z d) = lc_rules (cy_confs y d)" for z
    using Cons.IH [of z "before @ [c]"] Cons.prems that by simp
  obtain v y1 where b: "ngx_http_coraza_build_waf P (lc_rules (cy_confs y c)) y = (v, y1)" by fastforce
  have v: "v \<noteq> 0" if "cy_arrays y (lc_rules (cy_confs y c)) \<noteq> []"
    using build_waf_succeeds [OF assms, of "lc_rules (cy_confs y c)" y] Cons.prems b that by simp
  have y1: "cy_confs y1 = cy_confs y" using build_waf_confs [of P "lc_rules (cy_confs y c)" y] b by simp
  show ?case
    using v b
    by (auto simp: Let_def log_rules_count_def coraza_rules_count_def y1 intro!: rec split: option.split)
qed simp

lemma init_main_waf_succeeds:
  assumes "nothing_fails P" "cy_arrays y (mc_rules m) = []"
  shows "fst (init_main_waf P m y) \<noteq> 0"
proof -
  have "eng_new_waf_config P (cy_trace y) \<noteq> 0" using assms(1) by (simp add: nothing_fails_def)
  then show ?thesis
    using assms(2) finish_waf_succeeds [OF assms(1)]
    by (simp add: init_main_waf_def coraza_new_waf_config_def Let_def)
qed

lemma init_process_succeeds:
  assumes ok: "nothing_fails P" and ready: "worker_ready y"
  shows "fst (ngx_http_coraza_init_process P y) = NGX_OK"
proof -
  obtain rc0 y0 where y0: "ngx_http_coraza_dl_open P y = (rc0, y0)" by fastforce
  have rc0: "rc0 = NGX_OK"
    by (rule dl_open_accepts [OF _ y0]) (use ok in \<open>simp add: nothing_fails_def\<close>)
  have "wf_config y0"
    using loads_wf [of y y0] dl_open_loads [of y P] y0 ready by (simp add: worker_ready_def)
  then obtain m where m: "cy_main y0 = Some m" "cy_arrays y0 (mc_rules m) = []"
    "set (mc_loc_confs m) \<subseteq> {1..cy_next_conf y0}"
    and okc: "\<And>c. 1 \<le> c \<Longrightarrow> c \<le> cy_next_conf y0 \<Longrightarrow> conf_ok m y0 c"
    by (rule wf_configE) blast
  obtain v y1 where y1: "init_main_waf P m y0 = (v, y1)" by fastforce
  have v: "v \<noteq> 0" using init_main_waf_succeeds [OF ok m(2)] y1 by simp
  have c1: "cy_confs y1 = cy_confs y0"
    using y1 m(2) by (auto simp: init_main_waf_def coraza_new_waf_config_def finish_waf_def coraza_new_waf_def
        coraza_free_waf_config_def coraza_free_string_def Let_def split: if_splits prod.splits)
  have "\<forall>c \<in> set (mc_loc_confs m). lc_rules (cy_confs y0 c) \<noteq> 0"
    using okc m(3) by (fastforce simp: conf_ok_def)
  then have "fst (init_loc_wafs P (m\<lparr>mc_waf := v\<rparr>) [] (mc_loc_confs m)
      (log_rules_count P v (upd_main (\<lambda>_. m\<lparr>mc_waf := v\<rparr>) y1))) = NGX_OK"
    by (intro init_loc_wafs_succeeds [OF ok])
      (simp add: log_rules_count_def coraza_rules_count_def c1 Let_def)
  then show ?thesis using v by (simp add: ngx_http_coraza_init_process_def y0 rc0 m(1) y1 Let_def)
qed

lemma nothing_fails_sample: "nothing_fails sample_penv"
  by (simp add: nothing_fails_def sample_penv_def)

lemma sample_site_no_dl: "\<not> dl_handle sample_site"
  by (simp add: sample_site_def ngx_http_coraza_merge_conf_def merge_rules_def inherit_flags_def
      sample_configured_def ngx_http_coraza_create_conf_def ngx_http_coraza_create_main_conf_def
      array_create_def cf_palloc_eq sample_penv_def no_cycle_def empty_conf_def Let_def
      ngx_conf_set_rules_def store_rule_def rules_scan_eval)

lemma sample_site_starts:
  "ngx_http_coraza_init_process sample_penv sample_site =
     (NGX_OK, snd (ngx_http_coraza_init_process sample_penv sample_site))"
  using init_process_succeeds [OF nothing_fails_sample worker_ready [OF sample_site(1)]]
  by (simp add: prod_eq_iff)

section \<open>Properties\<close>

text \<open>
  C37: deduplication compares contents.  For arrays that exist, the comparison,
  with its pointer shortcut, says equal exactly when both hold the same entries
  in the same order.
\<close>

theorem rules_equal_iff:
  assumes "a \<noteq> 0" "b \<noteq> 0"
  shows "ngx_http_coraza_rules_equal y a b \<longleftrightarrow> cy_arrays y a = cy_arrays y b"
  using assms by (rule rules_equal_arrays)

theorem rules_equal_iff_witness: "\<not> ngx_http_coraza_rules_equal sample_cycle 2 3"
  using rules_equal_iff [of 2 3 sample_cycle] by (simp add: sample_cycle_def sample_rule_def)

text \<open>
  C20: when a worker has started, every registered location with rules has a WAF
  that libcoraza compiled from exactly the rules of that location in their order,
  two such locations have the same WAF exactly when they have the same rules, and
  the main WAF is live and has no rules.
\<close>

theorem worker_wafs_match_rules:
  assumes "configured P0 y" "fresh_handles P" "ngx_http_coraza_init_process P y = (NGX_OK, y')"
  shows "\<exists>m. cy_main y' = Some m \<and> es_wafs (engine (cy_trace y')) (mc_waf m) = Some [] \<and>
    (\<forall>c \<in> set (mc_loc_confs m). conf_rules y c \<noteq> [] \<longrightarrow>
       es_wafs (engine (cy_trace y')) (lc_waf (cy_confs y' c)) = Some (texts (conf_rules y c)) \<and>
       (\<forall>d \<in> set (mc_loc_confs m). conf_rules y d \<noteq> [] \<longrightarrow>
          (lc_waf (cy_confs y' c) = lc_waf (cy_confs y' d) \<longleftrightarrow> conf_rules y c = conf_rules y d)))"
proof -
  obtain m v where sr: "same_rules y y'" and m: "cy_main y' = Some (m\<lparr>mc_waf := v\<rparr>)"
    and ok: "wafs_ok v (mc_loc_confs m) y'"
    using init_process_result [OF assms(2) worker_ready [OF assms(1)] assms(3)] by auto
  have cr: "conf_rules y' c = conf_rules y c" for c by (rule same_rules_conf [OF sr])
  note T = ok [unfolded wafs_ok_def]
  have live: "es_wafs (engine (cy_trace y')) (lc_waf (cy_confs y' c)) = Some (texts (conf_rules y c))"
    if "c \<in> set (mc_loc_confs m)" "conf_rules y c \<noteq> []" for c
    using T that by (auto simp: waf_table_def cr)
  have share: "lc_waf (cy_confs y' c) = lc_waf (cy_confs y' d) \<longleftrightarrow> conf_rules y c = conf_rules y d"
    if "c \<in> set (mc_loc_confs m)" "d \<in> set (mc_loc_confs m)" "conf_rules y c \<noteq> []" "conf_rules y d \<noteq> []" for c d
    using table_shares [OF T that(1,2)] that(3,4) by (simp add: cr)
  have "es_wafs (engine (cy_trace y')) v = Some []" using T by (simp add: waf_table_def)
  then show ?thesis using m live share by (intro exI [of _ "m\<lparr>mc_waf := v\<rparr>"]) simp
qed

theorem worker_wafs_match_rules_witness:
  "\<exists>v. es_wafs (engine (cy_trace (snd (ngx_http_coraza_init_process sample_penv sample_site)))) v =
     Some [(NGX_CORAZA_RULE_INLINE, [65])]"
proof -
  let ?y = "snd (ngx_http_coraza_init_process sample_penv sample_site)"
  have "texts (conf_rules sample_site 2) = [(NGX_CORAZA_RULE_INLINE, [65])]"
    by (simp add: sample_site(4) texts_def rule_cstring_def c_string_def)
  moreover obtain m where "cy_main ?y = Some m" "\<forall>c \<in> set (mc_loc_confs m). conf_rules sample_site c \<noteq> [] \<longrightarrow>
       es_wafs (engine (cy_trace ?y)) (lc_waf (cy_confs ?y c)) = Some (texts (conf_rules sample_site c))"
    using worker_wafs_match_rules [OF sample_site(1) fresh_handles_sample sample_site_starts] by blast
  moreover obtain v where "cy_main ?y = Some (\<lparr>mc_waf = 0, mc_rules = 1, mc_loc_confs = [2], mc_rules_inline = 1,
      mc_rules_file = 0, mc_rules_remote = 0\<rparr>\<lparr>mc_waf := v\<rparr>)"
    using init_process_result [OF fresh_handles_sample worker_ready [OF sample_site(1)] sample_site_starts]
    by (auto simp: sample_site(3))
  ultimately show ?thesis by (auto simp: sample_site(4))
qed

text \<open>
  C18: a worker that started and exits leaves nothing behind in libcoraza: every
  WAF and every temporary configuration has been freed exactly once, and no handle
  was used or freed while it was not live.  All stored handles are cleared.
\<close>

theorem worker_frees_everything:
  assumes "configured P0 y" "fresh_handles P" "ngx_http_coraza_init_process P y = (NGX_OK, y')"
  shows "engine (cy_trace (ngx_http_coraza_exit_process y')) = no_engine \<and>
    (\<exists>m. cy_main (ngx_http_coraza_exit_process y') = Some m \<and> mc_waf m = 0 \<and>
       (\<forall>c \<in> set (mc_loc_confs m). lc_waf (cy_confs (ngx_http_coraza_exit_process y') c) = 0))"
proof -
  obtain m v where m: "cy_main y = Some m" "cy_main y' = Some (m\<lparr>mc_waf := v\<rparr>)" "v \<noteq> 0"
    and ok: "wafs_ok v (mc_loc_confs m) y'"
    using init_process_result [OF assms(2) worker_ready [OF assms(1)] assms(3)] by auto
  have "distinct (mc_loc_confs m)" using wf_configured [OF assms(1)] m(1) by (auto simp: wf_config_def)
  then show ?thesis
    using exit_process_frees [of v "m\<lparr>mc_waf := v\<rparr>" y'] ok m(2,3) by simp
qed

theorem worker_frees_everything_witness:
  "engine (cy_trace (ngx_http_coraza_exit_process (snd (ngx_http_coraza_init_process sample_penv sample_site)))) =
     no_engine"
  using worker_frees_everything [OF sample_site(1) fresh_handles_sample sample_site_starts] by blast

text \<open>
  C33: a worker that fails to start reports \<open>NGX_ERROR\<close>, and whatever failed (the
  library, an allocation, a rule, the compilation), every temporary configuration
  has been freed, exactly once.
\<close>

theorem worker_start_failure:
  assumes "configured P0 y" "fresh_handles P" "ngx_http_coraza_init_process P y = (rc, y')" "rc \<noteq> NGX_OK"
  shows "rc = NGX_ERROR \<and> es_configs (engine (cy_trace y')) = Map.empty \<and> \<not> es_bad (engine (cy_trace y'))"
  using init_process_result [OF assms(2) worker_ready [OF assms(1)] assms(3)] assms(4) by simp

theorem worker_start_failure_witness:
  "fst (ngx_http_coraza_init_process (sample_penv\<lparr>dlopen := \<lambda>_ _. False\<rparr>) sample_site) = NGX_ERROR"
proof -
  let ?P = "sample_penv\<lparr>dlopen := \<lambda>_ _. False\<rparr>"
  obtain rc y' where run: "ngx_http_coraza_init_process ?P sample_site = (rc, y')" by fastforce
  have "\<not> dl_handle sample_site" using sample_site_no_dl .
  then have "rc \<noteq> NGX_OK"
    using run by (auto simp: ngx_http_coraza_init_process_def ngx_http_coraza_dl_open_def dynlib_open_def Let_def)
  moreover have "fresh_handles ?P" using fresh_handles_sample by (simp add: fresh_handles_def)
  ultimately show ?thesis using worker_start_failure [OF sample_site(1) _ run] run by simp
qed

text \<open>
  C32: if nothing fails around it (memory, a complete library of a supported
  version, rules the engine accepts), every worker starts, for every
  configuration nginx can build.
\<close>

theorem worker_starts:
  assumes "configured P0 y" "nothing_fails P"
  shows "fst (ngx_http_coraza_init_process P y) = NGX_OK"
  using init_process_succeeds [OF assms(2) worker_ready [OF assms(1)]] .

theorem worker_starts_witness: "fst (ngx_http_coraza_init_process sample_penv sample_site) = NGX_OK"
  by (rule worker_starts [OF sample_site(1) nothing_fails_sample])

end
