(* ===== verification/Lifecycle.thy ===== *)
theory Lifecycle
  imports Body_Filter Waf
begin

text \<open>
  The life of a request across the components: the handlers of the other
  theories as the steps nginx takes them in, in any order, with internal
  redirects, subrequests and body callbacks between them, until the request pool
  is destroyed and the registered cleanups run.

  The contract with libcoraza is stated as an automaton on the history of calls,
  \<open>tx_protocol\<close>.  The invariant \<open>owns\<close> ties its state to the contexts that
  have a cleanup; it is kept by every primitive effect, hence by every handler.
\<close>

section \<open>The protocol of a transaction\<close>

text \<open>
  A transaction is opened, used, written to the audit log once and freed.  It
  may only be freed once it has been logged, or when nothing has been done with
  it.  Calls with the null handle are not part of the protocol.
\<close>

datatype tx_phase = Opened | Used | Logged

definition tx_call :: "coraza_call \<Rightarrow> tx_phase \<Rightarrow> tx_phase option option" where
  "tx_call c p =
     (if c = Process_logging then (if p = Logged then None else Some (Some Logged))
      else if c = Free_transaction then (if p = Used then None else Some None)
      else Some (Some (if p = Opened then Used else p)))"

fun tx_step :: "event \<Rightarrow> (tx \<rightharpoonup> tx_phase) \<Rightarrow> (tx \<rightharpoonup> tx_phase) option" where
  "tx_step (New_transaction v s t) m =
     (if t = 0 then Some m else if m t = None then Some (m(t \<mapsto> Opened)) else None)"
| "tx_step (Eng t c n) m =
     (if t = 0 then Some m
      else case m t of None \<Rightarrow> None | Some p \<Rightarrow> map_option (\<lambda>q. m(t := q)) (tx_call c p))"
| "tx_step (Polled t iv) m = (if t = 0 \<or> m t \<noteq> None then Some m else None)"
| "tx_step _ m = Some m"

text \<open>\<open>None\<close> when the history breaks the protocol, else the open transactions.\<close>

definition tx_protocol :: "event list \<Rightarrow> (tx \<rightharpoonup> tx_phase) option" where
  "tx_protocol tr = fold (\<lambda>e s. Option.bind s (tx_step e)) tr (Some Map.empty)"

text \<open>
  What the connector relies on: the handle of a new transaction is null or not
  the handle of an open one.
\<close>

definition fresh_transactions :: "env \<Rightarrow> bool" where
  "fresh_transactions E \<longleftrightarrow>
     (\<forall>tr m v s. tx_protocol tr = Some m \<longrightarrow> m (eng_new_transaction E tr v s) = None)"

lemma tx_protocol_Nil [simp]: "tx_protocol [] = Some Map.empty"
  by (simp add: tx_protocol_def)

lemma tx_protocol_append [simp]:
  "tx_protocol (tr @ es) = fold (\<lambda>e s. Option.bind s (tx_step e)) es (tx_protocol tr)"
  by (simp add: tx_protocol_def)

lemma tx_step_harmless: "harmless e \<Longrightarrow> tx_step e m = Some m"
  by (cases e) auto

section \<open>What nginx does with a request\<close>

text \<open>The cleanups of the pool, in the order of the list, then the pool is gone.\<close>

definition destroy_pool :: "env \<Rightarrow> world \<Rightarrow> world" where
  "destroy_pool E w = (foldl (\<lambda>w i. ngx_http_coraza_cleanup E i w) w (cleanups w))\<lparr>pool_alive := False\<rparr>"

definition fresh_request :: "world \<Rightarrow> bool" where
  "fresh_request w \<longleftrightarrow> trace w = [] \<and> module_ctx w = None \<and> cleanups w = [] \<and> next_ctx w = 0 \<and> pool_alive w"

text \<open>
  \<open>enter\<close> covers everything that makes the module see another request or another
  configuration on the same pool: an internal redirect or a named location, which
  wipe the module context, a rewrite to another location, which keeps it, and
  entering or leaving a subrequest, which has its own.  A nested run (the
  \<open>error_page\<close> redirect inside a filter's call of the finalizer) is the same
  steps after the filter, which returns at once.
\<close>

inductive request_step :: "env \<Rightarrow> world \<Rightarrow> world \<Rightarrow> bool" for E :: env where
  rewrite_phase: "pool_alive w \<Longrightarrow> request_step E w (snd (ngx_http_coraza_rewrite_handler E w))"
| preaccess_phase: "pool_alive w \<Longrightarrow> request_step E w (snd (ngx_http_coraza_pre_access_handler E w))"
| body_read: "pool_alive w \<Longrightarrow> ngx_http_coraza_request_read w = Some w' \<Longrightarrow> request_step E w w'"
| header_filter: "pool_alive w \<Longrightarrow> request_step E w (snd (ngx_http_coraza_header_filter E w))"
| body_filter: "pool_alive w \<Longrightarrow> request_step E w (snd (ngx_http_coraza_body_filter E ch w))"
| log_phase: "pool_alive w \<Longrightarrow> request_step E w (snd (ngx_http_coraza_log_handler E w))"
| enter: "pool_alive w \<Longrightarrow> (\<And>i. j = Some i \<Longrightarrow> i < next_ctx w) \<Longrightarrow>
    request_step E w (w\<lparr>req := r, mcf := c, clcf := l, module_ctx := j\<rparr>)"
| destroy: "pool_alive w \<Longrightarrow> request_step E w (destroy_pool E w)"

inductive request_run :: "env \<Rightarrow> world \<Rightarrow> bool" for E :: env where
  arrives: "fresh_request w \<Longrightarrow> request_run E w"
| continues: "request_run E w \<Longrightarrow> request_step E w w' \<Longrightarrow> request_run E w'"

section \<open>Ownership\<close>

text \<open>
  \<open>owns cs w m\<close>: the contexts \<open>cs\<close> hold different transactions, these are
  exactly the open ones, and each is logged exactly when its context says so.
\<close>

abbreviation ctx_tx :: "world \<Rightarrow> nat \<Rightarrow> tx" where
  "ctx_tx w i \<equiv> coraza_transaction (ctxs w i)"

definition owns :: "nat list \<Rightarrow> world \<Rightarrow> (tx \<rightharpoonup> tx_phase) \<Rightarrow> bool" where
  "owns cs w m \<longleftrightarrow> distinct cs \<and> inj_on (ctx_tx w) (set cs) \<and> dom m = ctx_tx w ` set cs \<and> m 0 = None \<and>
     (\<forall>i \<in> set cs. m (ctx_tx w i) = Some Logged \<longleftrightarrow> logged (ctxs w i))"

text \<open>Every context that was installed is registered or has lost its transaction.\<close>

definition ctxs_ok :: "world \<Rightarrow> bool" where
  "ctxs_ok w \<longleftrightarrow> (\<forall>i \<in> set (cleanups w). i < next_ctx w) \<and>
     (\<forall>i < next_ctx w. i \<in> set (cleanups w) \<or> ctx_tx w i = 0) \<and>
     (\<forall>i. module_ctx w = Some i \<longrightarrow> i < next_ctx w)"

definition tx_inv :: "world \<Rightarrow> bool" where
  "tx_inv w \<longleftrightarrow> ctxs_ok w \<and> (\<exists>m. tx_protocol (trace w) = Some m \<and> owns (cleanups w) w m)"

lemma ownsD:
  assumes "owns cs w m"
  shows "distinct cs" "inj_on (ctx_tx w) (set cs)" "dom m = ctx_tx w ` set cs" "m 0 = None"
    "i \<in> set cs \<Longrightarrow> m (ctx_tx w i) = Some Logged \<longleftrightarrow> logged (ctxs w i)"
  using assms by (simp_all add: owns_def)

lemma ownsI:
  assumes "distinct cs" "inj_on (ctx_tx w) (set cs)" "dom m = ctx_tx w ` set cs" "m 0 = None"
    "\<And>i. i \<in> set cs \<Longrightarrow> m (ctx_tx w i) = Some Logged \<longleftrightarrow> logged (ctxs w i)"
  shows "owns cs w m"
  unfolding owns_def using assms by blast

lemma owns_open:
  assumes "owns cs w m" "i \<in> set cs"
  shows "\<exists>p. m (ctx_tx w i) = Some p \<and> (p = Logged \<longleftrightarrow> logged (ctxs w i))"
proof -
  have "ctx_tx w i \<in> dom m" using ownsD(3) [OF assms(1)] assms(2) by simp
  then obtain p where "m (ctx_tx w i) = Some p" by blast
  with ownsD(5) [OF assms] show ?thesis by simp
qed

lemma owns_nonnull:
  assumes "owns cs w m" "i \<in> set cs"
  shows "ctx_tx w i \<noteq> 0"
  using owns_open [OF assms] ownsD(4) [OF assms(1)] by (metis option.distinct(1))

lemma owns_same:
  assumes o: "owns cs w m"
    and same: "\<And>i. i \<in> set cs \<Longrightarrow> ctx_tx w' i = ctx_tx w i"
      "\<And>i. i \<in> set cs \<Longrightarrow> logged (ctxs w' i) = logged (ctxs w i)"
  shows "owns cs w' m"
proof (rule ownsI)
  show "inj_on (ctx_tx w') (set cs)" using ownsD(2) [OF o] by (simp add: inj_on_def same(1))
  show "dom m = ctx_tx w' ` set cs" using ownsD(3) [OF o] by (simp add: same(1) cong: image_cong)
  show "m (ctx_tx w' i) = Some Logged \<longleftrightarrow> logged (ctxs w' i)" if "i \<in> set cs" for i
    using ownsD(5) [OF o that] same that by simp
qed (use ownsD [OF o] in auto)

text \<open>Moving the transaction of one context to another phase.\<close>

lemma owns_phase:
  assumes o: "owns cs w m" and i: "i \<in> set cs"
    and same: "\<And>j. j \<in> set cs \<Longrightarrow> ctx_tx w' j = ctx_tx w j"
      "\<And>j. j \<in> set cs \<Longrightarrow> j \<noteq> i \<Longrightarrow> logged (ctxs w' j) = logged (ctxs w j)"
    and p: "p = Logged \<longleftrightarrow> logged (ctxs w' i)"
  shows "owns cs w' (m(ctx_tx w i \<mapsto> p))"
proof (rule ownsI)
  show "inj_on (ctx_tx w') (set cs)" using ownsD(2) [OF o] by (simp add: inj_on_def same(1))
  show "dom (m(ctx_tx w i \<mapsto> p)) = ctx_tx w' ` set cs"
    using ownsD(3) [OF o] i by (auto simp: same(1) cong: image_cong)
  show "(m(ctx_tx w i \<mapsto> p)) 0 = None" using ownsD(4) [OF o] owns_nonnull [OF o i] by simp
  show "(m(ctx_tx w i \<mapsto> p)) (ctx_tx w' j) = Some Logged \<longleftrightarrow> logged (ctxs w' j)" if j: "j \<in> set cs" for j
  proof (cases "j = i")
    case False
    then have "ctx_tx w j \<noteq> ctx_tx w i" using ownsD(2) [OF o] i j by (auto simp: inj_on_def)
    then show ?thesis using ownsD(5) [OF o j] same j False by simp
  qed (use p same(1) i in simp)
qed (rule ownsD(1) [OF o])

lemma ctxs_ok_current:
  assumes "ctxs_ok w" "module_ctx w = Some i" "ctx_tx w i \<noteq> 0"
  shows "i \<in> set (cleanups w)"
  using assms by (auto simp: ctxs_ok_def)

section \<open>Every effect keeps the ownership\<close>

lemma ctxs_ok_same:
  assumes "ctxs_ok w" "cleanups w' = cleanups w" "next_ctx w' = next_ctx w"
    "\<And>i. i < next_ctx w \<Longrightarrow> ctx_tx w' i = ctx_tx w i"
    "\<And>i. module_ctx w' = Some i \<Longrightarrow> i < next_ctx w"
  shows "ctxs_ok w'"
  using assms by (simp add: ctxs_ok_def)

lemma tx_inv_same:
  assumes "tx_inv w" "trace w' = trace w" "cleanups w' = cleanups w" "next_ctx w' = next_ctx w"
    "\<And>i. i < next_ctx w \<Longrightarrow> ctx_tx w' i = ctx_tx w i"
    "\<And>i. i < next_ctx w \<Longrightarrow> logged (ctxs w' i) = logged (ctxs w i)"
    "\<And>i. module_ctx w' = Some i \<Longrightarrow> i < next_ctx w"
  shows "tx_inv w'"
proof -
  obtain m where ok: "ctxs_ok w" and m: "tx_protocol (trace w) = Some m" and o: "owns (cleanups w) w m"
    using assms(1) by (auto simp: tx_inv_def)
  have "i < next_ctx w" if "i \<in> set (cleanups w)" for i using ok that by (simp add: ctxs_ok_def)
  then have "owns (cleanups w) w' m" using owns_same [OF o] assms(5,6) by blast
  moreover have "ctxs_ok w'" using ctxs_ok_same [OF ok assms(3,4,5,7)] .
  ultimately show ?thesis using assms(2,3) m by (simp add: tx_inv_def)
qed

text \<open>A call of the engine on a registered context, leaving phase \<open>p\<close> and log flag \<open>l\<close>.\<close>

definition called :: "env \<Rightarrow> nat \<Rightarrow> coraza_call \<Rightarrow> (ngx_http_coraza_ctx \<Rightarrow> ngx_http_coraza_ctx) \<Rightarrow> world \<Rightarrow> world" where
  "called E i c f w = upd_ctx i f (snd (cgo E (ctx_tx w i) c w))"

lemma tx_inv_called:
  assumes inv: "tx_inv w" and cur: "module_ctx w = Some i"
    and f: "\<And>c. coraza_transaction (f c) = coraza_transaction c"
    and c: "\<And>p. (p = Logged \<longleftrightarrow> logged (ctxs w i)) \<Longrightarrow>
      \<exists>q. tx_call c p = Some (Some q) \<and> (q = Logged \<longleftrightarrow> logged (f (ctxs w i)))"
  shows "tx_inv (called E i c f w)"
proof -
  obtain m where ok: "ctxs_ok w" and m: "tx_protocol (trace w) = Some m" and o: "owns (cleanups w) w m"
    using inv by (auto simp: tx_inv_def)
  have i: "i < next_ctx w" using ok cur by (simp add: ctxs_ok_def)
  have ok': "ctxs_ok (called E i c f w)"
    by (rule ctxs_ok_same [OF ok]) (use cur i f in \<open>auto simp: called_def snd_cgo\<close>)
  show ?thesis
  proof (cases "ctx_tx w i = 0")
    case True
    then have "i \<notin> set (cleanups w)" using owns_nonnull [OF o] by blast
    then have "owns (cleanups w) (called E i c f w) m"
      by (intro owns_same [OF o]) (auto simp: called_def snd_cgo)
    then show ?thesis using ok' m True by (simp add: tx_inv_def called_def snd_cgo)
  next
    case False
    then have r: "i \<in> set (cleanups w)" using ctxs_ok_current [OF ok cur] by simp
    obtain p where p: "m (ctx_tx w i) = Some p" "p = Logged \<longleftrightarrow> logged (ctxs w i)"
      using owns_open [OF o r] by blast
    obtain q where q: "tx_call c p = Some (Some q)" "q = Logged \<longleftrightarrow> logged (f (ctxs w i))"
      using c [OF p(2)] by blast
    have "owns (cleanups w) (called E i c f w) (m(ctx_tx w i \<mapsto> q))"
      by (rule owns_phase [OF o r]) (use f q(2) in \<open>auto simp: called_def snd_cgo\<close>)
    then show ?thesis using ok' m p(1) q(1) False by (simp add: tx_inv_def called_def snd_cgo)
  qed
qed

lemma tx_call_plain: "plain c \<Longrightarrow> tx_call c p = Some (Some (if p = Opened then Used else p))"
  by (simp add: tx_call_def plain_def)

lemma tx_inv_engine:
  assumes "tx_inv w" "module_ctx w = Some i" "plain c"
  shows "tx_inv (snd (cgo E (ctx_tx w i) c w))"
proof -
  have "tx_inv (called E i c id w)"
    by (rule tx_inv_called [OF assms(1,2)]) (auto simp: tx_call_plain [OF assms(3)])
  then show ?thesis by (simp add: called_def upd_ctx_def)
qed

lemma tx_inv_log:
  assumes "tx_inv w" "module_ctx w = Some i" "\<not> logged (ctxs w i)"
  shows "tx_inv (upd_ctx i (\<lambda>c. c\<lparr>logged := True\<rparr>) (snd (coraza_process_logging E (ctx_tx w i) w)))"
  unfolding coraza_process_logging_def called_def [symmetric]
  by (rule tx_inv_called [OF assms(1,2)]) (use assms(3) in \<open>auto simp: tx_call_def\<close>)

lemma tx_inv_poll:
  assumes "tx_inv w" "module_ctx w = Some i"
  shows "tx_inv (snd (coraza_intervention E (ctx_tx w i) w))"
proof -
  obtain m where ok: "ctxs_ok w" and m: "tx_protocol (trace w) = Some m" and o: "owns (cleanups w) w m"
    using assms(1) by (auto simp: tx_inv_def)
  have "ctx_tx w i = 0 \<or> m (ctx_tx w i) \<noteq> None"
    using ctxs_ok_current [OF ok assms(2)] owns_open [OF o, of i] by auto
  moreover have "ctxs_ok (emit (Polled t iv) w)" "owns (cleanups w) (emit (Polled t iv) w) m" for t iv
    using ok o by (simp_all add: ctxs_ok_def owns_def)
  ultimately show ?thesis
    using m by (simp add: tx_inv_def coraza_intervention_def Let_def)
qed

lemma tx_inv_event: "tx_inv w \<Longrightarrow> harmless e \<Longrightarrow> tx_inv (emit e w)"
  by (auto simp: tx_inv_def tx_step_harmless ctxs_ok_def owns_def)

text \<open>A new transaction, registered: one more context, which owns it.\<close>

lemma owns_new:
  assumes o: "owns cs w m" and n: "n \<notin> set cs" and t: "m t = None" "t \<noteq> 0"
    and same: "\<And>i. i \<in> set cs \<Longrightarrow> ctxs w' i = ctxs w i"
    and new: "ctx_tx w' n = t" "\<not> logged (ctxs w' n)"
  shows "owns (n # cs) w' (m(t \<mapsto> Opened))"
proof (rule ownsI)
  have fresh: "ctx_tx w i \<noteq> t" if "i \<in> set cs" for i using owns_open [OF o that] t(1) by auto
  have img: "ctx_tx w' ` set cs = ctx_tx w ` set cs" by (simp add: same cong: image_cong)
  show "distinct (n # cs)" using ownsD(1) [OF o] n by simp
  have "inj_on (ctx_tx w') (set cs)" using ownsD(2) [OF o] by (simp add: inj_on_def same)
  moreover have "ctx_tx w' n \<notin> ctx_tx w' ` set cs" unfolding img new(1) using fresh by blast
  ultimately show "inj_on (ctx_tx w') (set (n # cs))" by (auto simp: inj_on_insert)
  show "dom (m(t \<mapsto> Opened)) = ctx_tx w' ` set (n # cs)" using ownsD(3) [OF o] new(1) img by simp
  show "(m(t \<mapsto> Opened)) 0 = None" using ownsD(4) [OF o] t(2) by simp
  show "(m(t \<mapsto> Opened)) (ctx_tx w' i) = Some Logged \<longleftrightarrow> logged (ctxs w' i)" if "i \<in> set (n # cs)" for i
    using that new ownsD(5) [OF o, of i] fresh [of i] same [of i] n by (cases "i = n") auto
qed

lemma tx_inv_registered:
  assumes inv: "tx_inv w" and fr: "fresh_transactions E" and t: "t = eng_new_transaction E (trace w) v s" "t \<noteq> 0"
  shows "tx_inv (register_cleanup (next_ctx w)
    (emit (Alloc n True) (install_ctx t (emit (New_transaction v s t) w))))" (is "tx_inv ?w")
proof -
  obtain m where ok: "ctxs_ok w" and m: "tx_protocol (trace w) = Some m" and o: "owns (cleanups w) w m"
    using inv by (auto simp: tx_inv_def)
  have nt: "m t = None" using fr m t(1) by (simp add: fresh_transactions_def)
  have nn: "next_ctx w \<notin> set (cleanups w)" using ok by (auto simp: ctxs_ok_def)
  have "owns (next_ctx w # cleanups w) ?w (m(t \<mapsto> Opened))"
    by (rule owns_new [OF o nn nt t(2)]) (use nn in \<open>auto simp: zero_ctx_def\<close>)
  moreover have "ctxs_ok ?w" using ok by (auto simp: ctxs_ok_def less_Suc_eq)
  ultimately show ?thesis using m nt t(2) by (simp add: tx_inv_def)
qed

lemma tx_inv_unregistered:
  assumes inv: "tx_inv w" and fr: "fresh_transactions E" and t: "t = eng_new_transaction E (trace w) v s" "t \<noteq> 0"
  shows "tx_inv (upd_ctx (next_ctx w) (\<lambda>c. c\<lparr>coraza_transaction := 0\<rparr>)
      (snd (coraza_free_transaction E t
        (emit (Alloc n False) (install_ctx t (emit (New_transaction v s t) w))))))" (is "tx_inv ?w")
proof -
  obtain m where ok: "ctxs_ok w" and m: "tx_protocol (trace w) = Some m" and o: "owns (cleanups w) w m"
    using inv by (auto simp: tx_inv_def)
  have nt: "m t = None" using fr m t(1) by (simp add: fresh_transactions_def)
  have nn: "next_ctx w \<notin> set (cleanups w)" using ok by (auto simp: ctxs_ok_def)
  have restored: "(m(t \<mapsto> Opened))(t := None) = m" using nt by auto
  have "owns (cleanups w) ?w m"
    by (rule owns_same [OF o]) (use nn in \<open>auto simp: engine_call\<close>)
  moreover have "ctxs_ok ?w"
    using ok by (auto simp: ctxs_ok_def less_Suc_eq engine_call)
  moreover have "tx_protocol (trace ?w) = Some m"
    using m nt t(2) restored by (simp add: engine_call tx_call_def)
  ultimately show ?thesis by (simp add: tx_inv_def engine_call)
qed

lemma prim_tx_inv:
  assumes "prim E w w'" "fresh_transactions E" "tx_inv w"
  shows "tx_inv w'"
  using assms
proof (induction rule: prim.induct)
  case (request w g)
  then show ?case by (intro tx_inv_same [OF request.prems(2)]) (auto simp: tx_inv_def ctxs_ok_def)
next
  case (ctx w i f)
  then show ?case by (intro tx_inv_same [OF ctx.prems(2)]) (auto simp: tx_inv_def ctxs_ok_def keeps_def)
qed (auto intro: tx_inv_event tx_inv_engine tx_inv_poll tx_inv_log tx_inv_registered tx_inv_unregistered)

section \<open>Runs of a request\<close>

lemma tx_inv_request_read:
  assumes "ngx_http_coraza_request_read w = Some w'" "fresh_transactions E" "tx_inv w"
  shows "tx_inv w'"
proof -
  obtain i where i: "module_ctx w = Some i" "w' = request_read_ctx i w"
    using assms(1) by (auto simp: ngx_http_coraza_request_read_def)
  have "prims E w w'" unfolding i(2) by (rule runs_prims [OF i(1) runs_request_read_ctx])
  then show ?thesis
    using assms(3) by (induction rule: rtranclp_induct) (auto intro: prim_tx_inv [OF _ assms(2)])
qed

text \<open>One cleanup: its transaction is logged, unless it has been, and freed.\<close>

lemma cleanup_owns:
  assumes "tx_protocol (trace w) = Some m" and o: "owns (i # cs) w m"
  shows "\<exists>m'. tx_protocol (trace (ngx_http_coraza_cleanup E i w)) = Some m' \<and>
    owns cs (ngx_http_coraza_cleanup E i w) m'"
proof -
  let ?w = "ngx_http_coraza_cleanup E i w"
  let ?t = "ctx_tx w i"
  let ?m = "m(?t := None)"
  obtain p where p: "m ?t = Some p" "p = Logged \<longleftrightarrow> logged (ctxs w i)" using owns_open [OF o] by auto
  have t: "?t \<noteq> 0" using owns_nonnull [OF o] by simp
  have i: "i \<notin> set cs" using ownsD(1) [OF o] by simp
  have "tx_protocol (trace ?w) = Some ?m"
    using assms(1) p t
    by (auto simp: ngx_http_coraza_cleanup_def engine_call Let_def tx_call_def)
  moreover have same: "ctxs ?w j = ctxs w j" if "j \<in> set cs" for j
    using that i by (auto simp: ngx_http_coraza_cleanup_def engine_call Let_def)
  have other: "ctx_tx w j \<noteq> ?t" if "j \<in> set cs" for j
    using ownsD(2) [OF o] i that by (auto simp: inj_on_def)
  have "owns cs ?w ?m"
  proof (rule ownsI)
    show "distinct cs" using ownsD(1) [OF o] by simp
    show "inj_on (ctx_tx ?w) (set cs)" using ownsD(2) [OF o] by (simp add: inj_on_def same)
    show "dom ?m = ctx_tx ?w ` set cs" using ownsD(3) [OF o] other by (auto simp: same)
    show "?m 0 = None" using ownsD(4) [OF o] by simp
    show "?m (ctx_tx ?w j) = Some Logged \<longleftrightarrow> logged (ctxs ?w j)" if "j \<in> set cs" for j
      using ownsD(5) [OF o, of j] other [OF that] same [OF that] that by simp
  qed
  ultimately show ?thesis by blast
qed

lemma cleanups_own_nothing:
  assumes "tx_protocol (trace w) = Some m" "owns cs w m"
  shows "tx_protocol (trace (foldl (\<lambda>w i. ngx_http_coraza_cleanup E i w) w cs)) = Some Map.empty"
  using assms
proof (induction cs arbitrary: w m)
  case Nil
  then show ?case using ownsD(3) [of "[]" w m] by simp
next
  case (Cons i cs)
  then show ?case using cleanup_owns [OF Cons.prems, of E] by auto
qed

text \<open>While the pool lives the ownership invariant holds; afterwards nothing is open.\<close>

definition settled :: "world \<Rightarrow> bool" where
  "settled w \<longleftrightarrow> (if pool_alive w then tx_inv w else tx_protocol (trace w) = Some Map.empty)"

lemma handler_settled:
  assumes "handler h" "fresh_transactions E" "tx_inv w" "pool_alive w"
  shows "settled (snd (h E w))"
proof -
  have "tx_inv (snd (h E w)) \<and> pool_alive (snd (h E w))"
    using assms(1)
    by (rule handler.preserves) (use assms prim_tx_inv prim_frame in blast)+
  then show ?thesis by (simp add: settled_def)
qed

lemma destroy_settled: "tx_inv w \<Longrightarrow> settled (destroy_pool E w)"
  using cleanups_own_nothing by (auto simp: settled_def destroy_pool_def tx_inv_def)

lemma step_settled:
  assumes "request_step E w w'" and fr: "fresh_transactions E" and inv: "settled w"
  shows "settled w'"
  using assms
proof (cases rule: request_step.cases)
  case (body_read)
  then show ?thesis
    using inv fr tx_inv_request_read [of w w' E]
    by (auto simp: settled_def ngx_http_coraza_request_read_def request_read_ctx_def Let_def)
next
  case (enter j r c l)
  then show ?thesis
    using inv tx_inv_same [of w w'] by (auto simp: settled_def)
qed (use inv in \<open>auto simp: settled_def [of w] intro: destroy_settled
    handler_settled [OF rewrite.handler_axioms fr] handler_settled [OF pre_access.handler_axioms fr]
    handler_settled [OF header_filter.handler_axioms fr] handler_settled [OF log.handler_axioms fr]
    handler_settled [OF body_filter.handler_axioms fr, simplified]\<close>)

lemma run_settled:
  assumes "request_run E w" "fresh_transactions E"
  shows "settled w"
  using assms
proof (induction rule: request_run.induct)
  case (arrives w)
  then show ?case by (simp add: fresh_request_def settled_def tx_inv_def ctxs_ok_def owns_def)
qed (rule step_settled)

section \<open>What the protocol means for a history\<close>

definition opened :: "tx \<Rightarrow> event list \<Rightarrow> nat" where
  "opened t tr = length (filter (\<lambda>e. case e of New_transaction _ _ t' \<Rightarrow> t' = t | _ \<Rightarrow> False) tr)"

definition calls :: "tx \<Rightarrow> coraza_call \<Rightarrow> event list \<Rightarrow> nat" where
  "calls t c tr = length (filter (\<lambda>e. case e of Eng t' c' _ \<Rightarrow> t' = t \<and> c' = c | _ \<Rightarrow> False) tr)"

definition worked_on :: "tx \<Rightarrow> event list \<Rightarrow> bool" where
  "worked_on t tr \<longleftrightarrow> (\<exists>e \<in> set tr. case e of Eng t' c _ \<Rightarrow> t' = t \<and> plain c | _ \<Rightarrow> False)"

definition balanced :: "tx \<Rightarrow> event list \<Rightarrow> tx_phase option \<Rightarrow> bool" where
  "balanced t tr p \<longleftrightarrow>
     opened t tr = calls t Free_transaction tr + (if p = None then 0 else 1) \<and>
     calls t Process_logging tr \<le> calls t Free_transaction tr + (if p = Some Logged then 1 else 0) \<and>
     (p = Some Logged \<longrightarrow> 0 < calls t Process_logging tr) \<and>
     (worked_on t tr \<and> calls t Process_logging tr = 0 \<longrightarrow> p = Some Used)"

lemma count_snoc [simp]:
  "opened t [] = 0" "calls t c [] = 0" "\<not> worked_on t []"
  "opened t (tr @ [e]) = opened t tr + (case e of New_transaction _ _ t' \<Rightarrow> if t' = t then 1 else 0 | _ \<Rightarrow> 0)"
  "calls t c (tr @ [e]) = calls t c tr + (case e of Eng t' c' _ \<Rightarrow> if t' = t \<and> c' = c then 1 else 0 | _ \<Rightarrow> 0)"
  "worked_on t (tr @ [e]) \<longleftrightarrow> worked_on t tr \<or> (case e of Eng t' c _ \<Rightarrow> t' = t \<and> plain c | _ \<Rightarrow> False)"
  by (simp_all add: opened_def calls_def worked_on_def split: event.split) blast

lemma balanced_call:
  assumes "balanced t tr (Some p)" "tx_call c p = Some q"
  shows "balanced t (tr @ [Eng t c n]) q"
  using assms by (cases p) (auto simp: balanced_def tx_call_def plain_def split: if_splits)

lemma balanced_step:
  assumes "balanced t tr (m t)" "tx_step e m = Some m'" "t \<noteq> 0"
  shows "balanced t (tr @ [e]) (m' t)"
proof (cases e)
  case (Eng t' c n)
  show ?thesis
  proof (cases "t' = t")
    case True
    then show ?thesis
      using assms Eng balanced_call [of t tr _ c _ n] by (auto split: option.splits)
  next
    case False
    then have "m' t = m t" using assms(2) Eng by (auto split: if_splits option.splits)
    then show ?thesis using assms(1) Eng False by (simp add: balanced_def)
  qed
next
  case (New_transaction v s t')
  then show ?thesis using assms by (cases "t' = t") (auto simp: balanced_def split: if_splits)
qed (use assms in \<open>auto simp: balanced_def split: if_splits\<close>)

lemma protocol_balanced:
  assumes "tx_protocol tr = Some m" "t \<noteq> 0"
  shows "balanced t tr (m t)"
  using assms(1)
proof (induction tr arbitrary: m rule: rev_induct)
  case Nil
  then show ?case by (auto simp: balanced_def)
next
  case (snoc e tr)
  obtain m' where m': "tx_protocol tr = Some m'" "tx_step e m' = Some m"
    using snoc.prems by (auto simp: bind_eq_Some_conv)
  show ?case by (rule balanced_step [where m = m', OF snoc.IH [OF m'(1)] m'(2) assms(2)])
qed

section \<open>A sample run\<close>

text \<open>
  An engine whose new handles are larger than all handles of the history, and a
  GET request that passes through every phase.
\<close>

definition largest_tx :: "event list \<Rightarrow> tx" where
  "largest_tx tr = sum_list (map (\<lambda>e. case e of New_transaction _ _ t \<Rightarrow> t | _ \<Rightarrow> 0) tr)"

definition lifecycle_env :: env where
  "lifecycle_env = sample_env\<lparr>eng_new_transaction := \<lambda>tr _ _. Suc (largest_tx tr)\<rparr>"

lemma open_bounded: "tx_protocol tr = Some m \<Longrightarrow> m t \<noteq> None \<Longrightarrow> t \<le> largest_tx tr"
proof (induction tr arbitrary: m rule: rev_induct)
  case (snoc e tr)
  obtain m' where m': "tx_protocol tr = Some m'" "tx_step e m' = Some m"
    using snoc.prems by (auto simp: bind_eq_Some_conv)
  then show ?case
    using snoc.IH [OF m'(1)] snoc.prems(2)
    by (cases e) (auto simp: largest_tx_def split: if_splits option.splits)
qed (simp add: largest_tx_def)

lemma fresh_lifecycle_env: "fresh_transactions lifecycle_env"
  using open_bounded by (fastforce simp: fresh_transactions_def lifecycle_env_def)

lemmas request_run_to =
  request_run.continues [OF _ request_step.rewrite_phase] request_run.continues [OF _ request_step.log_phase]
  request_run.continues [OF _ request_step.destroy]

definition sample_served :: world where
  "sample_served = snd (ngx_http_coraza_rewrite_handler lifecycle_env sample_world)"

lemma sample_served:
  "request_run lifecycle_env sample_served" "pool_alive sample_served"
  "opened 1 (trace sample_served) = 1" "cleanups sample_served = [0]" "ctx_tx sample_served 0 = 1"
  "request_run lifecycle_env (destroy_pool lifecycle_env sample_served)"
  "opened 1 (trace (destroy_pool lifecycle_env sample_served)) = 1"
proof -
  have "fresh_request sample_world" by (simp add: fresh_request_def sample_defs)
  then show r: "request_run lifecycle_env sample_served"
    unfolding sample_served_def
    by (intro request_run_to request_run.arrives) (simp_all add: sample_defs)
  show a: "pool_alive sample_served" and c: "cleanups sample_served = [0]" "ctx_tx sample_served 0 = 1"
    and n: "opened 1 (trace sample_served) = 1"
    by (simp_all add: sample_served_def rewrite_defs lifecycle_env_def largest_tx_def sample_defs
        opened_def Let_def)
  show "request_run lifecycle_env (destroy_pool lifecycle_env sample_served)"
    by (rule request_run_to(3) [OF r a])
  show "opened 1 (trace (destroy_pool lifecycle_env sample_served)) = 1"
    using n c by (simp add: destroy_pool_def ngx_http_coraza_cleanup_def engine_call Let_def opened_def)
qed

section \<open>Properties\<close>

text \<open>
  C7: whatever order nginx runs the handlers in, with internal redirects,
  subrequests and asynchronous bodies in between, the calls of the connector
  follow the protocol of libcoraza: no transaction is used, polled or logged
  after it was freed or before it was opened, none is logged or freed twice, and
  none that was used is freed without its audit record.  While the pool lives
  the open transactions are exactly those of the contexts with a cleanup;
  afterwards none is open.
\<close>

theorem request_follows_protocol:
  assumes "request_run E w" "fresh_transactions E"
  shows "\<exists>m. tx_protocol (trace w) = Some m \<and>
    dom m = (if pool_alive w then ctx_tx w ` set (cleanups w) else {})"
  using run_settled [OF assms] by (auto simp: settled_def tx_inv_def owns_def split: if_splits)

theorem request_follows_protocol_witness:
  "\<exists>m. tx_protocol (trace sample_served) = Some m \<and> dom m = {1}"
  using request_follows_protocol [OF sample_served(1) fresh_lifecycle_env] sample_served(2,4,5) by simp

text \<open>
  C10: once the pool of a request is destroyed, every transaction opened for it
  has been freed exactly as often as it was opened, was logged at most once per
  opening, and was logged if any rule phase or data reached it.
\<close>

theorem request_settles_transactions:
  assumes "request_run E w" "fresh_transactions E" "\<not> pool_alive w" "t \<noteq> 0"
  shows "calls t Free_transaction (trace w) = opened t (trace w) \<and>
    calls t Process_logging (trace w) \<le> opened t (trace w) \<and>
    (worked_on t (trace w) \<longrightarrow> 0 < calls t Process_logging (trace w))"
proof -
  have "tx_protocol (trace w) = Some Map.empty"
    using run_settled [OF assms(1,2)] assms(3) by (simp add: settled_def)
  from protocol_balanced [OF this assms(4)] show ?thesis by (simp add: balanced_def)
qed

theorem request_settles_transactions_witness:
  "calls 1 Free_transaction (trace (destroy_pool lifecycle_env sample_served)) = 1"
  using request_settles_transactions [OF sample_served(6) fresh_lifecycle_env, of 1] sample_served(7)
  by (simp add: destroy_pool_def)

section \<open>The WAF of a request\<close>

text \<open>Opening a transaction, as opposed to the engine refusing one.\<close>

fun opens_on :: "waf \<Rightarrow> event \<Rightarrow> bool" where
  "opens_on v (New_transaction v' _ t) = (v' = v \<or> t = 0)"
| "opens_on v _ = True"

lemma opens_on_harmless: "harmless e \<Longrightarrow> opens_on v e"
  by (cases e) auto

lemma prim_opens_nothing:
  assumes "prim E w w'" "module_ctx w = Some i"
  shows "adds (opens_on v) w w'"
  using assms
  by (induction rule: prim.induct)
    (auto simp: adds_def engine_call Let_def opens_on_harmless)

lemma prims_opens_nothing:
  assumes "prims E w w'" "module_ctx w = Some i"
  shows "adds (opens_on v) w w'"
  using assms(1)
proof (induction rule: rtranclp_induct)
  case (step y z)
  then have "module_ctx y = Some i" using prims_current assms(2) by blast
  then show ?case using step adds_trans prim_opens_nothing by blast
qed (rule adds_refl)

definition request_waf :: "world \<Rightarrow> ngx_http_coraza_conf \<Rightarrow> waf" where
  "request_waf w m = (if lc_waf m \<noteq> 0 then lc_waf m else main_waf w)"

lemma create_ctx_install_opens:
  "adds (opens_on v) w w' \<Longrightarrow> adds (opens_on v) w (snd (create_ctx_install E m s t w'))"
  by (auto simp: create_ctx_install_def palloc_def Let_def coraza_wrapper_defs cgo_def adds_def)

lemma create_ctx_opens:
  "adds (opens_on (request_waf w m)) w (snd (ngx_http_coraza_create_ctx E m w))"
  by (auto simp: ngx_http_coraza_create_ctx_def palloc_def Let_def
      coraza_new_transaction_def coraza_new_transaction_with_id_def
      request_waf_def split: option.split intro!: create_ctx_install_opens adds_emit adds_refl)

lemma rewrite_opens:
  assumes "mcf w = Some m"
  shows "adds (opens_on (request_waf w m)) w (snd (ngx_http_coraza_rewrite_handler E w))"
proof -
  obtain ctx w1 where c: "ngx_http_coraza_create_ctx E m w = (ctx, w1)" by fastforce
  have w1: "adds (opens_on (request_waf w m)) w w1" using create_ctx_opens [of w m E] c by simp
  have "adds (opens_on (request_waf w m)) w1 (snd (rewrite_new_ctx E i w1))"
    if i: "ctx = Some i" "lc_enable m = 1" for i
  proof -
    note cs = create_ctx_Some [OF c [unfolded i(1)]]
    then have "prims E w1 (snd (rewrite_new_ctx E i w1))"
      using runs_rewrite_new_ctx [OF refl, of E i w1] assms i(2) by (auto simp: runs_def enabled_def)
    then show ?thesis using prims_opens_nothing cs by blast
  qed
  then show ?thesis
    using w1 assms c adds_trans [OF w1]
    by (auto simp: ngx_http_coraza_rewrite_handler_def adds_refl split: option.split)
qed

text \<open>Every registered location has the WAF of its rules, the main WAF if it has none.\<close>

lemma worker_request_waf:
  assumes "worker_ready y" "fresh_handles P" "ngx_http_coraza_init_process P y = (NGX_OK, y')"
    and "cy_main y' = Some mm" "c \<in> set (mc_loc_confs mm)"
    and "main_waf w = mc_waf mm"
  shows "es_wafs (engine (cy_trace y')) (request_waf w (cy_confs y' c)) = Some (texts (conf_rules y c))"
proof -
  obtain m v where sr: "same_rules y y'" and m: "cy_main y' = Some (m\<lparr>mc_waf := v\<rparr>)"
    and ok: "wafs_ok v (mc_loc_confs m) y'"
    using init_process_result [OF assms(2) assms(1) assms(3)] by auto
  have mm: "mm = m\<lparr>mc_waf := v\<rparr>" using m assms(4) by simp
  have cr: "conf_rules y' c = conf_rules y c" by (rule same_rules_conf [OF sr])
  note T = ok [unfolded wafs_ok_def waf_table_def]
  let ?wafs = "es_wafs (engine (cy_trace y'))"
  have c: "c \<in> set (mc_loc_confs m)" "main_waf w = v" using mm assms(5,6) by simp_all
  have rows: "\<forall>c \<in> set (mc_loc_confs m). if conf_rules y' c = []
      then lc_waf (cy_confs y' c) = 0 \<and> \<not> lc_waf_owner (cy_confs y' c)
      else ?wafs (lc_waf (cy_confs y' c)) = Some (texts (conf_rules y' c)) \<and>
        (\<exists>d \<in> set (mc_loc_confs m). lc_waf_owner (cy_confs y' d) \<and>
           lc_waf (cy_confs y' d) = lc_waf (cy_confs y' c) \<and> conf_rules y' d = conf_rules y' c)"
    using T by (elim conjE)
  have row: "if conf_rules y c = [] then lc_waf (cy_confs y' c) = 0
      else ?wafs (lc_waf (cy_confs y' c)) = Some (texts (conf_rules y c))"
    using bspec [OF rows c(1)] by (auto simp: cr split: if_splits)
  have null: "?wafs 0 = None" and main: "?wafs (main_waf w) = Some []" using T c by simp_all
  show ?thesis
  proof (cases "conf_rules y c = []")
    case False
    then have "?wafs (lc_waf (cy_confs y' c)) = Some (texts (conf_rules y c))" using row by simp
    moreover from this have "lc_waf (cy_confs y' c) \<noteq> 0" using null by (metis option.distinct(1))
    ultimately show ?thesis by (simp add: request_waf_def)
  qed (use row main in \<open>simp add: request_waf_def texts_def\<close>)
qed

text \<open>
  C11: from the configuration to the request.  In a worker that has started,
  every transaction the rewrite handler opens is opened on a live WAF that
  libcoraza compiled from exactly the rules of the request's location, in their
  order (from no rules, if it has none).
\<close>

theorem request_opens_on_its_rules:
  assumes "configured P0 y" "fresh_handles P" "ngx_http_coraza_init_process P y = (NGX_OK, y')"
    and "cy_main y' = Some mm" "c \<in> set (mc_loc_confs mm)"
    and "mcf w = Some (cy_confs y' c)" "main_waf w = mc_waf mm"
    and "trace (snd (ngx_http_coraza_rewrite_handler E w)) = trace w @ new"
    and "New_transaction v s t \<in> set new" "t \<noteq> 0"
  shows "es_wafs (engine (cy_trace y')) v = Some (texts (conf_rules y c))"
proof -
  have "adds (opens_on (request_waf w (cy_confs y' c))) w (snd (ngx_http_coraza_rewrite_handler E w))"
    by (rule rewrite_opens [OF assms(6)])
  then have "opens_on (request_waf w (cy_confs y' c)) (New_transaction v s t)"
    using assms(8,9) by (auto simp: adds_def)
  then show ?thesis using worker_request_waf [OF worker_ready [OF assms(1)] assms(2-5,7)] assms(10) by simp
qed

text \<open>A request to the location of the sample site, in a worker serving it.\<close>

definition sample_worker :: cycle where
  "sample_worker = snd (ngx_http_coraza_init_process sample_penv sample_site)"

definition site_request :: world where
  "site_request = sample_world\<lparr>mcf := Some (cy_confs sample_worker 2),
     main_waf := mc_waf (the (cy_main sample_worker))\<rparr>"

lemma sample_worker:
  "lc_enable (cy_confs sample_worker 2) = 1" "lc_transaction_id (cy_confs sample_worker 2) = Cv_Null"
  "\<exists>m. cy_main sample_worker = Some m \<and> mc_loc_confs m = [2]"
proof -
  have "lc_enable (cy_confs sample_site 2) = 1" "lc_transaction_id (cy_confs sample_site 2) = Cv_Null"
    by (simp_all add: sample_site_def ngx_http_coraza_merge_conf_def merge_rules_def inherit_flags_def
        sample_configured_def ngx_http_coraza_create_conf_def ngx_http_coraza_create_main_conf_def
        array_create_def cf_palloc_eq sample_penv_def no_cycle_def empty_conf_def Let_def
        ngx_conf_set_rules_def store_rule_def rules_scan_eval ngx_conf_merge_value_def
        ngx_conf_merge_ptr_value_def)
  moreover have "same_rules sample_site sample_worker \<and>
      (\<exists>m. cy_main sample_worker = Some m \<and> mc_loc_confs m = [2])"
    using init_process_result [OF fresh_handles_sample worker_ready [OF sample_site(1)] sample_site_starts]
    by (auto simp: sample_worker_def sample_site(3))
  ultimately show "lc_enable (cy_confs sample_worker 2) = 1"
    "lc_transaction_id (cy_confs sample_worker 2) = Cv_Null"
    "\<exists>m. cy_main sample_worker = Some m \<and> mc_loc_confs m = [2]"
    by (simp_all add: same_rules_def)
qed

lemma sample_request_opens:
  assumes "lc_enable k = 1" "lc_transaction_id k = Cv_Null"
    "v \<noteq> 0" "v = (if lc_waf k \<noteq> 0 then lc_waf k else v0)"
  shows "\<exists>new. trace (snd (ngx_http_coraza_rewrite_handler sample_env (sample_world\<lparr>mcf := Some k, main_waf := v0\<rparr>))) =
    new \<and> New_transaction v None 2 \<in> set new"
  using assms by (cases "lc_waf k = 0") (simp_all add: rewrite_defs sample_defs Let_def)

lemma site_request_opens:
  assumes "request_waf site_request (cy_confs sample_worker 2) \<noteq> 0"
  shows "\<exists>new. trace (snd (ngx_http_coraza_rewrite_handler sample_env site_request)) = trace site_request @ new \<and>
    New_transaction (request_waf site_request (cy_confs sample_worker 2)) None 2 \<in> set new"
proof -
  have "trace site_request = []" by (simp add: site_request_def sample_world_def)
  moreover have "request_waf site_request (cy_confs sample_worker 2) =
      (if lc_waf (cy_confs sample_worker 2) \<noteq> 0 then lc_waf (cy_confs sample_worker 2)
       else mc_waf (the (cy_main sample_worker)))"
    by (simp add: request_waf_def site_request_def)
  ultimately show ?thesis
    using sample_request_opens [OF sample_worker(1,2) assms] by (simp add: site_request_def)
qed

theorem request_opens_on_its_rules_witness:
  "es_wafs (engine (cy_trace sample_worker)) (request_waf site_request (cy_confs sample_worker 2)) =
     Some [(NGX_CORAZA_RULE_INLINE, [65])]"
proof -
  obtain m where m: "cy_main sample_worker = Some m" "mc_loc_confs m = [2]" using sample_worker(3) by blast
  note w = sample_site(1) fresh_handles_sample sample_site_starts [folded sample_worker_def] m(1)
  have two: "2 \<in> set (mc_loc_confs m)" by (simp add: m(2))
  have main: "main_waf site_request = mc_waf m" by (simp add: site_request_def m(1))
  have mcf: "mcf site_request = Some (cy_confs sample_worker 2)" by (simp add: site_request_def)
  have "request_waf site_request (cy_confs sample_worker 2) \<noteq> 0"
    using worker_request_waf [OF worker_ready [OF w(1)] w(2-4) two main] engine_null by (metis option.distinct(1))
  then obtain new where "trace (snd (ngx_http_coraza_rewrite_handler sample_env site_request)) = trace site_request @ new"
    "New_transaction (request_waf site_request (cy_confs sample_worker 2)) None 2 \<in> set new"
    using site_request_opens by blast
  from request_opens_on_its_rules [OF w two mcf main this] show ?thesis
    by (simp add: sample_site(4) texts_def rule_cstring_def c_string_def)
qed

section \<open>A registration that fails\<close>

text \<open>
  C39: when the cleanup of a new transaction cannot be registered, the
  transaction is freed and the request gets a 500, but the context stays
  installed with the null handle.  The log phase then finds it and calls the
  engine with that null handle, which a context is never meant to carry.
\<close>

theorem failed_registration_leaves_null_handle:
  assumes "mcf w = Some m" "lc_enable m = 1" "lc_waf m \<noteq> 0" "lc_transaction_id m = Cv_Null"
    and "module_ctx w = None"
    and "\<And>tr n. alloc_ok E tr n \<longleftrightarrow> n \<noteq> SIZEOF_CLEANUP"
    and "\<And>tr v s. eng_new_transaction E tr v s \<noteq> 0"
  shows "\<exists>i w'. ngx_http_coraza_rewrite_handler E w = (NGX_HTTP_INTERNAL_SERVER_ERROR, w') \<and>
    module_ctx w' = Some i \<and> ctx_tx w' i = 0 \<and> cleanups w' = cleanups w \<and>
    (\<exists>n. trace (snd (ngx_http_coraza_log_handler E w')) = trace w' @ [Eng 0 Process_logging n])"
  using assms
  by (auto simp: ngx_http_coraza_rewrite_handler_def ngx_http_coraza_create_ctx_def create_ctx_install_def
      palloc_def coraza_new_transaction_def has_transaction_id_def coraza_wrapper_defs cgo_def Let_def
      ngx_http_coraza_log_handler_def zero_ctx_def)

theorem failed_registration_leaves_null_handle_witness:
  "\<exists>n w'. trace (snd (ngx_http_coraza_log_handler (sample_env\<lparr>alloc_ok := \<lambda>_ n. n \<noteq> SIZEOF_CLEANUP\<rparr>) w')) =
     trace w' @ [Eng 0 Process_logging n]"
proof -
  let ?E = "sample_env\<lparr>alloc_ok := \<lambda>_ n. n \<noteq> SIZEOF_CLEANUP\<rparr>"
  have "\<exists>i w'. ngx_http_coraza_rewrite_handler ?E sample_world = (NGX_HTTP_INTERNAL_SERVER_ERROR, w') \<and>
    module_ctx w' = Some i \<and> ctx_tx w' i = 0 \<and> cleanups w' = cleanups sample_world \<and>
    (\<exists>n. trace (snd (ngx_http_coraza_log_handler ?E w')) = trace w' @ [Eng 0 Process_logging n])"
    by (rule failed_registration_leaves_null_handle [of sample_world sample_conf]) (simp_all add: sample_defs)
  then show ?thesis by blast
qed

end
