(* ===== verification/Site.thy ===== *)
theory Site
  imports Lifecycle
begin

unbundle bit_operations_syntax

text \<open>
  The tables through which nginx drives the module
  (\<open>src/src/ngx_http_coraza_module.c\<close>): the directives with their contexts and
  handlers, the callbacks of the configuration phase, and the callbacks of a
  worker.  The calls nginx makes while it reads a site are a list of operations
  dispatched through these tables, followed by the merge of the tree of blocks.
  The theorems give the settings every block of a site ends up with and follow its
  rules from the directives in the file to the WAF on which a request is inspected.
\<close>

section \<open>The table of directives\<close>

abbreviation (input) NGX_CONF_TAKE1 :: "32 word" where "NGX_CONF_TAKE1 \<equiv> 0x2"
abbreviation (input) NGX_CONF_FLAG :: "32 word" where "NGX_CONF_FLAG \<equiv> 0x200"
abbreviation (input) NGX_HTTP_MAIN_CONF :: "32 word" where "NGX_HTTP_MAIN_CONF \<equiv> 0x02000000"
abbreviation (input) NGX_HTTP_SRV_CONF :: "32 word" where "NGX_HTTP_SRV_CONF \<equiv> 0x04000000"
abbreviation (input) NGX_HTTP_LOC_CONF :: "32 word" where "NGX_HTTP_LOC_CONF \<equiv> 0x08000000"

text \<open>The fields a flag can be stored in (\<open>offsetof (ngx_http_coraza_conf_t, ...)\<close>).\<close>

datatype flag_field = Field_enable | Field_delay_response_headers

datatype conf_level = Main_conf_offset | Srv_conf_offset | Loc_conf_offset

datatype cmd_handler =
    Conf_set_flag_slot flag_field
  | Conf_set_rules
  | Conf_set_rules_file
  | Conf_set_transaction_id

record ngx_command =
  cmd_name :: ngx_str
  cmd_type :: "32 word"
  cmd_set :: cmd_handler
  cmd_conf :: conf_level

definition ngx_http_coraza_commands :: "ngx_command list" where
  "ngx_http_coraza_commands =
     [\<lparr>cmd_name = ngx_string ''coraza'',
       cmd_type = NGX_HTTP_LOC_CONF OR NGX_HTTP_SRV_CONF OR NGX_HTTP_MAIN_CONF OR NGX_CONF_FLAG,
       cmd_set = Conf_set_flag_slot Field_enable, cmd_conf = Loc_conf_offset\<rparr>,
      \<lparr>cmd_name = ngx_string ''coraza_rules'',
       cmd_type = NGX_HTTP_LOC_CONF OR NGX_HTTP_SRV_CONF OR NGX_HTTP_MAIN_CONF OR NGX_CONF_TAKE1,
       cmd_set = Conf_set_rules, cmd_conf = Loc_conf_offset\<rparr>,
      \<lparr>cmd_name = ngx_string ''coraza_rules_file'',
       cmd_type = NGX_HTTP_LOC_CONF OR NGX_HTTP_SRV_CONF OR NGX_HTTP_MAIN_CONF OR NGX_CONF_TAKE1,
       cmd_set = Conf_set_rules_file, cmd_conf = Loc_conf_offset\<rparr>,
      \<lparr>cmd_name = ngx_string ''coraza_transaction_id'',
       cmd_type = NGX_HTTP_LOC_CONF OR NGX_HTTP_SRV_CONF OR NGX_HTTP_MAIN_CONF OR NGX_CONF_TAKE1,
       cmd_set = Conf_set_transaction_id, cmd_conf = Loc_conf_offset\<rparr>,
      \<lparr>cmd_name = ngx_string ''coraza_delay_response_headers'',
       cmd_type = NGX_HTTP_LOC_CONF OR NGX_HTTP_SRV_CONF OR NGX_HTTP_MAIN_CONF OR NGX_CONF_FLAG,
       cmd_set = Conf_set_flag_slot Field_delay_response_headers, cmd_conf = Loc_conf_offset\<rparr>]"

section \<open>The callbacks of the module\<close>

text \<open>\<open>NULL\<close> entries are \<open>None\<close>.\<close>

record ngx_http_module =
  hm_preconfiguration :: "(penv \<Rightarrow> cycle \<Rightarrow> int \<times> cycle) option"
  hm_postconfiguration :: "(penv \<Rightarrow> bool \<Rightarrow> registration \<Rightarrow> cycle \<Rightarrow> (int \<times> registration) \<times> cycle) option"
  hm_create_main_conf :: "(penv \<Rightarrow> cycle \<Rightarrow> bool \<times> cycle) option"
  hm_init_main_conf :: "(cycle \<Rightarrow> conf_rc \<times> cycle) option"
  hm_create_srv_conf :: "(penv \<Rightarrow> cycle \<Rightarrow> nat option \<times> cycle) option"
  hm_merge_srv_conf :: "(penv \<Rightarrow> nat \<Rightarrow> nat \<Rightarrow> cycle \<Rightarrow> conf_rc \<times> cycle) option"
  hm_create_loc_conf :: "(penv \<Rightarrow> cycle \<Rightarrow> nat option \<times> cycle) option"
  hm_merge_loc_conf :: "(penv \<Rightarrow> nat \<Rightarrow> nat \<Rightarrow> cycle \<Rightarrow> conf_rc \<times> cycle) option"

definition ngx_http_coraza_module_ctx :: ngx_http_module where
  "ngx_http_coraza_module_ctx = \<lparr>
     hm_preconfiguration = None,
     hm_postconfiguration = Some ngx_http_coraza_init,
     hm_create_main_conf = Some ngx_http_coraza_create_main_conf,
     hm_init_main_conf = Some ngx_http_coraza_init_main_conf,
     hm_create_srv_conf = None,
     hm_merge_srv_conf = None,
     hm_create_loc_conf = Some ngx_http_coraza_create_conf,
     hm_merge_loc_conf = Some ngx_http_coraza_merge_conf\<rparr>"

record ngx_module =
  m_ctx :: ngx_http_module
  m_commands :: "ngx_command list"
  m_init_master :: "(cycle \<Rightarrow> cycle) option"
  m_init_module :: "(cycle \<Rightarrow> int \<times> cycle) option"
  m_init_process :: "(penv \<Rightarrow> cycle \<Rightarrow> int \<times> cycle) option"
  m_exit_process :: "(cycle \<Rightarrow> cycle) option"
  m_exit_master :: "(cycle \<Rightarrow> cycle) option"

definition ngx_http_coraza_module :: ngx_module where
  "ngx_http_coraza_module = \<lparr>
     m_ctx = ngx_http_coraza_module_ctx,
     m_commands = ngx_http_coraza_commands,
     m_init_master = None,
     m_init_module = None,
     m_init_process = Some ngx_http_coraza_init_process,
     m_exit_process = Some ngx_http_coraza_exit_process,
     m_exit_master = None\<rparr>"

section \<open>Dispatch\<close>

text \<open>nginx calls the entries that are not NULL.\<close>

definition create_main :: "penv \<Rightarrow> cycle \<Rightarrow> bool \<times> cycle" where
  "create_main P y =
     (case hm_create_main_conf (m_ctx ngx_http_coraza_module) of
        None \<Rightarrow> (True, y) | Some f \<Rightarrow> f P y)"

definition create_loc :: "penv \<Rightarrow> cycle \<Rightarrow> nat option \<times> cycle" where
  "create_loc P y =
     (case hm_create_loc_conf (m_ctx ngx_http_coraza_module) of
        None \<Rightarrow> (None, y) | Some f \<Rightarrow> f P y)"

definition merge_loc :: "penv \<Rightarrow> nat \<Rightarrow> nat \<Rightarrow> cycle \<Rightarrow> conf_rc \<times> cycle" where
  "merge_loc P p c y =
     (case hm_merge_loc_conf (m_ctx ngx_http_coraza_module) of
        None \<Rightarrow> (NGX_CONF_OK, y) | Some f \<Rightarrow> f P p c y)"

definition start_worker :: "penv \<Rightarrow> cycle \<Rightarrow> int \<times> cycle" where
  "start_worker P y =
     (case m_init_process ngx_http_coraza_module of
        None \<Rightarrow> (NGX_OK, y) | Some f \<Rightarrow> f P y)"

definition end_worker :: "cycle \<Rightarrow> cycle" where
  "end_worker y =
     (case m_exit_process ngx_http_coraza_module of None \<Rightarrow> y | Some f \<Rightarrow> f y)"

lemmas module_defs = ngx_http_coraza_module_def ngx_http_coraza_module_ctx_def

lemma callbacks:
  "create_main = ngx_http_coraza_create_main_conf"
  "create_loc = ngx_http_coraza_create_conf"
  "merge_loc = ngx_http_coraza_merge_conf"
  "start_worker = ngx_http_coraza_init_process"
  "end_worker = ngx_http_coraza_exit_process"
  by (simp_all add: fun_eq_iff module_defs create_main_def create_loc_def merge_loc_def
      start_worker_def end_worker_def)

text \<open>
  The flag handler the table names is nginx's own: a flag that is already set is
  a duplicate, \<open>on\<close> and \<open>off\<close> (in any case) are the values, anything else is an
  error.
\<close>

definition flag_value :: "ngx_str \<Rightarrow> int option" where
  "flag_value v =
     (if map ngx_tolower v = ngx_string ''on'' then Some 1
      else if map ngx_tolower v = ngx_string ''off'' then Some 0 else None)"

fun flag_of :: "flag_field \<Rightarrow> ngx_http_coraza_conf \<Rightarrow> int" where
  "flag_of Field_enable k = lc_enable k"
| "flag_of Field_delay_response_headers k = lc_delay_response_headers k"

fun set_flag :: "flag_field \<Rightarrow> int \<Rightarrow> ngx_http_coraza_conf \<Rightarrow> ngx_http_coraza_conf" where
  "set_flag Field_enable b k = k\<lparr>lc_enable := b\<rparr>"
| "set_flag Field_delay_response_headers b k = k\<lparr>lc_delay_response_headers := b\<rparr>"

text \<open>
  One directive with its argument, in the block with configuration \<open>c\<close>.  \<open>None\<close>
  is a rules file whose reads never end.
\<close>

fun call_set :: "penv \<Rightarrow> cmd_handler \<Rightarrow> ngx_str \<Rightarrow> nat \<Rightarrow> cycle \<Rightarrow> (conf_rc \<times> cycle) option" where
  "call_set P (Conf_set_flag_slot f) v c y =
     Some (if flag_of f (cy_confs y c) \<noteq> NGX_CONF_UNSET then (NGX_CONF_ERROR, y)
           else case flag_value v of
                  None \<Rightarrow> (NGX_CONF_ERROR, y)
                | Some b \<Rightarrow> (NGX_CONF_OK, upd_conf c (set_flag f b) y))"
| "call_set P Conf_set_rules v c y = Some (ngx_conf_set_rules P v c y)"
| "call_set P Conf_set_rules_file v c y = ngx_conf_set_rules_file P v c y"
| "call_set P Conf_set_transaction_id v c y = Some (ngx_conf_set_transaction_id P v c y)"

definition run_directive ::
  "penv \<Rightarrow> ngx_str \<Rightarrow> ngx_str \<Rightarrow> nat \<Rightarrow> cycle \<Rightarrow> (conf_rc \<times> cycle) option" where
  "run_directive P name v c y =
     (case find (\<lambda>cmd. cmd_name cmd = name) (m_commands ngx_http_coraza_module) of
        None \<Rightarrow> Some (NGX_CONF_ERROR, y)
      | Some cmd \<Rightarrow> call_set P (cmd_set cmd) v c y)"

text \<open>
  What nginx does with the module while it reads the file: a block is entered,
  which creates its configuration, or a directive of the module is met in a block
  already entered.  The result is \<open>None\<close> when the configuration is given up.
\<close>

datatype conf_op = Enter_block | Directive nat ngx_str ngx_str

fun run_op :: "penv \<Rightarrow> conf_op \<Rightarrow> cycle \<Rightarrow> cycle option" where
  "run_op P Enter_block y =
     (case create_loc P y of
        (None, _) \<Rightarrow> None
      | (Some c, y) \<Rightarrow> Some (y\<lparr>cy_http := (if cy_http y = None then Some c else cy_http y)\<rparr>))"
| "run_op P (Directive c name v) y =
     (if 1 \<le> c \<and> c \<le> cy_next_conf y then
        (case run_directive P name v c y of
           Some (NGX_CONF_OK, y') \<Rightarrow> Some y'
         | _ \<Rightarrow> None)
      else None)"

fun run_ops :: "penv \<Rightarrow> conf_op list \<Rightarrow> cycle \<Rightarrow> cycle option" where
  "run_ops P [] y = Some y"
| "run_ops P (x # xs) y = (case run_op P x y of None \<Rightarrow> None | Some y' \<Rightarrow> run_ops P xs y')"

text \<open>
  The blocks with their configurations, merged each with the one around it before
  the blocks inside it.
\<close>

datatype block = Block nat "block list"

fun merge_blocks :: "penv \<Rightarrow> nat \<Rightarrow> block list \<Rightarrow> cycle \<Rightarrow> conf_rc \<times> cycle" where
  "merge_blocks P p [] y = (NGX_CONF_OK, y)"
| "merge_blocks P p (Block c inner # bs) y =
     (case merge_loc P p c y of
        (NGX_CONF_ERROR, y) \<Rightarrow> (NGX_CONF_ERROR, y)
      | (NGX_CONF_OK, y) \<Rightarrow>
          (case merge_blocks P c inner y of
             (NGX_CONF_ERROR, y) \<Rightarrow> (NGX_CONF_ERROR, y)
           | (NGX_CONF_OK, y) \<Rightarrow> merge_blocks P p bs y))"

section \<open>What is written in a site\<close>

text \<open>
  The settings of a block the module works with, and what the operations write
  into the block with configuration \<open>c\<close>, in the order of the file.  \<open>full\<close> is how
  nginx resolves a path.
\<close>

record block_conf =
  bc_rules :: "ngx_http_coraza_rule_entry list"
  bc_enable :: int
  bc_delay :: int

definition conf_of :: "cycle \<Rightarrow> nat \<Rightarrow> block_conf" where
  "conf_of y c = \<lparr>bc_rules = conf_rules y c, bc_enable = lc_enable (cy_confs y c),
     bc_delay = lc_delay_response_headers (cy_confs y c)\<rparr>"

definition unset_conf :: block_conf where
  "unset_conf = \<lparr>bc_rules = [], bc_enable = NGX_CONF_UNSET, bc_delay = NGX_CONF_UNSET\<rparr>"

fun write_op :: "(ngx_str \<Rightarrow> ngx_str) \<Rightarrow> nat \<Rightarrow> conf_op \<Rightarrow> block_conf \<Rightarrow> block_conf" where
  "write_op full c Enter_block k = k"
| "write_op full c (Directive d name v) k =
     (if d \<noteq> c then k
      else if name = ngx_string ''coraza_rules''
      then k\<lparr>bc_rules := bc_rules k @ [\<lparr>re_type = NGX_CORAZA_RULE_INLINE, re_value = v\<rparr>]\<rparr>
      else if name = ngx_string ''coraza_rules_file''
      then k\<lparr>bc_rules := bc_rules k @ [\<lparr>re_type = NGX_CORAZA_RULE_FILE, re_value = full v\<rparr>]\<rparr>
      else if name = ngx_string ''coraza'' then k\<lparr>bc_enable := the (flag_value v)\<rparr>
      else if name = ngx_string ''coraza_delay_response_headers'' then k\<lparr>bc_delay := the (flag_value v)\<rparr>
      else k)"

lemma write_directive:
  "write_op full c (Directive d (ngx_string ''coraza_rules'') v) k =
     (if c = d then k\<lparr>bc_rules := bc_rules k @ [\<lparr>re_type = NGX_CORAZA_RULE_INLINE, re_value = v\<rparr>]\<rparr> else k)"
  "write_op full c (Directive d (ngx_string ''coraza_rules_file'') v) k =
     (if c = d then k\<lparr>bc_rules := bc_rules k @ [\<lparr>re_type = NGX_CORAZA_RULE_FILE, re_value = full v\<rparr>]\<rparr> else k)"
  "write_op full c (Directive d (ngx_string ''coraza'') v) k =
     (if c = d then k\<lparr>bc_enable := the (flag_value v)\<rparr> else k)"
  "write_op full c (Directive d (ngx_string ''coraza_delay_response_headers'') v) k =
     (if c = d then k\<lparr>bc_delay := the (flag_value v)\<rparr> else k)"
  "write_op full c (Directive d (ngx_string ''coraza_transaction_id'') v) k = k"
  by (simp_all add: ngx_string_def)

declare write_op.simps(2) [simp del]

definition written :: "(ngx_str \<Rightarrow> ngx_str) \<Rightarrow> conf_op list \<Rightarrow> nat \<Rightarrow> block_conf" where
  "written full ops c = fold (write_op full c) ops unset_conf"

text \<open>What a block has of the blocks around it; \<open>R\<close> is what is written in each.\<close>

definition inherit :: "block_conf \<Rightarrow> block_conf \<Rightarrow> block_conf" where
  "inherit p k = \<lparr>bc_rules = bc_rules p @ bc_rules k,
     bc_enable = ngx_conf_merge_value (bc_enable k) (bc_enable p) 0,
     bc_delay = ngx_conf_merge_value (bc_delay k) (bc_delay p) 1\<rparr>"

fun path_conf :: "(nat \<Rightarrow> block_conf) \<Rightarrow> nat list \<Rightarrow> block_conf" where
  "path_conf R [] = unset_conf"
| "path_conf R (c # cs) = foldl (\<lambda>p d. inherit p (R d)) (R c) cs"

lemma path_conf_snoc: "up \<noteq> [] \<Longrightarrow> path_conf R (up @ [c]) = inherit (path_conf R up) (R c)"
  by (cases up) simp_all

lemma path_conf_rules: "bc_rules (path_conf R path) = concat (map (\<lambda>d. bc_rules (R d)) path)"
proof -
  have "bc_rules (foldl (\<lambda>p d. inherit p (R d)) k cs) = bc_rules k @ concat (map (\<lambda>d. bc_rules (R d)) cs)"
    for k cs by (induction cs arbitrary: k) (simp_all add: inherit_def)
  then show ?thesis by (cases path) (simp_all add: unset_conf_def)
qed

text \<open>
  The value of a switch at the end of a path: the innermost block that sets it
  decides, \<open>v\<close> is what holds outside.
\<close>

fun inherited :: "int \<Rightarrow> int list \<Rightarrow> int" where
  "inherited v [] = v"
| "inherited v (x # xs) = inherited (if x = NGX_CONF_UNSET then v else x) xs"

lemma path_conf_switches:
  assumes "cs \<noteq> []"
  shows "bc_enable (path_conf R (c # cs)) = inherited 0 (map (\<lambda>d. bc_enable (R d)) (c # cs))"
    and "bc_delay (path_conf R (c # cs)) = inherited 1 (map (\<lambda>d. bc_delay (R d)) (c # cs))"
proof -
  have "bc_enable (foldl (\<lambda>p d. inherit p (R d)) k cs) =
      (if cs = [] then bc_enable k else inherited 0 (bc_enable k # map (\<lambda>d. bc_enable (R d)) cs))"
    for k cs by (induction cs arbitrary: k) (auto simp: inherit_def ngx_conf_merge_value_def)
  then show "bc_enable (path_conf R (c # cs)) = inherited 0 (map (\<lambda>d. bc_enable (R d)) (c # cs))"
    using assms by simp
  have "bc_delay (foldl (\<lambda>p d. inherit p (R d)) k cs) =
      (if cs = [] then bc_delay k else inherited 1 (bc_delay k # map (\<lambda>d. bc_delay (R d)) cs))"
    for k cs by (induction cs arbitrary: k) (auto simp: inherit_def ngx_conf_merge_value_def)
  then show "bc_delay (path_conf R (c # cs)) = inherited 1 (map (\<lambda>d. bc_delay (R d)) (c # cs))"
    using assms by simp
qed

text \<open>The blocks around a block, outermost first, and the block itself.\<close>

fun block_paths :: "nat list \<Rightarrow> block list \<Rightarrow> (nat \<times> nat list) list" where
  "block_paths up [] = []"
| "block_paths up (Block c inner # bs) =
     (c, up @ [c]) # block_paths (up @ [c]) inner @ block_paths up bs"

definition block_confs :: "block list \<Rightarrow> nat list" where
  "block_confs bs = map fst (block_paths [] bs)"

lemma map_fst_block_paths: "map fst (block_paths up bs) = map fst (block_paths up' bs)"
proof (induction up bs arbitrary: up' rule: block_paths.induct)
  case (2 up c inner bs)
  then show ?case by (metis (no_types) block_paths.simps(2) fst_conv list.simps(9) map_append)
qed simp

lemma block_confs_simps [simp]:
  "block_confs [] = []"
  "block_confs (Block c inner # bs) = c # block_confs inner @ block_confs bs"
  using map_fst_block_paths [of "[c]" inner "[]"] by (simp_all add: block_confs_def)

section \<open>Reading the file\<close>

text \<open>
  Until blocks are merged no two of them share an array.
\<close>

definition own_arrays :: "cycle \<Rightarrow> bool" where
  "own_arrays y \<longleftrightarrow> inj_on (\<lambda>c. lc_rules (cy_confs y c)) {1..cy_next_conf y} \<and>
     (\<forall>c \<in> {1..cy_next_conf y}. lc_rules (cy_confs y c) \<le> cy_next_array y)"

text \<open>A directive as a step of the configuration, with its effect on the settings.\<close>

definition writes :: "(ngx_str \<Rightarrow> ngx_str) \<Rightarrow> conf_op \<Rightarrow> cycle \<Rightarrow> cycle \<Rightarrow> bool" where
  "writes full x y y' \<longleftrightarrow>
     own_arrays y' \<and> cy_next_conf y' = cy_next_conf y + of_bool (x = Enter_block) \<and>
     (\<forall>c. 1 \<le> c \<longrightarrow> c \<le> cy_next_conf y' \<longrightarrow>
        conf_of y' c = write_op full c x (if c \<le> cy_next_conf y then conf_of y c else unset_conf)) \<and>
     (\<forall>m. cy_main y = Some m \<longrightarrow> (\<exists>m'. cy_main y' = Some m' \<and> mc_loc_confs m' = mc_loc_confs m))"

lemma rule_stored_writes:
  assumes "rule_stored d e y y'" "own_arrays y" "1 \<le> d" "d \<le> cy_next_conf y"
    and "\<And>c k. write_op full c x k = (if c = d then k\<lparr>bc_rules := bc_rules k @ [e]\<rparr> else k)"
    and "x \<noteq> Enter_block"
  shows "writes full x y y'"
proof -
  note S = assms(1) [unfolded rule_stored_def]
  have lr: "lc_rules (cy_confs y' c) = lc_rules (cy_confs y c)" for c using S by simp
  have "conf_of y' c = write_op full c x (conf_of y c)" if "1 \<le> c" "c \<le> cy_next_conf y" for c
  proof (cases "c = d")
    case False
    then have "lc_rules (cy_confs y c) \<noteq> lc_rules (cy_confs y d)"
      using assms(2-4) that inj_onD [of "\<lambda>c. lc_rules (cy_confs y c)" "{1..cy_next_conf y}" c d]
      by (auto simp: own_arrays_def)
    then show ?thesis using S False assms(5) by (simp add: conf_of_def conf_rules_def)
  qed (use S assms(5) in \<open>simp add: conf_of_def conf_rules_def\<close>)
  moreover have "own_arrays y'" using assms(2) S unfolding own_arrays_def lr by simp
  moreover have "\<exists>m'. cy_main y' = Some m' \<and> mc_loc_confs m' = mc_loc_confs m" if "cy_main y = Some m" for m
    using S that by (cases "re_type e") auto
  ultimately show ?thesis using S assms(6) by (simp add: writes_def)
qed

lemma flags_write:
  assumes "own_arrays y" and "same_conf y y0" and "\<And>k. lc_rules (f k) = lc_rules k"
    and "\<And>c. write_op full c x (conf_of y c) = conf_of (upd_conf d f y) c" "x \<noteq> Enter_block"
  shows "writes full x y (upd_conf d f y0)"
proof -
  have lr: "lc_rules (cy_confs (upd_conf d f y0) c) = lc_rules (cy_confs y c)" for c
    using assms(2,3) by (simp add: same_conf_def)
  have "conf_of (upd_conf d f y0) c = conf_of (upd_conf d f y) c" for c
    using assms(2) by (simp add: conf_of_def conf_rules_def same_conf_def)
  then show ?thesis
    using assms(1,2,4,5) unfolding writes_def own_arrays_def lr by (simp add: same_conf_def)
qed

lemma set_rules_file_full:
  assumes "ngx_conf_set_rules_file P v c y = Some (NGX_CONF_OK, y')"
    and "\<And>tr v. conf_full_name P tr v = Some (full v)"
  shows "rule_stored c \<lparr>re_type = NGX_CORAZA_RULE_FILE, re_value = full v\<rparr> y y'"
proof -
  obtain f y0 y1 where k: "ngx_http_coraza_check_rules_file P v y = Some ((NGX_CONF_OK, f), y0)"
    and st: "store_rule P NGX_CORAZA_RULE_FILE f c y0 = (NGX_CONF_OK, y1)"
    and y': "y' = upd_main (\<lambda>m. m\<lparr>mc_rules_file := mc_rules_file m + 1\<rparr>) y1"
    using assms(1)
    by (auto simp: ngx_conf_set_rules_file_def split: option.splits prod.splits conf_rc.splits)
  have "f = full v"
    using k assms(2)
    by (auto simp: ngx_http_coraza_check_rules_file_def Let_def split: if_splits option.splits)
  then show ?thesis using rule_stored_file [OF st check_rules_file_same [OF k]] y' by simp
qed

lemma command_of:
  assumes "find (\<lambda>cmd. cmd_name cmd = name) (m_commands ngx_http_coraza_module) = Some cmd"
  obtains (enable) "cmd_set cmd = Conf_set_flag_slot Field_enable" "name = ngx_string ''coraza''"
  | (rules) "cmd_set cmd = Conf_set_rules" "name = ngx_string ''coraza_rules''"
  | (rules_file) "cmd_set cmd = Conf_set_rules_file" "name = ngx_string ''coraza_rules_file''"
  | (transaction_id) "cmd_set cmd = Conf_set_transaction_id" "name = ngx_string ''coraza_transaction_id''"
  | (delay) "cmd_set cmd = Conf_set_flag_slot Field_delay_response_headers"
      "name = ngx_string ''coraza_delay_response_headers''"
  using assms
  by (auto simp: module_defs ngx_http_coraza_commands_def split: if_splits)

text \<open>The names of the table are pairwise different.\<close>

lemma directive_names:
  "distinct (map cmd_name ngx_http_coraza_commands)"
  by (simp add: ngx_http_coraza_commands_def ngx_string_def)

lemma create_writes:
  assumes "ngx_http_coraza_create_conf P y = (Some c, y')" "own_arrays y"
  shows "writes full Enter_block y (y'\<lparr>cy_http := h\<rparr>)"
proof -
  let ?a = "Suc (cy_next_array y)"
  have y': "c = Suc (cy_next_conf y)" "cy_confs y' = (cy_confs y)(c := empty_conf ?a)"
    "cy_arrays y' = (cy_arrays y)(?a := [])" "cy_next_conf y' = c" "cy_next_array y' = ?a"
    "cy_main y' = cy_main y"
    using assms(1)
    by (auto simp: ngx_http_coraza_create_conf_def array_create_def cf_palloc_eq empty_conf_def Let_def
        split: if_splits)
  have le: "lc_rules (cy_confs y d) \<le> cy_next_array y" if "1 \<le> d" "d \<le> cy_next_conf y" for d
    using assms(2) that by (simp add: own_arrays_def)
  have "inj_on (\<lambda>d. lc_rules (cy_confs y' d)) {1..c}"
  proof (rule inj_onI)
    fix d e
    assume de: "d \<in> {1..c}" "e \<in> {1..c}" "lc_rules (cy_confs y' d) = lc_rules (cy_confs y' e)"
    have old: "x \<in> {1..cy_next_conf y} \<and> lc_rules (cy_confs y x) < ?a" if "x \<in> {1..c}" "x \<noteq> c" for x
      using le [of x] that by (auto simp: y'(1))
    show "d = e"
      using assms(2) de old [of d] old [of e]
      by (cases "d = c"; cases "e = c") (auto simp: own_arrays_def y'(2) empty_conf_def dest: inj_onD)
  qed
  moreover have "lc_rules (cy_confs y' d) \<le> ?a" if "1 \<le> d" "d \<le> c" for d
    using le [of d] that by (auto simp: y' empty_conf_def)
  ultimately have "own_arrays (y'\<lparr>cy_http := h\<rparr>)" by (simp add: own_arrays_def y')
  moreover have "conf_of (y'\<lparr>cy_http := h\<rparr>) d = (if d \<le> cy_next_conf y then conf_of y d else unset_conf)"
    if "1 \<le> d" "d \<le> c" for d
    using le [of d] that by (auto simp: conf_of_def unset_conf_def conf_rules_def y' empty_conf_def)
  ultimately show ?thesis by (simp add: writes_def y')
qed

text \<open>Every operation is a step of the configuration and writes what the file says.\<close>

lemma run_op_step:
  assumes run: "run_op P x y = Some y'" and own: "own_arrays y"
    and full: "\<And>tr v. conf_full_name P tr v = Some (full v)"
  shows "config_step P y y' \<and> writes full x y y'"
proof (cases x)
  case Enter_block
  then obtain c z where "ngx_http_coraza_create_conf P y = (Some c, z)"
    "y' = z\<lparr>cy_http := (if cy_http z = None then Some c else cy_http z)\<rparr>"
    using run by (auto simp: callbacks split: prod.splits option.splits)
  then show ?thesis using Enter_block create_writes [OF _ own] config_step.create by simp
next
  case (Directive c name v)
  then have c: "1 \<le> c" "c \<le> cy_next_conf y"
    and r: "run_directive P name v c y = Some (NGX_CONF_OK, y')"
    using run by (auto split: if_splits option.splits prod.splits conf_rc.splits)
  then obtain cmd where
    f: "find (\<lambda>cmd. cmd_name cmd = name) (m_commands ngx_http_coraza_module) = Some cmd"
    and s: "call_set P (cmd_set cmd) v c y = Some (NGX_CONF_OK, y')"
    by (auto simp: run_directive_def split: option.splits)
  from f show ?thesis
  proof (cases rule: command_of)
    case enable
    then obtain b where b: "flag_value v = Some b" "y' = upd_conf c (set_flag Field_enable b) y"
      and u: "lc_enable (cy_confs y c) = NGX_CONF_UNSET"
      using s by (auto split: if_splits option.splits)
    then obtain t where t: "b = of_bool t"
      by (metis flag_value_def of_bool_eq option.inject option.distinct(1))
    have "set_flag Field_enable b = (\<lambda>k. k\<lparr>lc_enable := of_bool t\<rparr>)" by (simp add: fun_eq_iff t)
    then have "config_step P y y'" using config_step.enable [OF c u, of P t] b(2) by simp
    moreover have "writes full x y y'"
      unfolding b(2) by (rule flags_write [OF own same_conf_refl])
        (simp_all add: Directive enable(2) write_directive conf_of_def conf_rules_def b(1) upd_conf_def)
    ultimately show ?thesis ..
  next
    case rules
    then have "ngx_conf_set_rules P v c y = (NGX_CONF_OK, y')" using s by simp
    then show ?thesis
      using config_step.rules [OF c] rule_stored_writes [OF set_rules_ok own c, of P v y' full x]
        Directive rules(2) by (simp add: write_directive)
  next
    case rules_file
    then have sf: "ngx_conf_set_rules_file P v c y = Some (NGX_CONF_OK, y')" using s by simp
    show ?thesis
      using config_step.rules_file [OF c sf]
        rule_stored_writes [OF set_rules_file_full [OF sf full] own c, of full x]
        Directive rules_file(2) by (simp add: write_directive)
  next
    case transaction_id
    then have t: "ngx_conf_set_transaction_id P v c y = (NGX_CONF_OK, y')" using s by simp
    then obtain y0 k where k: "same_conf y y0" "y' = upd_conf c (\<lambda>l. l\<lparr>lc_transaction_id := Cv k\<rparr>) y0"
      using set_transaction_id_ok by blast
    have "writes full x y y'"
      unfolding k(2) by (rule flags_write [OF own k(1)])
        (simp_all add: Directive transaction_id(2) write_directive conf_of_def conf_rules_def upd_conf_def)
    with config_step.transaction_id [OF c t] show ?thesis ..
  next
    case delay
    then obtain b where b: "flag_value v = Some b" "y' = upd_conf c (set_flag Field_delay_response_headers b) y"
      and u: "lc_delay_response_headers (cy_confs y c) = NGX_CONF_UNSET"
      using s by (auto split: if_splits option.splits)
    then obtain t where t: "b = of_bool t"
      by (metis flag_value_def of_bool_eq option.inject option.distinct(1))
    have "set_flag Field_delay_response_headers b = (\<lambda>k. k\<lparr>lc_delay_response_headers := of_bool t\<rparr>)"
      by (simp add: fun_eq_iff t)
    then have "config_step P y y'" using config_step.delay [OF c u, of P t] b(2) by simp
    moreover have "writes full x y y'"
      unfolding b(2) by (rule flags_write [OF own same_conf_refl])
        (simp_all add: Directive delay(2) write_directive conf_of_def conf_rules_def b(1) upd_conf_def)
    ultimately show ?thesis ..
  qed
qed

lemma run_ops_written:
  assumes "run_ops P ops y = Some y'" "configured P y" "own_arrays y" "cy_main y = Some m"
    and "\<And>tr v. conf_full_name P tr v = Some (full v)"
  shows "configured P y' \<and> own_arrays y' \<and> cy_next_conf y' = cy_next_conf y + count_list ops Enter_block \<and>
    (\<exists>m'. cy_main y' = Some m' \<and> mc_loc_confs m' = mc_loc_confs m) \<and>
    (\<forall>c. 1 \<le> c \<longrightarrow> c \<le> cy_next_conf y' \<longrightarrow>
       conf_of y' c = fold (write_op full c) ops (if c \<le> cy_next_conf y then conf_of y c else unset_conf))"
  using assms(1-4)
proof (induction ops arbitrary: y m)
  case (Cons x xs)
  obtain y1 where y1: "run_op P x y = Some y1" "run_ops P xs y1 = Some y'"
    using Cons.prems(1) by (auto split: option.splits)
  have st: "config_step P y y1" "writes full x y y1"
    using run_op_step [OF y1(1) Cons.prems(3) assms(5)] by auto
  note W = st(2) [unfolded writes_def]
  obtain m1 where m1: "cy_main y1 = Some m1" "mc_loc_confs m1 = mc_loc_confs m"
    using W Cons.prems(4) by blast
  have ih: "configured P y' \<and> own_arrays y' \<and>
    cy_next_conf y' = cy_next_conf y1 + count_list xs Enter_block \<and>
    (\<exists>m'. cy_main y' = Some m' \<and> mc_loc_confs m' = mc_loc_confs m) \<and>
    (\<forall>c. 1 \<le> c \<longrightarrow> c \<le> cy_next_conf y' \<longrightarrow>
       conf_of y' c = fold (write_op full c) xs (if c \<le> cy_next_conf y1 then conf_of y1 c else unset_conf))"
    using Cons.IH [OF y1(2) configured.step [OF Cons.prems(2) st(1)] _ m1(1)] W m1(2) by simp
  have "write_op full c x k = k" if "cy_next_conf y1 < c" for c k
    using y1(1) that W by (cases x) (auto simp: write_op.simps(2) split: if_splits)
  then have "(if c \<le> cy_next_conf y1 then conf_of y1 c else unset_conf) =
      write_op full c x (if c \<le> cy_next_conf y then conf_of y c else unset_conf)" if "1 \<le> c" for c
    using W that by (cases "c \<le> cy_next_conf y1") auto
  then show ?case using ih W by simp
qed auto

section \<open>Merging the blocks\<close>

lemma block_path_confs:
  "(c, path) \<in> set (block_paths up bs) \<Longrightarrow>
   set path \<subseteq> set up \<union> set (block_confs bs) \<and> c \<in> set (block_confs bs)"
  by (induction up bs rule: block_paths.induct) auto

lemma configured_arrays:
  "configured P y \<Longrightarrow> 1 \<le> d \<Longrightarrow> d \<le> cy_next_conf y \<Longrightarrow> lc_rules (cy_confs y d) \<le> cy_next_array y"
  by (drule wf_configured) (auto elim!: wf_configE simp: conf_ok_def)

lemma merge_step:
  assumes "merge_loc P p c y = (NGX_CONF_OK, y')" "configured P y" "cy_main y = Some m"
    and "p \<in> {1..cy_next_conf y}" "c \<in> {1..cy_next_conf y}" "p \<noteq> c" "c \<notin> set (mc_loc_confs m)"
  shows "configured P y' \<and> cy_next_conf y' = cy_next_conf y \<and>
    cy_main y' = Some (m\<lparr>mc_loc_confs := mc_loc_confs m @ [c]\<rparr>) \<and>
    conf_of y' c = inherit (conf_of y p) (conf_of y c) \<and>
    (\<forall>d \<in> {1..cy_next_conf y}. d \<noteq> c \<longrightarrow> conf_of y' d = conf_of y d)"
proof -
  have mrg: "ngx_http_coraza_merge_conf P p c y = (NGX_CONF_OK, y')" using assms(1) by (simp add: callbacks)
  have le: "lc_rules (cy_confs y d) \<le> cy_next_array y" if "d \<in> {1..cy_next_conf y}" for d
    using configured_arrays [OF assms(2)] that by simp
  have "config_step P y y'"
    using config_step.merge [OF _ _ _ _ assms(6,3,7) mrg] assms(4,5) by simp
  then have "configured P y'" using configured.step [OF assms(2)] by blast
  moreover have "conf_of y' d = conf_of y d" if "d \<in> {1..cy_next_conf y}" "d \<noteq> c" for d
    using merge_conf_frame [OF mrg assms(6) le [OF assms(4)] le [OF assms(5)] that(2) le [OF that(1)]] by (simp add: conf_of_def)
  moreover have "conf_of y' c = inherit (conf_of y p) (conf_of y c) \<and> cy_next_conf y' = cy_next_conf y \<and>
      cy_main y' = Some (m\<lparr>mc_loc_confs := mc_loc_confs m @ [c]\<rparr>)"
    by (rule merge_conf_ok [OF mrg assms(6) le [OF assms(4)] le [OF assms(5)]]) (use assms(3) in \<open>auto simp: conf_of_def inherit_def inherit_flags_def\<close>)
  ultimately show ?thesis by blast
qed

text \<open>
  What merging a list of blocks relies on and what it gives: \<open>up\<close> are the blocks
  around, whose settings the parent \<open>p\<close> already has; \<open>R\<close> is what is written in each
  block.
\<close>

definition mergeable ::
  "penv \<Rightarrow> (nat \<Rightarrow> block_conf) \<Rightarrow> nat list \<Rightarrow> nat \<Rightarrow> block list \<Rightarrow>
   ngx_http_coraza_main_conf \<Rightarrow> cycle \<Rightarrow> bool" where
  "mergeable P R up p bs m y \<longleftrightarrow>
     configured P y \<and> cy_main y = Some m \<and> distinct (p # block_confs bs) \<and>
     set (p # block_confs bs) \<subseteq> {1..cy_next_conf y} \<and>
     set (block_confs bs) \<inter> set (mc_loc_confs m) = {} \<and>
     up \<noteq> [] \<and> conf_of y p = path_conf R up \<and> (\<forall>c \<in> set (block_confs bs). conf_of y c = R c)"

definition merged ::
  "penv \<Rightarrow> (nat \<Rightarrow> block_conf) \<Rightarrow> nat list \<Rightarrow> block list \<Rightarrow>
   ngx_http_coraza_main_conf \<Rightarrow> cycle \<Rightarrow> cycle \<Rightarrow> bool" where
  "merged P R up bs m y y' \<longleftrightarrow>
     configured P y' \<and> cy_next_conf y' = cy_next_conf y \<and>
     (\<exists>m'. cy_main y' = Some m' \<and> mc_loc_confs m' = mc_loc_confs m @ block_confs bs) \<and>
     (\<forall>d \<in> {1..cy_next_conf y}. d \<notin> set (block_confs bs) \<longrightarrow> conf_of y' d = conf_of y d) \<and>
     (\<forall>c path. (c, path) \<in> set (block_paths up bs) \<longrightarrow> conf_of y' c = path_conf R path)"

lemma mergedD:
  assumes "merged P R up bs m y y'"
  shows "configured P y'" "cy_next_conf y' = cy_next_conf y"
    "\<exists>m'. cy_main y' = Some m' \<and> mc_loc_confs m' = mc_loc_confs m @ block_confs bs"
    "d \<in> {1..cy_next_conf y} \<Longrightarrow> d \<notin> set (block_confs bs) \<Longrightarrow> conf_of y' d = conf_of y d"
    "(c, path) \<in> set (block_paths up bs) \<Longrightarrow> conf_of y' c = path_conf R path"
  using assms unfolding merged_def by blast+

lemma mergeable_Cons:
  assumes "mergeable P R up p (Block c inner # bs) m y"
  shows "p \<in> {1..cy_next_conf y}" "c \<in> {1..cy_next_conf y}" "p \<noteq> c" "c \<notin> set (mc_loc_confs m)"
    "set (block_confs inner) \<subseteq> {1..cy_next_conf y} - {p, c}"
    "set (block_confs bs) \<subseteq> {1..cy_next_conf y} - {p, c} - set (block_confs inner)"
    "p \<notin> set (block_confs inner)" "c \<notin> set (block_confs inner)" "c \<notin> set (block_confs bs)"
  using assms unfolding mergeable_def by auto

lemma mergeable_first:
  assumes "mergeable P R up p (Block c inner # bs) m y" "merge_loc P p c y = (NGX_CONF_OK, y1)"
  shows "mergeable P R (up @ [c]) c inner (m\<lparr>mc_loc_confs := mc_loc_confs m @ [c]\<rparr>) y1 \<and>
    cy_next_conf y1 = cy_next_conf y \<and>
    (\<forall>d \<in> {1..cy_next_conf y}. d \<noteq> c \<longrightarrow> conf_of y1 d = conf_of y d)"
proof -
  note A = assms(1) [unfolded mergeable_def] and C = mergeable_Cons [OF assms(1)]
  have s: "configured P y1" "cy_next_conf y1 = cy_next_conf y"
    "cy_main y1 = Some (m\<lparr>mc_loc_confs := mc_loc_confs m @ [c]\<rparr>)"
    "conf_of y1 c = inherit (conf_of y p) (conf_of y c)"
    "\<forall>d \<in> {1..cy_next_conf y}. d \<noteq> c \<longrightarrow> conf_of y1 d = conf_of y d"
    using merge_step [OF assms(2) _ _ C(1-4)] A by auto
  have "\<forall>e \<in> set (block_confs inner). conf_of y1 e = R e" using s(5) A C(5) by auto
  then show ?thesis using s A C path_conf_snoc [of up R c] unfolding mergeable_def by auto
qed

lemma mergeable_rest:
  assumes "mergeable P R up p (Block c inner # bs) m y"
    and "\<forall>d \<in> {1..cy_next_conf y}. d \<noteq> c \<longrightarrow> conf_of y1 d = conf_of y d"
    and "merged P R (up @ [c]) inner (m\<lparr>mc_loc_confs := mc_loc_confs m @ [c]\<rparr>) y1 y2"
    and "cy_next_conf y1 = cy_next_conf y" "cy_main y2 = Some m2"
  shows "mergeable P R up p bs m2 y2"
proof -
  note A = assms(1) [unfolded mergeable_def] and C = mergeable_Cons [OF assms(1)]
    and M = mergedD [OF assms(3), unfolded assms(4)]
  have "conf_of y2 e = conf_of y e" if "e \<in> set (p # block_confs bs)" for e
  proof -
    have "e \<in> {1..cy_next_conf y}" "e \<noteq> c" "e \<notin> set (block_confs inner)" using C that by auto
    then show ?thesis using M(4) [of e] assms(2) by simp
  qed
  moreover have "mc_loc_confs m2 = mc_loc_confs m @ c # block_confs inner" using M(3) assms(5) by auto
  ultimately show ?thesis using A C M(1,2) assms(5) unfolding mergeable_def by auto
qed

lemma merged_Cons:
  assumes "mergeable P R up p (Block c inner # bs) m y"
    and "mergeable P R (up @ [c]) c inner m1 y1" "cy_next_conf y1 = cy_next_conf y"
    and "\<forall>d \<in> {1..cy_next_conf y}. d \<noteq> c \<longrightarrow> conf_of y1 d = conf_of y d"
    and "merged P R (up @ [c]) inner m1 y1 y2" "cy_main y2 = Some m2"
    and "merged P R up bs m2 y2 y'" "mc_loc_confs m1 = mc_loc_confs m @ [c]"
  shows "merged P R up (Block c inner # bs) m y y'"
proof -
  note C = mergeable_Cons [OF assms(1)]
    and I = mergedD [OF assms(5), unfolded assms(3)]
  note B = mergedD [OF assms(7), unfolded I(2)]
  have last: "conf_of y' d = conf_of y2 d" if "d \<in> {1..cy_next_conf y}" "d \<notin> set (block_confs bs)" for d
    using B(4) that by blast
  have "conf_of y' c = path_conf R (up @ [c])"
    using last [of c] I(4) [of c] C assms(2) by (auto simp: mergeable_def)
  moreover have "conf_of y' e = path_conf R path"
    if "(e, path) \<in> set (block_paths (up @ [c]) inner)" for e path
  proof -
    have "e \<in> set (block_confs inner)" using block_path_confs [OF that] by blast
    then have "e \<in> {1..cy_next_conf y}" "e \<notin> set (block_confs bs)" using C by auto
    then show ?thesis using last I(5) [OF that] by simp
  qed
  moreover have "conf_of y' d = conf_of y d"
    if "d \<in> {1..cy_next_conf y}" "d \<notin> set (block_confs (Block c inner # bs))" for d
    using last [of d] I(4) [of d] assms(4) that by auto
  moreover have "\<exists>m'. cy_main y' = Some m' \<and> mc_loc_confs m' = mc_loc_confs m @ block_confs (Block c inner # bs)"
    using B(3) I(3) assms(6,8) by auto
  ultimately show ?thesis using B(1,2,5) unfolding merged_def by auto
qed

lemma merge_blocks_merged:
  assumes "merge_blocks P p bs y = (NGX_CONF_OK, y')" "mergeable P R up p bs m y"
  shows "merged P R up bs m y y'"
  using assms
proof (induction P p bs y arbitrary: y' m up rule: merge_blocks.induct)
  case (1 P p y)
  then show ?case by (simp add: merged_def mergeable_def)
next
  case (2 P p c inner bs y)
  obtain y1 where y1: "merge_loc P p c y = (NGX_CONF_OK, y1)"
    using 2(3) by (auto split: prod.splits conf_rc.splits)
  obtain y2 where y2: "merge_blocks P c inner y1 = (NGX_CONF_OK, y2)"
    using 2(3) y1 by (auto split: prod.splits conf_rc.splits)
  have y3: "merge_blocks P p bs y2 = (NGX_CONF_OK, y')" using 2(3) y1 y2 by simp
  let ?m1 = "m\<lparr>mc_loc_confs := mc_loc_confs m @ [c]\<rparr>"
  have a: "mergeable P R (up @ [c]) c inner ?m1 y1" "cy_next_conf y1 = cy_next_conf y"
    "\<forall>d \<in> {1..cy_next_conf y}. d \<noteq> c \<longrightarrow> conf_of y1 d = conf_of y d"
    using mergeable_first [OF 2(4) y1] by blast+
  have b: "merged P R (up @ [c]) inner ?m1 y1 y2"
    by (rule 2(1) [OF y1 [symmetric] refl y2 a(1)])
  obtain m2 where m2: "cy_main y2 = Some m2" using mergedD(3) [OF b] by blast
  have "merged P R up bs m2 y2 y'"
    by (rule 2(2) [OF y1 [symmetric] refl y2 [symmetric] refl y3 mergeable_rest [OF 2(4) a(3) b a(2) m2]])
  then show ?case using merged_Cons [OF 2(4) a(1-3) b m2] by simp
qed

section \<open>From the file to the request\<close>

text \<open>
  A configuration as nginx builds it: the main configuration, the operations of
  the file, the merge of the blocks inside the outermost one, and the registration
  of the handlers.
\<close>

definition postconfigure :: "penv \<Rightarrow> registration \<Rightarrow> cycle \<Rightarrow> (registration \<times> cycle) option" where
  "postconfigure P g y =
     (case hm_postconfiguration (m_ctx ngx_http_coraza_module) of
        None \<Rightarrow> Some (g, y)
      | Some f \<Rightarrow> (case f P True g y of ((rc, g'), y') \<Rightarrow> if rc = NGX_OK then Some (g', y') else None))"

definition read_site ::
  "penv \<Rightarrow> registration \<Rightarrow> conf_op list \<Rightarrow> block list \<Rightarrow> (registration \<times> cycle) option" where
  "read_site P g ops bs =
     (case create_main P no_cycle of
        (False, _) \<Rightarrow> None
      | (True, y) \<Rightarrow>
          (case run_ops P ops y of
             None \<Rightarrow> None
           | Some y \<Rightarrow>
               (case merge_blocks P 1 bs y of
                  (NGX_CONF_ERROR, _) \<Rightarrow> None
                | (NGX_CONF_OK, y) \<Rightarrow> postconfigure P g y)))"

text \<open>The blocks are those the file entered, each once, inside the first.\<close>

definition well_nested :: "conf_op list \<Rightarrow> block list \<Rightarrow> bool" where
  "well_nested ops bs \<longleftrightarrow>
     distinct (1 # block_confs bs) \<and> set (1 # block_confs bs) \<subseteq> {1..count_list ops Enter_block}"

text \<open>Registration only asks for memory; when it succeeds everything is in place.\<close>

lemma cf_palloc_same: "cf_palloc P y = (ok, y') \<Longrightarrow> same_conf y y' \<and> calm y y'"
  by (auto simp: cf_palloc_eq calm_pemit)

lemma init_same: "ngx_http_coraza_init P b g y = (r, y') \<Longrightarrow> same_conf y y' \<and> calm y y'"
  by (auto simp: ngx_http_coraza_init_def Let_def split: if_splits prod.splits
      dest!: cf_palloc_same intro: same_conf_trans calm_trans)

lemma init_registers:
  "ngx_http_coraza_init P b g y = ((NGX_OK, g'), y') \<Longrightarrow>
   g' = g\<lparr>rewrite_phase := rewrite_phase g @ [Rewrite_handler],
          preaccess_phase := preaccess_phase g @ [Pre_access_handler],
          log_phase := log_phase g @ [Log_handler],
          top_header_filter := Coraza_filter, saved_header_filter := top_header_filter g,
          top_body_filter := Coraza_filter, saved_body_filter := top_body_filter g\<rparr>"
  by (auto simp: ngx_http_coraza_init_def init_filters_def ngx_http_coraza_header_filter_init_def
      ngx_http_coraza_body_filter_init_def Let_def split: if_splits prod.splits)

interpretation init: conf_operation "\<lambda>P. ngx_http_coraza_init P b g" for b g
  by unfold_locales (use init_same in \<open>metis prod.collapse\<close>)

lemma postconfigure_ready:
  assumes "postconfigure P g y = Some (g', y')" "worker_ready y"
  shows "same_conf y y' \<and> worker_ready y'"
proof -
  have r: "ngx_http_coraza_init P True g y = ((NGX_OK, g'), y')"
    using assms(1) by (auto simp: postconfigure_def module_defs split: prod.splits if_splits)
  have "same_conf y y'" using init_same [OF r] by blast
  moreover have "engine (cy_trace y') = engine (cy_trace y)" "dl_ok y \<Longrightarrow> dl_ok y'"
    using init.engine_same [of P True g y] init.keeps_dl_ok [of y P True g] r by simp_all
  ultimately show ?thesis using assms(2) wf_same_conf [of y y'] by (simp add: worker_ready_def)
qed

lemma create_main_start:
  assumes "create_main P no_cycle = (True, y)"
  shows "configured P y" "own_arrays y" "cy_next_conf y = 0" "\<exists>m. cy_main y = Some m \<and> mc_loc_confs m = []"
proof -
  have m: "ngx_http_coraza_create_main_conf P no_cycle = (True, y)" using assms by (simp add: callbacks)
  show "configured P y" by (rule configured.start [OF m])
  show "cy_next_conf y = 0" "\<exists>m. cy_main y = Some m \<and> mc_loc_confs m = []"
    using m by (auto simp: ngx_http_coraza_create_main_conf_def array_create_def cf_palloc_eq no_cycle_def
        split: if_splits)
  then show "own_arrays y" by (simp add: own_arrays_def)
qed

lemma read_site_confs:
  assumes "read_site P g ops bs = Some (g', y)" "well_nested ops bs"
    and full: "\<And>tr v. conf_full_name P tr v = Some (full v)"
  shows "worker_ready y \<and> (\<exists>m. cy_main y = Some m \<and> mc_loc_confs m = block_confs bs) \<and>
    (\<forall>c path. (c, path) \<in> set (block_paths [1] bs) \<longrightarrow> conf_of y c = path_conf (written full ops) path)"
proof -
  obtain y0 y1 y2 where r: "create_main P no_cycle = (True, y0)" "run_ops P ops y0 = Some y1"
    "merge_blocks P 1 bs y1 = (NGX_CONF_OK, y2)" "postconfigure P g y2 = Some (g', y)"
    using assms(1)
    by (auto simp: read_site_def split: prod.splits bool.splits option.splits conf_rc.splits)
  note s = create_main_start [OF r(1)]
  obtain m0 where m0: "cy_main y0 = Some m0" "mc_loc_confs m0 = []" using s(4) by blast
  obtain m1 where w: "configured P y1" "cy_next_conf y1 = count_list ops Enter_block"
    "cy_main y1 = Some m1" "mc_loc_confs m1 = []"
    "\<And>c. 1 \<le> c \<Longrightarrow> c \<le> cy_next_conf y1 \<Longrightarrow> conf_of y1 c = written full ops c"
    using run_ops_written [OF r(2) s(1,2) m0(1) full] s(3) m0(2) by (auto simp: written_def)
  have "mergeable P (written full ops) [1] 1 bs m1 y1"
    using w assms(2) unfolding mergeable_def well_nested_def by auto
  note M = mergedD [OF merge_blocks_merged [OF r(3) this]]
  have p: "same_conf y2 y" "worker_ready y"
    using postconfigure_ready [OF r(4) worker_ready [OF M(1)]] by auto
  then have "conf_of y c = conf_of y2 c" "cy_main y = cy_main y2" for c
    by (simp_all add: same_conf_def conf_of_def conf_rules_def)
  then show ?thesis using p(2) M(3,5) w(4) by auto
qed

lemma block_path_shape:
  "(c, path) \<in> set (block_paths up bs) \<Longrightarrow> \<exists>cs. path = up @ cs \<and> cs \<noteq> []"
  by (induction up bs rule: block_paths.induct) fastforce+

text \<open>
  C19: the effective settings of a site.  For every site the module accepts and
  every block in it: its rules are those written in the blocks around it and in
  itself, outermost first and in the order of the file; \<open>coraza\<close> and
  \<open>coraza_delay_response_headers\<close> have the value written in the innermost of these
  blocks that sets them, or their defaults off and on.
\<close>

theorem site_block_settings:
  assumes "read_site P g ops bs = Some (g', y)" "well_nested ops bs"
    and "\<And>tr v. conf_full_name P tr v = Some (full v)"
    and "(c, path) \<in> set (block_paths [1] bs)"
  shows "conf_rules y c = concat (map (\<lambda>d. bc_rules (written full ops d)) path) \<and>
    lc_enable (cy_confs y c) = inherited 0 (map (\<lambda>d. bc_enable (written full ops d)) path) \<and>
    lc_delay_response_headers (cy_confs y c) = inherited 1 (map (\<lambda>d. bc_delay (written full ops d)) path)"
proof -
  obtain cs where cs: "path = 1 # cs" "cs \<noteq> []" using block_path_shape [OF assms(4)] by auto
  have k: "conf_of y c = path_conf (written full ops) path"
    using read_site_confs [OF assms(1,2,3)] assms(4) by blast
  then have "bc_enable (conf_of y c) = inherited 0 (map (\<lambda>d. bc_enable (written full ops d)) path)"
    "bc_delay (conf_of y c) = inherited 1 (map (\<lambda>d. bc_delay (written full ops d)) path)"
    unfolding cs(1) using path_conf_switches [OF cs(2)] by simp_all
  then show ?thesis using path_conf_rules [of "written full ops" path, folded k] by (simp add: conf_of_def)
qed

text \<open>
  C6: from the file to the transaction.  Take a site the module accepts, whatever its
  directives and the nesting of its blocks, read with a resolution of paths that is a
  fixed function, and a worker that started on it, with an engine that never hands out
  a live handle twice.  When the rewrite handler runs for a request to one of the
  blocks and opens a transaction, it opens it on a WAF that libcoraza compiled from
  exactly the rules written in the blocks around that block and in itself, outermost
  block first and in the order of the file in each; \<open>coraza_rules\<close> contributes its text
  and \<open>coraza_rules_file\<close> the resolved path, and no other directive contributes
  anything.  Nothing is claimed of a request for which the handler opens no
  transaction: one in a block with \<open>coraza off\<close>, or one that keeps the context it got in
  another block.
\<close>

theorem site_rules_reach_transaction:
  assumes "read_site P g ops bs = Some (g', y)" "well_nested ops bs"
    and "\<And>tr v. conf_full_name P tr v = Some (full v)"
    and "fresh_handles Q" "start_worker Q y = (NGX_OK, y')" "cy_main y' = Some mm"
    and "(c, path) \<in> set (block_paths [1] bs)"
    and "mcf w = Some (cy_confs y' c)" "main_waf w = mc_waf mm"
    and "trace (snd (ngx_http_coraza_rewrite_handler E w)) = trace w @ new"
    and "New_transaction v s t \<in> set new" "t \<noteq> 0"
  shows "es_wafs (engine (cy_trace y')) v =
    Some (texts (concat (map (\<lambda>d. bc_rules (written full ops d)) path)))"
proof -
  have y: "worker_ready y" "\<exists>m. cy_main y = Some m \<and> mc_loc_confs m = block_confs bs"
    "conf_of y c = path_conf (written full ops) path"
    using read_site_confs [OF assms(1,2,3)] assms(7) by blast+
  have rules: "conf_rules y c = concat (map (\<lambda>d. bc_rules (written full ops d)) path)"
    using arg_cong [OF y(3), of bc_rules] by (simp add: conf_of_def path_conf_rules)
  have run: "ngx_http_coraza_init_process Q y = (NGX_OK, y')" using assms(5) by (simp add: callbacks)
  have "mc_loc_confs mm = block_confs bs"
    using init_process_result [OF assms(4) y(1) run] assms(6) y(2) by auto
  then have c: "c \<in> set (mc_loc_confs mm)" using block_path_confs [OF assms(7)] by simp
  have "opens_on (request_waf w (cy_confs y' c)) (New_transaction v s t)"
    using rewrite_opens [OF assms(8), of E] assms(10,11) by (auto simp: adds_def)
  then show ?thesis
    using worker_request_waf [OF y(1) assms(4) run assms(6) c assms(9)] assms(12) rules by simp
qed

text \<open>
  A site with \<open>coraza on\<close> and one rule in the outermost block, and a second rule in
  the block inside it.
\<close>

definition sample_ops :: "conf_op list" where
  "sample_ops =
     [Enter_block, Directive 1 (ngx_string ''coraza'') (ngx_string ''on''),
      Directive 1 (ngx_string ''coraza_rules'') [65],
      Enter_block, Directive 2 (ngx_string ''coraza_rules'') [66]]"

lemmas site_eval = ngx_http_coraza_create_conf_def ngx_http_coraza_create_main_conf_def
  array_create_def cf_palloc_eq sample_penv_def no_cycle_def empty_conf_def
  ngx_conf_set_rules_def store_rule_def rules_scan_eval ngx_string_def run_directive_def module_defs
  ngx_http_coraza_commands_def flag_value_def ngx_tolower_def

definition sample_registration :: registration where
  "sample_registration = \<lparr>rewrite_phase = [Other_handler 1], preaccess_phase = [], log_phase = [],
     top_header_filter = Other_filter 1, saved_header_filter = Other_filter 0,
     top_body_filter = Other_filter 1, saved_body_filter = Other_filter 0\<rparr>"

definition sample_served_site :: cycle where
  "sample_served_site = snd (the (read_site sample_penv sample_registration sample_ops [Block 2 []]))"

lemma sample_served_site:
  "\<exists>g. read_site sample_penv sample_registration sample_ops [Block 2 []] = Some (g, sample_served_site)"
  "lc_enable (cy_confs sample_served_site 2) = 1"
  "lc_transaction_id (cy_confs sample_served_site 2) = Cv_Null"
  by (simp_all add: sample_served_site_def read_site_def sample_ops_def postconfigure_def callbacks
      site_eval Let_def ngx_http_coraza_merge_conf_def merge_rules_def inherit_flags_def
      ngx_http_coraza_init_def init_filters_def ngx_http_coraza_header_filter_init_def
      ngx_http_coraza_body_filter_init_def ngx_http_coraza_validate_rules_def ngx_conf_merge_value_def
      ngx_conf_merge_ptr_value_def)

lemma sample_written:
  "written (\<lambda>v. v) sample_ops (Suc 0) =
     \<lparr>bc_rules = [\<lparr>re_type = NGX_CORAZA_RULE_INLINE, re_value = [65]\<rparr>], bc_enable = 1, bc_delay = - 1\<rparr>"
  "written (\<lambda>v. v) sample_ops 2 =
     \<lparr>bc_rules = [\<lparr>re_type = NGX_CORAZA_RULE_INLINE, re_value = [66]\<rparr>], bc_enable = - 1, bc_delay = - 1\<rparr>"
  by (simp_all add: written_def sample_ops_def unset_conf_def write_directive,
      simp_all add: flag_value_def ngx_tolower_def ngx_string_def)

theorem site_block_settings_witness:
  "lc_enable (cy_confs sample_served_site 2) = 1 \<and>
   lc_delay_response_headers (cy_confs sample_served_site 2) = 1 \<and>
   conf_rules sample_served_site 2 =
     [\<lparr>re_type = NGX_CORAZA_RULE_INLINE, re_value = [65]\<rparr>, \<lparr>re_type = NGX_CORAZA_RULE_INLINE, re_value = [66]\<rparr>]"
proof -
  obtain g where site: "read_site sample_penv sample_registration sample_ops [Block 2 []] = Some (g, sample_served_site)"
    using sample_served_site(1) by blast
  have "well_nested sample_ops [Block 2 []]" by (simp add: well_nested_def sample_ops_def)
  moreover have "conf_full_name sample_penv tr v = Some ((\<lambda>v. v) v)" for tr v by (simp add: sample_penv_def)
  moreover have "(2, [1, 2]) \<in> set (block_paths [1] [Block 2 []])" by simp
  ultimately show ?thesis
    using site_block_settings [OF site, of "\<lambda>v. v" 2 "[1, 2]"]
    by (simp add: sample_written)
qed

theorem site_rules_reach_transaction_witness:
  "\<exists>y' v. start_worker sample_penv sample_served_site = (NGX_OK, y') \<and>
     es_wafs (engine (cy_trace y')) v = Some [(NGX_CORAZA_RULE_INLINE, [65]), (NGX_CORAZA_RULE_INLINE, [66])]"
proof -
  have wn: "well_nested sample_ops [Block 2 []]" by (simp add: well_nested_def sample_ops_def)
  have full: "conf_full_name sample_penv tr v = Some ((\<lambda>v. v) v)" for tr v by (simp add: sample_penv_def)
  obtain g where site: "read_site sample_penv sample_registration sample_ops [Block 2 []] = Some (g, sample_served_site)"
    using sample_served_site(1) by blast
  have ready: "worker_ready sample_served_site"
    using read_site_confs [OF site wn full] by blast
  obtain y' where start: "start_worker sample_penv sample_served_site = (NGX_OK, y')"
    using init_process_succeeds [OF nothing_fails_sample ready] by (metis callbacks(4) prod.collapse)
  then have run: "ngx_http_coraza_init_process sample_penv sample_served_site = (NGX_OK, y')"
    by (simp add: callbacks)
  obtain mm where sr: "same_rules sample_served_site y'" and mm: "cy_main y' = Some mm" "mc_loc_confs mm = [2]"
    using init_process_result [OF fresh_handles_sample ready run]
      read_site_confs [OF site wn full] by auto
  let ?k = "cy_confs y' 2"
  define w where "w = sample_world\<lparr>mcf := Some ?k, main_waf := mc_waf mm\<rparr>"
  have k: "lc_enable ?k = 1" "lc_transaction_id ?k = Cv_Null"
    using sr sample_served_site(2,3) by (simp_all add: same_rules_def)
  have main: "main_waf w = mc_waf mm" by (simp add: w_def)
  have nz: "request_waf w ?k \<noteq> 0"
    using worker_request_waf [OF ready fresh_handles_sample run mm(1) _ main, of 2] mm(2) engine_null
    by (metis list.set_intros(1) option.distinct(1))
  obtain new where new: "trace (snd (ngx_http_coraza_rewrite_handler sample_env w)) = trace w @ new"
    "New_transaction (request_waf w ?k) None 2 \<in> set new"
  proof -
    have "request_waf w ?k = (if lc_waf ?k \<noteq> 0 then lc_waf ?k else mc_waf mm)" "trace w = []"
      by (simp_all add: request_waf_def w_def sample_world_def)
    then show ?thesis using sample_request_opens [OF k nz, of "mc_waf mm", folded w_def] that by simp
  qed
  have "(2, [1, 2]) \<in> set (block_paths [1] [Block 2 []])" by simp
  from site_rules_reach_transaction [OF site wn full fresh_handles_sample start mm(1) this _ main new]
  have "es_wafs (engine (cy_trace y')) (request_waf w ?k) =
      Some (texts (concat (map (\<lambda>d. bc_rules (written (\<lambda>v. v) sample_ops d)) [1, 2])))" by (simp add: w_def)
  moreover have "texts (concat (map (\<lambda>d. bc_rules (written (\<lambda>v. v) sample_ops d)) [1, 2])) =
      [(NGX_CORAZA_RULE_INLINE, [65]), (NGX_CORAZA_RULE_INLINE, [66])]"
    by (simp add: sample_written texts_def rule_cstring_def c_string_def)
  ultimately show ?thesis using start by auto
qed

end
