(* ===== verification/Phases.thy ===== *)
theory Phases
  imports Pre_Access
begin

text \<open>
  The range of answers of the two phase handlers (\<open>ngx_http_coraza_rewrite_handler\<close>
  and \<open>ngx_http_coraza_pre_access_handler\<close>), function by function: what nginx's
  phase engine can get from them; and what both together guarantee when a request
  reaches the content phase.
\<close>

section \<open>Answers of the phase handlers\<close>

text \<open>What nginx's phase engine gets: go on, or a final answer.\<close>

abbreviation declines_or_answers :: "int \<Rightarrow> bool" where
  "declines_or_answers rc \<equiv> rc = NGX_DECLINED \<or> 0 < rc"

abbreviation early_answer :: "int option \<Rightarrow> bool" where
  "early_answer x \<equiv> \<forall>rc. x = Some rc \<longrightarrow> declines_or_answers rc"

lemma each_request_header_answer:
  "early_answer (fst (each_request_header E i t es w))"
  by (induction es arbitrary: w) (auto simp: Let_def split: prod.split)

lemma submit_request_headers_answer:
  "early_answer (fst (submit_request_headers E i t w))"
  using each_request_header_answer
  by (auto simp: submit_request_headers_def Let_def split: prod.splits if_splits)

lemma rewrite_phase1_answer: "declines_or_answers (fst (rewrite_phase1 E i t w))"
  by (auto simp: rewrite_phase1_def Let_def split: prod.split)

lemma rewrite_request_answer: "declines_or_answers (fst (rewrite_request E i t w))"
proof -
  have "declines_or_answers rc" if "submit_request_headers E i t v = (Some rc, v')" for v v' rc
    using submit_request_headers_answer [of E i t v] that by simp
  then show ?thesis
    using rewrite_phase1_answer
    by (auto simp: rewrite_request_def Let_def split: prod.split option.split)
qed

lemma rewrite_handler_answer: "declines_or_answers (fst (ngx_http_coraza_rewrite_handler E w))"
  using rewrite_request_answer
  by (auto simp: ngx_http_coraza_rewrite_handler_def rewrite_new_ctx_def Let_def
      split: prod.split option.split)

lemma process_request_body_phase_answer:
  "declines_or_answers (fst (ngx_http_coraza_process_request_body_phase E i w))"
  by (auto simp: ngx_http_coraza_process_request_body_phase_def Let_def split: prod.split)

lemma request_body_poll_answer: "early_answer (fst (request_body_poll E i w))"
  by (auto simp: request_body_poll_def Let_def split: prod.splits if_splits)

lemma append_request_body_bufs_answer: "early_answer (fst (append_request_body_bufs E i bs w))"
proof (induction bs arbitrary: w)
  case (Cons b bs)
  have "declines_or_answers rc" if "request_body_poll E i v = (Some rc, v')" for v v' rc
    using request_body_poll_answer [of E i v] that by simp
  then show ?case
    using Cons.IH by (auto simp: Let_def split: prod.splits if_splits option.splits)
qed simp

lemma append_request_body_loop_answer:
  "fst (append_request_body_loop E i name n off w) = NGX_OK \<or>
   declines_or_answers (fst (append_request_body_loop E i name n off w))" (is "?P off w")
proof (induction "nat (n - off)" arbitrary: off w rule: less_induct)
  case less
  let ?k = "if n - off > int NGX_HTTP_CORAZA_REQUEST_BODY_FILE_CHUNK_SIZE
    then NGX_HTTP_CORAZA_REQUEST_BODY_FILE_CHUNK_SIZE else nat (n - off)"
  obtain d w1 where d: "read_temp_file E name ?k off w = (d, w1)" by fastforce
  show ?case
  proof (cases "off < n \<and> d \<noteq> None \<and> d \<noteq> Some []")
    case False
    then consider "\<not> off < n" | "off < n" "d = None" | "off < n" "d = Some []" by auto
    then show ?thesis
      by cases ((subst (1 2 3) append_request_body_loop.simps, use d in \<open>simp add: Let_def\<close>)+)
  next
    case True
    then obtain data where data: "d = Some data" "data \<noteq> []" "off < n" by auto
    have next_off: "?P (off + int (length data)) v" for v
      by (rule less) (use data(2,3) in simp)
    obtain ret w2 where a: "coraza_append_request_body E (coraza_transaction (ctxs w1 i)) data (c_int (length data)) w1 = (ret, w2)"
      by fastforce
    obtain rc w3 where p: "ngx_http_coraza_process_intervention E (Some i) False w2 = (rc, w3)" by fastforce
    show ?thesis
      by (subst (1 2 3) append_request_body_loop.simps) (use d data next_off in \<open>simp add: a p Let_def split del: if_split\<close>, simp add: p)
  qed
qed

lemma append_request_body_file_answer:
  "fst (ngx_http_coraza_append_request_body_file E i tf w) = NGX_OK \<or>
   declines_or_answers (fst (ngx_http_coraza_append_request_body_file E i tf w))"
proof -
  have "rc = NGX_OK \<or> declines_or_answers rc" if "append_request_body_loop E i name n 0 v = (rc, v')" for name n v v' rc
    using append_request_body_loop_answer [of E i name n 0 v] that by simp
  then show ?thesis
    by (auto simp: ngx_http_coraza_append_request_body_file_def Let_def split: prod.split)
qed

lemma submit_request_body_answer: "early_answer (fst (submit_request_body E i rb w))"
proof (cases "rb_temp_file rb")
  case None
  then show ?thesis by (simp add: submit_request_body_def append_request_body_bufs_answer)
next
  case (Some tf)
  then show ?thesis
    using append_request_body_file_answer [of E i tf w]
    by (auto simp: submit_request_body_def Let_def split: prod.split)
qed

lemma pre_access_inspect_answer: "declines_or_answers (fst (pre_access_inspect E i w))"
proof -
  have "declines_or_answers rc" if "submit_request_body E i rb v = (Some rc, v')" for rb v v' rc
    using submit_request_body_answer [of E i rb v] that by simp
  moreover have "declines_or_answers rc" if "request_body_poll E i v = (Some rc, v')" for v v' rc
    using request_body_poll_answer [of E i v] that by simp
  ultimately show ?thesis
    using process_request_body_phase_answer
    by (auto simp: pre_access_inspect_def Let_def split: prod.split option.split)
qed

lemma pre_access_read_body_answer:
  "fst (pre_access_read_body E i w) = Some rc \<Longrightarrow> rc = NGX_ERROR \<or> rc = NGX_DONE \<or> 0 < rc"
  by (auto simp: pre_access_read_body_def Let_def split: prod.splits if_splits)

lemma pre_access_handler_answer:
  "fst (ngx_http_coraza_pre_access_handler E w) \<in> {NGX_ERROR, NGX_DONE} \<or>
   declines_or_answers (fst (ngx_http_coraza_pre_access_handler E w))"
proof -
  have "rc = NGX_ERROR \<or> rc = NGX_DONE \<or> 0 < rc" if "pre_access_read_body E i v = (Some rc, v')" for i v v' rc
    using pre_access_read_body_answer [of E i v rc] that by simp
  then show ?thesis
    using process_request_body_phase_answer pre_access_inspect_answer
    by (auto simp: ngx_http_coraza_pre_access_handler_def pre_access_continue_def Let_def
        split: prod.split option.split)
qed

text \<open>
  C40: the range of the phase handlers' answers.  The rewrite handler answers
  \<open>NGX_DECLINED\<close>, which lets nginx go on with the next handler, or a positive
  status; the preaccess handler may also suspend the request (\<open>NGX_DONE\<close>) or
  report that the body could not be read (\<open>NGX_ERROR\<close>).  Neither ever answers
  \<open>NGX_OK\<close>, which would make nginx skip the remaining handlers of the phase, nor
  passes on a negative status of an intervention.
\<close>

theorem phase_handler_answers:
  "(fst (ngx_http_coraza_rewrite_handler E w) = NGX_DECLINED \<or> 0 < fst (ngx_http_coraza_rewrite_handler E w)) \<and>
   (fst (ngx_http_coraza_pre_access_handler E w) \<in> {NGX_DECLINED, NGX_DONE, NGX_ERROR} \<or>
    0 < fst (ngx_http_coraza_pre_access_handler E w))"
  using rewrite_handler_answer [of E w] pre_access_handler_answer [of E w] by auto

section \<open>From the request line to the content phase\<close>

text \<open>
  C3: both phase handlers together. Let the rewrite handler return
  \<open>NGX_DECLINED\<close> for a request without a context in a location with
  \<open>coraza on\<close>, and later the preaccess handler too, directly or after
  waiting for the body, whatever the module has done on the context in between; when
  the preaccess handler ran last the context was not marked by an intervention and
  had not submitted a body, a body is present, and no error page is being served.
  Then one transaction, whose handle is not null, has seen all live request headers
  and was run through phase 1; it was given the whole body byte for byte, or the
  engine said it does not want the body; and it was evaluated in phase 2, which did
  not deny. Phase 1 did not deny either, unless an error page was being served when
  the rewrite handler ended.
\<close>

theorem request_inspected_before_content:
  assumes "module_ctx w = None" "mcf w = Some m" "lc_enable m = 1" "sized_headers (r_headers_in (req w))"
    and "ngx_http_coraza_rewrite_handler E w = (NGX_DECLINED, w1)"
    and "prims E w1 w2" "module_ctx w2 = Some i"
    and "\<not> intervention_triggered (ctxs w2 i)" "\<not> body_submitted (ctxs w2 i)"
    and "ngx_http_coraza_pre_access_handler E w2 = (NGX_DECLINED, w3)"
    and "\<not> r_error_page (req w3)" "r_request_body (req w3) = Some rb" "body_of E rb content"
  shows "\<exists>t created new. t \<noteq> 0 \<and> inspected_headers E t (trace w @ created) w w1 \<and>
    passed_phase2 E t (trace w2 @ new) (trace w3) \<and>
    (body_seen t new = content \<or> new = [Eng t Is_request_body_accessible 0])"
proof -
  obtain j created where j: "module_ctx w1 = Some j" "coraza_transaction (ctxs w1 j) \<noteq> 0"
    "inspected_headers E (coraza_transaction (ctxs w1 j)) (trace w @ created) w w1"
    using rewrite_handler_declined [OF assms(1-5)] by blast
  have "i = j" "coraza_transaction (ctxs w2 i) = coraza_transaction (ctxs w1 j)"
    using prims_current [OF assms(6) j(1)] assms(7) by (auto simp: grows_def)
  moreover have "mcf w2 = Some m"
    using prims_frame [OF assms(6)] rewrite.keeps_conf [of E w] assms(2,5) by simp
  ultimately show ?thesis
    using pre_access_handler_declined [OF assms(7) _ assms(3,8-13) refl] j(2,3) by metis
qed

text \<open>A POST request with a body in memory, from its arrival.\<close>

definition sample_post :: world where
  "sample_post = sample_world\<lparr>req := (req sample_body_world)\<rparr>"

definition sample_post_rewritten :: world where
  "sample_post_rewritten = snd (ngx_http_coraza_rewrite_handler sample_env sample_post)"

lemma sample_post_rewritten:
  "ngx_http_coraza_rewrite_handler sample_env sample_post = (NGX_DECLINED, sample_post_rewritten)"
  "module_ctx sample_post_rewritten = Some 0" "ctxs sample_post_rewritten 0 = zero_ctx\<lparr>coraza_transaction := 2\<rparr>"
  "req sample_post_rewritten = req sample_body_world" "mcf sample_post_rewritten = Some sample_conf"
  by (simp_all add: prod_eq_iff sample_post_rewritten_def sample_post_def sample_body_world_def rewrite_defs
      sample_defs Let_def)

lemma sample_post_accepted:
  "fst (ngx_http_coraza_pre_access_handler sample_env sample_post_rewritten) = NGX_DECLINED"
  "\<not> r_error_page (req (snd (ngx_http_coraza_pre_access_handler sample_env sample_post_rewritten)))"
  "r_request_body (req (snd (ngx_http_coraza_pre_access_handler sample_env sample_post_rewritten))) =
     r_request_body (req sample_body_world)"
  using sample_post_rewritten(2-5)
  by (simp_all add: pre_access_defs sample_env_def sample_conf_def zero_ctx_def sample_body_world_def
      sample_request_def mem_buf_def empty_buf_def Let_def)

theorem request_inspected_before_content_witness:
  "\<exists>t created new. t \<noteq> 0 \<and>
    inspected_headers sample_env t (trace sample_post @ created) sample_post sample_post_rewritten \<and>
    passed_phase2 sample_env t (trace sample_post_rewritten @ new)
      (trace (snd (ngx_http_coraza_pre_access_handler sample_env sample_post_rewritten))) \<and>
    (body_seen t new = [104, 105, 33] \<or> new = [Eng t Is_request_body_accessible 0])"
proof (rule request_inspected_before_content)
  show "module_ctx sample_post = None" "mcf sample_post = Some sample_conf" "lc_enable sample_conf = 1"
    "sized_headers (r_headers_in (req sample_post))"
    by (simp_all add: sample_post_def sample_body_world_def sample_defs sized_headers_def)
  show "body_of sample_env (the (r_request_body (req sample_body_world))) [104, 105, 33]"
    by (simp add: body_of_def sample_body_world_def mem_buf_def empty_buf_def)
  show "r_request_body (req (snd (ngx_http_coraza_pre_access_handler sample_env sample_post_rewritten))) =
      Some (the (r_request_body (req sample_body_world)))"
    unfolding sample_post_accepted(3) by (simp add: sample_body_world_def)
  show "ngx_http_coraza_pre_access_handler sample_env sample_post_rewritten =
      (NGX_DECLINED, snd (ngx_http_coraza_pre_access_handler sample_env sample_post_rewritten))"
    using sample_post_accepted(1) by (simp add: prod_eq_iff)
  show "\<not> intervention_triggered (ctxs sample_post_rewritten 0)" "\<not> body_submitted (ctxs sample_post_rewritten 0)"
    unfolding sample_post_rewritten(3) by (simp_all add: zero_ctx_def)
qed (use sample_post_rewritten sample_post_accepted(2) in simp_all)

end
