(* ===== verification/Response.thy ===== *)
theory Response
  imports Body_Filter
begin

text \<open>
  The two response filters together: the header filter holds the headers of a
  response back, and the body filter is called with one chain after the other,
  the last of which carries the end of the body.  What the theories of the single
  filters show of one call is composed along the whole response.
\<close>

section \<open>A response as a sequence of calls\<close>

definition body_calls :: "env \<Rightarrow> ngx_buf list list \<Rightarrow> world \<Rightarrow> world" where
  "body_calls E chs w = foldl (\<lambda>w ch. snd (ngx_http_coraza_body_filter E ch w)) w chs"

definition response_calls :: "env \<Rightarrow> ngx_buf list list \<Rightarrow> world \<Rightarrow> world" where
  "response_calls E chs w = body_calls E chs (snd (ngx_http_coraza_header_filter E w))"

lemma body_calls_simps [simp]:
  "body_calls E [] w = w"
  "body_calls E (ch # chs) w = body_calls E chs (snd (ngx_http_coraza_body_filter E ch w))"
  "body_calls E (as @ bs) w = body_calls E bs (body_calls E as w)"
  by (simp_all add: body_calls_def)

lemma body_filter_current:
  assumes "module_ctx w = Some i"
  shows "module_ctx (snd (ngx_http_coraza_body_filter E ch w)) = Some i"
    "grows (ctxs w i) (ctxs (snd (ngx_http_coraza_body_filter E ch w)) i)"
  using prims_current [OF body_filter.by_prims assms, of E ch] by simp_all

text \<open>A denial is never forgotten.\<close>

lemma body_calls_triggered:
  assumes "module_ctx w = Some i" "intervention_triggered (ctxs w i)"
  shows "intervention_triggered (ctxs (body_calls E chs w) i)"
  using assms
proof (induction chs arbitrary: w)
  case (Cons ch chs)
  then show ?case using body_filter_current [OF Cons.prems(1), of E ch] by (simp add: grows_def)
qed simp

section \<open>While the response is held back\<close>

definition middle_chain :: "(nat \<Rightarrow> bytes) \<Rightarrow> ngx_buf list \<Rightarrow> bool" where
  "middle_chain F ch \<longleftrightarrow> ch \<noteq> [] \<and> (\<forall>b \<in> set ch. good_buf F b \<and> \<not> b_last_buf b)"

definition final_chain :: "(nat \<Rightarrow> bytes) \<Rightarrow> ngx_buf list \<Rightarrow> bool" where
  "final_chain F ch \<longleftrightarrow> (\<forall>b \<in> set ch. good_buf F b) \<and> (\<exists>b \<in> set ch. b_last_buf b)"

text \<open>The state between two calls, as far as the next call relies on it.\<close>

definition holding :: "(nat \<Rightarrow> bytes) \<Rightarrow> nat \<Rightarrow> world \<Rightarrow> bool" where
  "holding F i w \<longleftrightarrow> module_ctx w = Some i \<and> headers_delayed (ctxs w i) \<and> \<not> r_error_page (req w) \<and>
     held_ok F (ctxs w i)"

lemma body_call_held:
  assumes h: "holding F i w" and tr: "\<not> intervention_triggered (ctxs w i)" and F: "file_contents E F"
    and ch: "middle_chain F ch"
    and small: "pending_bytes (ctxs w i) + length (chain_content F ch) \<le> NGX_HTTP_CORAZA_MAX_DELAYED_BODY"
    and nt: "\<not> intervention_triggered (ctxs (snd (ngx_http_coraza_body_filter E ch w)) i)"
  shows "holds_chain E F (coraza_transaction (ctxs w i)) i ch w (snd (ngx_http_coraza_body_filter E ch w)) \<and>
    holding F i (snd (ngx_http_coraza_body_filter E ch w))"
proof -
  let ?w = "snd (ngx_http_coraza_body_filter E ch w)" and ?t = "coraza_transaction (ctxs w i)"
  have w: "module_ctx w = Some i" "headers_delayed (ctxs w i)" "\<not> r_error_page (req w)" "held_ok F (ctxs w i)"
    using h by (simp_all add: holding_def)
  have c: "ch \<noteq> []" "\<forall>b \<in> set ch. good_buf F b" "\<forall>b \<in> set ch. \<not> b_last_buf b"
    using ch by (simp_all add: middle_chain_def)
  have lt: "pending_bytes (ctxs w i) + length (chain_content F ch) < 2 ^ 64" "length (chain_content F ch) < 2 ^ 63"
    using small by (simp_all add: NGX_HTTP_CORAZA_MAX_DELAYED_BODY_def)
  have "\<not> released E F ?t i ch w ?w"
  proof
    assume "released E F ?t i ch w ?w"
    then obtain v where v: "holds_chain E F ?t i ch w v"
      "pending_bytes (ctxs v i) > NGX_HTTP_CORAZA_MAX_DELAYED_BODY"
      using c(3) unfolding released_def by blast
    from kept_count [OF v(1) c(3) lt(1)] v(2) small show False by simp
  qed
  moreover have "\<not> replaced i w ?w" using nt by (simp add: replaced_def)
  ultimately have s: "still_held E F ?t i ch w ?w"
    using body_filter_delayed [OF w(1) tr w(2,3) c(1) F c(2)] by blast
  then have hc: "holds_chain E F ?t i ch w ?w" by (simp add: still_held_def)
  then have "headers_delayed (ctxs ?w i)" "\<not> r_error_page (req ?w)"
    using w(2,3) same_request_sel(1) [of w ?w] by (auto simp: holds_chain_def same_flags_def)
  then show ?thesis
    using hc still_held_ok [OF s w(4) lt(2)] body_filter_current(1) [OF w(1)] by (simp add: holding_def)
qed

lemma body_calls_held:
  assumes "holding F i w" "\<not> intervention_triggered (ctxs w i)" "file_contents E F"
    and "\<forall>ch \<in> set chs. middle_chain F ch"
    and "pending_bytes (ctxs w i) + length (chain_content F (concat chs)) \<le> NGX_HTTP_CORAZA_MAX_DELAYED_BODY"
    and "\<not> intervention_triggered (ctxs (body_calls E chs w) i)"
  shows "holds_chain E F (coraza_transaction (ctxs w i)) i (concat chs) w (body_calls E chs w) \<and>
    holding F i (body_calls E chs w)"
  using assms
proof (induction chs arbitrary: w)
  case Nil
  then show ?case by (simp add: holds_chain_refl)
next
  case (Cons ch chs)
  let ?w = "snd (ngx_http_coraza_body_filter E ch w)" and ?t = "coraza_transaction (ctxs w i)"
  have cur: "module_ctx w = Some i" using Cons.prems(1) by (simp add: holding_def)
  have nt: "\<not> intervention_triggered (ctxs ?w i)"
    using Cons.prems(6) body_calls_triggered [OF body_filter_current(1) [OF cur, of E ch], of E chs] by auto
  have mid: "middle_chain F ch" using Cons.prems(4) by simp
  have one: "holds_chain E F ?t i ch w ?w" "holding F i ?w"
    using body_call_held [OF Cons.prems(1-3) mid _ nt] Cons.prems(5) by simp_all
  have t: "coraza_transaction (ctxs ?w i) = ?t" using one(1) by (simp add: holds_chain_def same_flags_def)
  have lt: "pending_bytes (ctxs w i) + length (chain_content F ch) < 2 ^ 64"
    using Cons.prems(5) by (simp add: NGX_HTTP_CORAZA_MAX_DELAYED_BODY_def)
  have "pending_bytes (ctxs ?w i) = pending_bytes (ctxs w i) + length (chain_content F ch)"
    using kept_count [OF one(1) _ lt] mid by (simp add: middle_chain_def)
  then have rest: "holds_chain E F ?t i (concat chs) ?w (body_calls E chs ?w)" "holding F i (body_calls E chs ?w)"
    using Cons.IH [OF one(2) nt Cons.prems(3)] Cons.prems(4-6) t by simp_all
  then show ?case using holds_chain_trans [OF one(1) rest(1)] by simp
qed

section \<open>The whole response\<close>

text \<open>A poll that does not ask for a replacement leaves the request alone.\<close>

lemma install_location_only_redirects:
  "fst (ngx_http_coraza_process_intervention E (Some i) False w) \<le> 0 \<Longrightarrow>
   req (snd (ngx_http_coraza_process_intervention E (Some i) False w)) = req w"
  by (auto simp: ngx_http_coraza_process_intervention_def engine_call cgo_def Let_def split: option.splits if_splits)

lemma poll_req:
  "fst (ngx_http_coraza_poll_after_process E (Some i) False n w) \<le> 0 \<Longrightarrow>
   req (snd (ngx_http_coraza_poll_after_process E (Some i) False n w)) = req w"
  by (auto simp: ngx_http_coraza_poll_after_process_def install_location_only_redirects split: if_splits)

lemma header_verdict_holds:
  assumes "header_verdict E i m n w = (rc, w')" "\<not> r_error_page (req w)" "delays_headers m (req w)"
    and "\<not> intervention_triggered (ctxs w' i)"
  shows "headers_delayed (ctxs w' i) \<and> pending_chain (ctxs w' i) = [] \<and>
    coraza_transaction (ctxs w' i) = coraza_transaction (ctxs w i) \<and>
    pending_bytes (ctxs w' i) = pending_bytes (ctxs w i) \<and> \<not> r_error_page (req w') \<and> adds holds_back w w'"
proof -
  obtain ret w2 where p: "ngx_http_coraza_poll_after_process E (Some i) False n (polled_state E i w) = (ret, w2)"
    by fastforce
  note w2 = header_verdict_poll [OF p]
  have e: "\<not> r_error_page (req w2)" using same_request_sel(1) [OF w2(2)] assms(2) by simp
  have ret: "ret \<le> 0"
    using assms(1,4) e unfolding header_verdict_eq [OF p, of m]
    by (auto simp: run_next_header_filter_def ngx_http_filter_finalize_request_def Let_def
        split: prod.splits if_splits)
  then have rq: "req w2 = req w"
    using poll_req [of E i n "polled_state E i w"] p by (simp add: polled_state_sel)
  have "w' = upd_ctx i (\<lambda>c. c\<lparr>headers_delayed := True, pending_chain := []\<rparr>)
      (if response_body_processable (ctxs w2 i) then upd_req (\<lambda>r. r\<lparr>r_filter_need_in_memory := True\<rparr>) w2 else w2)"
    using assms(1-3) ret e rq unfolding header_verdict_eq [OF p, of m] by simp
  moreover have "pending_bytes (ctxs w2 i) = pending_bytes (ctxs w i)"
    "coraza_transaction (ctxs w2 i) = coraza_transaction (ctxs w i)"
    unfolding w2(3) by (simp_all add: polled_state_def engine_call cgo_def Let_def)
  ultimately show ?thesis using w2(1) e by (auto simp: adds_def)
qed

text \<open>What the header filter leaves when it holds a response back.\<close>

lemma header_filter_holds:
  assumes "module_ctx w = Some i" "mcf w = Some m" "\<not> intervention_triggered (ctxs w i)"
    and "\<not> processed (ctxs w i)" "\<forall>h \<in> set (response_pairs E w). int_sized h"
    and "\<not> r_error_page (req w)" "delays_headers m (req w)" "pending_bytes (ctxs w i) = 0"
    and run: "ngx_http_coraza_header_filter E w = (NGX_OK, w')"
    and nt: "\<not> intervention_triggered (ctxs w' i)"
  shows "holding F i w' \<and> pending_bytes (ctxs w' i) = 0 \<and> pending_chain (ctxs w' i) = [] \<and>
    coraza_transaction (ctxs w' i) = coraza_transaction (ctxs w i) \<and>
    (\<exists>pre post. trace w' = trace w @ pre @ post \<and> (\<forall>e \<in> set (pre @ post). \<not> forwards e) \<and>
       response_seen (coraza_transaction (ctxs w i)) pre = response_pairs E w)"
proof -
  let ?t = "coraza_transaction (ctxs w i)"
  obtain pre w1 where pre: "trace w1 = trace w @ pre" "\<forall>e \<in> set pre. \<not> forwards e"
      "response_seen ?t pre = response_pairs E w"
    and w1: "req w1 = req w" "same_response (ctxs w i) (ctxs w1 i)" "module_ctx w1 = Some i"
    and ph: "header_phase3 E i m w1 = (NGX_OK, w')"
    using header_filter_phase3 [OF assms(1-5) run] by auto
  let ?c = "Process_response_headers (response_status (req w)) (response_version (r_http_version (req w)))"
  let ?n = "eng E (trace w1) ?t ?c"
  let ?w2 = "emit (Eng ?t ?c ?n) w1"
  have v: "header_verdict E i m ?n ?w2 = (NGX_OK, w')"
    using ph w1(1,2) by (simp add: header_phase3_def coraza_wrapper_defs cgo_def Let_def)
  have hv: "headers_delayed (ctxs w' i)" "pending_chain (ctxs w' i) = []" "coraza_transaction (ctxs w' i) = ?t"
    "pending_bytes (ctxs w' i) = 0" "\<not> r_error_page (req w')" "adds holds_back ?w2 w'"
    using header_verdict_holds [OF v _ _ nt] w1(1,2) assms(6,7,8) by simp_all
  obtain post where post: "trace w' = trace ?w2 @ post" "\<forall>e \<in> set post. \<not> forwards e"
    using hv(6) by (auto simp: adds_def holds_back_def)
  have cur: "module_ctx w' = Some i"
    using header_filter.keeps_current [OF assms(1), of E] run by simp
  have "trace w' = trace w @ pre @ (Eng ?t ?c ?n # post)" using post(1) pre(1) by simp
  moreover have "\<forall>e \<in> set (pre @ Eng ?t ?c ?n # post). \<not> forwards e" using pre(2) post(2) by auto
  moreover have "holding F i w'"
    using hv cur by (simp add: holding_def held_ok_def)
  ultimately show ?thesis using hv(2-4) pre(3) by blast
qed

lemma final_call_released:
  assumes h: "holding F i w" and tr: "\<not> intervention_triggered (ctxs w i)" and F: "file_contents E F"
    and ch: "final_chain F ch"
    and nt: "\<not> intervention_triggered (ctxs (snd (ngx_http_coraza_body_filter E ch w)) i)"
  shows "released E F (coraza_transaction (ctxs w i)) i ch w (snd (ngx_http_coraza_body_filter E ch w))"
proof -
  have w: "module_ctx w = Some i" "headers_delayed (ctxs w i)" "\<not> r_error_page (req w)"
    using h by (simp_all add: holding_def)
  have c: "ch \<noteq> []" "\<forall>b \<in> set ch. good_buf F b" using ch by (auto simp: final_chain_def)
  show ?thesis
    using body_filter_delayed [OF w(1) tr w(2,3) c(1) F c(2)] nt ch
    by (auto simp: replaced_def still_held_def final_chain_def)
qed

lemma body_calls_deliver:
  assumes h: "holding F i w" and tr: "\<not> intervention_triggered (ctxs w i)" and F: "file_contents E F"
    and chs: "\<forall>ch \<in> set chs. middle_chain F ch" "final_chain F lst"
    and small: "pending_bytes (ctxs w i) + length (chain_content F (concat chs)) \<le> NGX_HTTP_CORAZA_MAX_DELAYED_BODY"
    and nt: "\<not> intervention_triggered (ctxs (body_calls E (chs @ [lst]) w) i)"
  shows "\<exists>v r rc rc'. holds_chain E F (coraza_transaction (ctxs w i)) i (concat (chs @ [lst])) w v \<and>
    trace (body_calls E (chs @ [lst]) w) = trace v @ (if rc = NGX_ERROR then [Next_header_filter r rc]
      else [Next_header_filter r rc, Next_body_filter (pending_chain (ctxs v i)) rc'])"
proof -
  let ?w1 = "body_calls E chs w" and ?t = "coraza_transaction (ctxs w i)"
  let ?w2 = "snd (ngx_http_coraza_body_filter E lst ?w1)"
  have cur1: "module_ctx ?w1 = Some i"
  proof -
    have "module_ctx w = Some i" using h by (simp add: holding_def)
    then show ?thesis by (induction chs arbitrary: w) (simp_all add: body_filter_current)
  qed
  have nt1: "\<not> intervention_triggered (ctxs ?w1 i)"
    using nt body_filter_current(2) [OF cur1, of E lst] by (auto simp: grows_def)
  have a: "holds_chain E F ?t i (concat chs) w ?w1" "holding F i ?w1"
    using body_calls_held [OF h tr F chs(1) small nt1] by simp_all
  have t: "coraza_transaction (ctxs ?w1 i) = ?t" using a(1) by (simp add: holds_chain_def same_flags_def)
  have "released E F ?t i lst ?w1 ?w2"
    using final_call_released [OF a(2) nt1 F chs(2)] nt t by simp
  then obtain v r rc where v: "holds_chain E F ?t i lst ?w1 v"
    and out: "if rc = NGX_ERROR then trace ?w2 = trace v @ [Next_header_filter r rc]
         else \<exists>rc'. trace ?w2 = trace v @ [Next_header_filter r rc, Next_body_filter (pending_chain (ctxs v i)) rc']"
    unfolding released_def by blast
  have "holds_chain E F ?t i (concat (chs @ [lst])) w v" using holds_chain_trans [OF a(1) v] by simp
  moreover obtain rc' where "trace ?w2 = trace v @ (if rc = NGX_ERROR then [Next_header_filter r rc]
      else [Next_header_filter r rc, Next_body_filter (pending_chain (ctxs v i)) rc'])"
    using out by (auto split: if_splits)
  ultimately show ?thesis unfolding body_calls_simps by blast
qed

section \<open>Properties\<close>

text \<open>
  C5: take a response that is not an error page, whose headers (all of lengths that fit
  a C \<open>int\<close>) the header filter sees for the first time and holds back, returning
  \<open>NGX_OK\<close>, and that is not denied, by phase 3 or later.  Whatever chains the body
  arrives in, as long as the content before the last chain stays within the cap on the
  delayed body, nothing is handed on before the last chain has been seen.  By then the
  engine has been shown exactly the headers, it has been shown exactly the body if it
  had said the body is to be inspected, and phase 4 has passed.  Then the headers are
  handed on; if the next header filter fails nothing follows them, otherwise one chain
  follows with exactly the content of all chains in their order.
\<close>

theorem delayed_response_delivered:
  assumes "module_ctx w = Some i" "mcf w = Some m" "\<not> intervention_triggered (ctxs w i)"
    and "\<not> processed (ctxs w i)" "\<forall>h \<in> set (response_pairs E w). int_sized h"
    and "\<not> r_error_page (req w)" "delays_headers m (req w)" "pending_bytes (ctxs w i) = 0"
    and "ngx_http_coraza_header_filter E w = (NGX_OK, w1)"
    and "file_contents E F" "\<forall>ch \<in> set chs. middle_chain F ch" "final_chain F lst"
    and "length (chain_content F (concat chs)) \<le> NGX_HTTP_CORAZA_MAX_DELAYED_BODY"
    and "\<not> intervention_triggered (ctxs (response_calls E (chs @ [lst]) w) i)"
  shows "\<exists>hdr verdict body r rc out rc'.
    trace (response_calls E (chs @ [lst]) w) = trace w @ hdr @ verdict @ body @
      (if rc = NGX_ERROR then [Next_header_filter r rc]
       else [Next_header_filter r rc, Next_body_filter out rc']) \<and>
    (\<forall>e \<in> set (hdr @ verdict @ body). \<not> forwards e) \<and>
    response_seen (coraza_transaction (ctxs w i)) hdr = response_pairs E w \<and>
    (response_body_processable (ctxs w1 i) \<longrightarrow>
       response_body_seen (coraza_transaction (ctxs w i)) body = chain_content F (concat (chs @ [lst]))) \<and>
    phase4_passed E (coraza_transaction (ctxs w i)) (trace w1) body \<and>
    chain_content F out = chain_content F (concat (chs @ [lst]))"
proof -
  let ?t = "coraza_transaction (ctxs w i)"
  have run: "response_calls E (chs @ [lst]) w = body_calls E (chs @ [lst]) w1"
    using assms(9) by (simp add: response_calls_def)
  have cur: "module_ctx w1 = Some i" using header_filter.keeps_current [OF assms(1), of E] assms(9) by simp
  have nt: "\<not> intervention_triggered (ctxs w1 i)"
    using assms(14) body_calls_triggered [OF cur, of E "chs @ [lst]"] unfolding run by blast
  have w1: "holding F i w1" "pending_bytes (ctxs w1 i) = 0" "pending_chain (ctxs w1 i) = []"
    "coraza_transaction (ctxs w1 i) = ?t"
    and "\<exists>pre post. trace w1 = trace w @ pre @ post \<and> (\<forall>e \<in> set (pre @ post). \<not> forwards e) \<and>
       response_seen ?t pre = response_pairs E w"
    using header_filter_holds [OF assms(1-9) nt, of F] by blast+
  then obtain hdr verdict where hv: "trace w1 = trace w @ hdr @ verdict"
    "\<forall>e \<in> set (hdr @ verdict). \<not> forwards e" "response_seen ?t hdr = response_pairs E w" by blast
  have small: "pending_bytes (ctxs w1 i) + length (chain_content F (concat chs)) \<le> NGX_HTTP_CORAZA_MAX_DELAYED_BODY"
    using assms(13) w1(2) by simp
  obtain v r rc rc' where v: "holds_chain E F ?t i (concat (chs @ [lst])) w1 v"
    and out: "trace (body_calls E (chs @ [lst]) w1) = trace v @ (if rc = NGX_ERROR then [Next_header_filter r rc]
      else [Next_header_filter r rc, Next_body_filter (pending_chain (ctxs v i)) rc'])"
    using body_calls_deliver [OF w1(1) nt assms(10-12) small] assms(14) unfolding run w1(4) by blast
  have "\<exists>b \<in> set (concat (chs @ [lst])). b_last_buf b" using assms(12) by (auto simp: final_chain_def)
  with v obtain body where body: "trace v = trace w1 @ body" "\<forall>e \<in> set body. \<not> forwards e"
    "response_body_processable (ctxs w1 i) \<longrightarrow> response_body_seen ?t body = chain_content F (concat (chs @ [lst]))"
    "phase4_passed E ?t (trace w1) body"
    unfolding holds_chain_def shown_def holds_back_def by auto
  have "chain_content F (pending_chain (ctxs v i)) = chain_content F (concat (chs @ [lst]))"
    using v w1(3) by (simp add: holds_chain_def)
  moreover have "trace (response_calls E (chs @ [lst]) w) = trace w @ hdr @ verdict @ body @
      (if rc = NGX_ERROR then [Next_header_filter r rc]
       else [Next_header_filter r rc, Next_body_filter (pending_chain (ctxs v i)) rc'])"
    unfolding run out body(1) hv(1) by simp
  moreover have "\<forall>e \<in> set (hdr @ verdict @ body). \<not> forwards e" using hv(2) body(2) by auto
  ultimately show ?thesis using hv(3) body(3,4) by blast
qed

text \<open>
  For the witness: a response in two chains, the headers submitted one by one
  (the array for the batch cannot be allocated).
\<close>

definition delivery_env :: env where
  "delivery_env = empty_file_env\<lparr>alloc_ok := \<lambda>_ n. n \<noteq> SIZEOF_ARRAY\<rparr>"

lemmas header_defs =
  ngx_http_coraza_header_filter_def submit_response_headers_def ngx_http_coraza_headers_out_def
  ngx_http_coraza_add_response_header_def ngx_http_coraza_resolv_header_server_def
  ngx_http_coraza_resolv_header_date_def ngx_http_coraza_resolv_header_content_length_def
  ngx_http_coraza_resolv_header_content_type_def ngx_http_coraza_resolv_header_last_modified_def
  ngx_http_coraza_resolv_header_connection_def ngx_http_coraza_resolv_header_transfer_encoding_def
  ngx_http_coraza_resolv_header_vary_def hoisted_def flush_response_headers_def header_phase3_def
  header_verdict_def ngx_http_coraza_poll_after_process_def delays_headers_def
  ngx_http_coraza_is_sse_response_def

lemma sample_delivery_header:
  "\<exists>w1. ngx_http_coraza_header_filter delivery_env sample_response_world = (NGX_OK, w1) \<and>
     ctxs w1 0 = (ctxs sample_response_world 0)\<lparr>processed := True, resp_hdr_collect := None,
       response_body_processable := True, headers_delayed := True, pending_chain := []\<rparr> \<and> module_ctx w1 = Some 0 \<and>
     \<not> r_error_page (req w1) \<and> \<not> r_header_sent (req w1)"
  by (simp add: header_defs delivery_env_def engine_call cgo_def palloc_def sample_body_defs Let_def
      dec.simps ngx_string_def)

lemma sample_delivery_body:
  assumes "module_ctx w = Some 0" "\<not> r_error_page (req w)" "\<not> r_header_sent (req w)"
    "ctxs w 0 = (ctxs sample_response_world 0)\<lparr>processed := True, resp_hdr_collect := None,
       response_body_processable := True, headers_delayed := True, pending_chain := []\<rparr>"
  shows "\<not> intervention_triggered (ctxs (body_calls delivery_env [[mem_buf [104]], sample_chain] w) 0)"
  using assms
  by (simp add: body_defs delivery_env_def sample_body_defs Let_def NGX_HTTP_CORAZA_MAX_DELAYED_BODY_def)

lemma sample_delivery_sizes: "\<forall>h \<in> set (response_pairs delivery_env sample_response_world). int_sized h"
  by (simp add: response_pairs_def dedicated_pairs_def dedicated_specs_def pairs_defs delivery_env_def
      sample_body_defs hoisted_def elt_pair_def dec.simps int_sized_def ngx_string_def)

theorem delayed_response_delivered_witness:
  "\<exists>pre r rc out rc'. trace (response_calls delivery_env [[mem_buf [104]], sample_chain] sample_response_world) =
      pre @ (if rc = NGX_ERROR then [Next_header_filter r rc]
             else [Next_header_filter r rc, Next_body_filter out rc']) \<and>
    chain_content (\<lambda>_. []) out = [104, 104, 105, 33]"
proof -
  let ?w = sample_response_world and ?E = delivery_env and ?F = "\<lambda>_. [] :: bytes"
  let ?chs = "[[mem_buf [104]]]"
  obtain w1 where w1: "ngx_http_coraza_header_filter ?E ?w = (NGX_OK, w1)"
    "ctxs w1 0 = (ctxs ?w 0)\<lparr>processed := True, resp_hdr_collect := None,
       response_body_processable := True, headers_delayed := True, pending_chain := []\<rparr>"
    "module_ctx w1 = Some 0" "\<not> r_error_page (req w1)" "\<not> r_header_sent (req w1)"
    using sample_delivery_header by blast
  have h: "module_ctx ?w = Some 0" "mcf ?w = Some sample_conf" "\<not> intervention_triggered (ctxs ?w 0)"
    "\<not> processed (ctxs ?w 0)" "\<not> r_error_page (req ?w)" "pending_bytes (ctxs ?w 0) = 0"
    by (simp_all add: sample_body_defs)
  have d: "delays_headers sample_conf (req ?w)"
    by (simp add: sample_body_defs delays_headers_def ngx_http_coraza_is_sse_response_def ngx_string_def)
  have c: "file_contents ?E ?F" "\<forall>ch \<in> set ?chs. middle_chain ?F ch" "final_chain ?F sample_chain"
    "length (chain_content ?F (concat ?chs)) \<le> NGX_HTTP_CORAZA_MAX_DELAYED_BODY"
    "chain_content ?F (concat (?chs @ [sample_chain])) = [104, 104, 105, 33]"
    by (simp_all add: file_contents_def delivery_env_def empty_file_env_def middle_chain_def final_chain_def
        good_buf_def sample_chain_def mem_buf_def empty_buf_def buf_content_def ngx_buf_in_memory_def
        NGX_HTTP_CORAZA_MAX_DELAYED_BODY_def)
  have "\<not> intervention_triggered (ctxs (response_calls ?E (?chs @ [sample_chain]) ?w) 0)"
    using sample_delivery_body [OF w1(3-5,2)] by (simp add: response_calls_def w1(1))
  from delayed_response_delivered [OF h(1-4) sample_delivery_sizes h(5) d h(6) w1(1) c(1-4) this]
  obtain hdr verdict body r rc out rc' where
    "trace (response_calls ?E (?chs @ [sample_chain]) ?w) = trace ?w @ hdr @ verdict @ body @
      (if rc = NGX_ERROR then [Next_header_filter r rc]
       else [Next_header_filter r rc, Next_body_filter out rc'])"
    "chain_content ?F out = [104, 104, 105, 33]"
    unfolding c(5) by (elim exE conjE) (rule that)
  then have "trace (response_calls ?E [[mem_buf [104]], sample_chain] ?w) = (trace ?w @ hdr @ verdict @ body) @
      (if rc = NGX_ERROR then [Next_header_filter r rc]
       else [Next_header_filter r rc, Next_body_filter out rc'])" "chain_content ?F out = [104, 104, 105, 33]"
    by simp_all
  then show ?thesis by blast
qed

end
