(* ===== verification/Buffer.thy ===== *)
theory Buffer
  imports Utils
begin

text \<open>
  The two functions of \<open>ngx_http_coraza_utils.c\<close> that write into memory they
  allocate, at the level of the memory: a block has the size that was asked for and
  indeterminate bytes, every store and every copy names a position, and one that
  does not lie inside the block is a fault.  The lemmas \<open>buf_str_to_char_refines\<close>
  and \<open>buf_pack_headers_refines\<close> show that no input leads to a fault and that what
  is left in the block is the byte string the functions of \<open>Utils\<close> give.
\<close>

section \<open>Runs that can fault\<close>

datatype fault = Assert_failed | Out_of_bounds | Bad_free

definition bind_run :: "fault + 'a \<Rightarrow> ('a \<Rightarrow> fault + 'b) \<Rightarrow> fault + 'b" where
  "bind_run m k = (case m of Inl e \<Rightarrow> Inl e | Inr x \<Rightarrow> k x)"

definition assert_run :: "bool \<Rightarrow> fault + 'a \<Rightarrow> fault + 'a" where
  "assert_run b k = (if b then k else Inl Assert_failed)"

lemma run_simps [simp]:
  "bind_run (Inl e) k = Inl e"
  "bind_run (Inr x) k = k x"
  "assert_run True m = m"
  "assert_run False m = Inl Assert_failed"
  by (simp_all add: bind_run_def assert_run_def)

section \<open>Blocks of memory\<close>

text \<open>The reads \<open>buf[i]\<close> and \<open>buf[i .. i + n)\<close>.\<close>

definition byte_of :: "bytes \<Rightarrow> nat \<Rightarrow> fault + u_char" where
  "byte_of buf i = (if i < length buf then Inr (buf ! i) else Inl Out_of_bounds)"

definition slice_of :: "bytes \<Rightarrow> nat \<Rightarrow> nat \<Rightarrow> fault + bytes" where
  "slice_of buf i n =
     (if i + n \<le> length buf then Inr (take n (drop i buf)) else Inl Out_of_bounds)"

lemma byte_of_append [simp]: "byte_of (pre @ b # bs) (length pre) = Inr b"
  by (simp add: byte_of_def)

lemma slice_of_append [simp]: "slice_of (pre @ s @ post) (length pre) (length s) = Inr s"
  by (simp add: slice_of_def)

text \<open>
  \<open>ngx_pnalloc\<close>: a block of exactly \<open>n\<close> bytes, which hold whatever was there
  before (the parameter \<open>J\<close>).
\<close>

definition pnalloc_buf :: "(nat \<Rightarrow> u_char) \<Rightarrow> env \<Rightarrow> nat \<Rightarrow> world \<Rightarrow> bytes option \<times> world" where
  "pnalloc_buf J E n w =
     (let (ok, w) = palloc E n w in (if ok then Some (map J [0..<n]) else None, w))"

text \<open>The store \<open>buf[i] = b\<close> and \<open>ngx_memcpy(buf + i, s, s.len)\<close>.\<close>

definition store_at :: "bytes \<Rightarrow> nat \<Rightarrow> u_char \<Rightarrow> fault + bytes" where
  "store_at buf i b = (if i < length buf then Inr (buf[i := b]) else Inl Out_of_bounds)"

definition copy_to :: "bytes \<Rightarrow> nat \<Rightarrow> bytes \<Rightarrow> fault + bytes" where
  "copy_to buf i s =
     (if i + length s \<le> length buf then Inr (take i buf @ s @ drop (i + length s) buf)
      else Inl Out_of_bounds)"

text \<open>
  The pointer walk over a block: \<open>*p++ = b\<close>, and the copy of a counted string that
  is skipped for an empty one.  The state is the block and the offset of \<open>p\<close> in it.
\<close>

definition put_byte :: "u_char \<Rightarrow> bytes \<times> nat \<Rightarrow> fault + bytes \<times> nat" where
  "put_byte b = (\<lambda>(buf, p). bind_run (store_at buf p b) (\<lambda>buf. Inr (buf, p + 1)))"

definition put_string :: "bytes \<Rightarrow> bytes \<times> nat \<Rightarrow> fault + bytes \<times> nat" where
  "put_string s = (\<lambda>(buf, p).
     if length s \<noteq> 0 then bind_run (copy_to buf p s) (\<lambda>buf. Inr (buf, p + length s))
     else Inr (buf, p))"

section \<open>The functions of \<open>ngx_http_coraza_utils.c\<close>\<close>

definition buf_str_to_char ::
  "(nat \<Rightarrow> u_char) \<Rightarrow> env \<Rightarrow> ngx_str \<Rightarrow> world \<Rightarrow> fault + bytes option \<times> world" where
  "buf_str_to_char J E a w =
     (let (str, w) = pnalloc_buf J E (length a + 1) w in
      case str of
        None \<Rightarrow> Inr (None, w)
      | Some buf \<Rightarrow>
          bind_run (if length a > 0 then copy_to buf 0 a else Inr buf) (\<lambda>buf.
          bind_run (store_at buf (length a) 0) (\<lambda>buf.
          Inr (Some buf, w))))"

text \<open>One turn of the second loop of \<open>ngx_http_coraza_pack_headers\<close>, and the loop.\<close>

definition put_pair :: "header \<Rightarrow> bytes \<times> nat \<Rightarrow> fault + bytes \<times> nat" where
  "put_pair h bp =
     (let nlen = word_of_nat (length (h_name h)); vlen = word_of_nat (length (h_value h)) in
      bind_run (put_byte (byte_at nlen 8) bp) (\<lambda>bp.
      bind_run (put_byte (byte_at nlen 0) bp) (\<lambda>bp.
      bind_run (put_string (h_name h) bp) (\<lambda>bp.
      bind_run (put_byte (byte_at vlen 24) bp) (\<lambda>bp.
      bind_run (put_byte (byte_at vlen 16) bp) (\<lambda>bp.
      bind_run (put_byte (byte_at vlen 8) bp) (\<lambda>bp.
      bind_run (put_byte (byte_at vlen 0) bp) (\<lambda>bp.
      put_string (h_value h) bp))))))))"

fun put_pairs :: "header list \<Rightarrow> bytes \<times> nat \<Rightarrow> fault + bytes \<times> nat" where
  "put_pairs [] bp = Inr bp"
| "put_pairs (h # hs) bp = bind_run (put_pair h bp) (put_pairs hs)"

definition buf_pack_headers ::
  "(nat \<Rightarrow> u_char) \<Rightarrow> env \<Rightarrow> header list \<Rightarrow> world
   \<Rightarrow> fault + (bytes option \<times> size_t) option \<times> world" where
  "buf_pack_headers J E pairs w =
     (case pack_total pairs 0 of
        None \<Rightarrow> Inr (None, w)
      | Some tot \<Rightarrow>
          if tot = 0 then Inr (Some (None, 0), w)
          else
            (let (out, w) = pnalloc_buf J E (unat tot) w in
             case out of
               None \<Rightarrow> Inr (None, w)
             | Some buf \<Rightarrow>
                 bind_run (put_pairs pairs (buf, 0)) (\<lambda>(buf, p).
                 Inr (Some (Some buf, tot), w))))"

section \<open>No store leaves the block\<close>

text \<open>
  The part of the block before \<open>p\<close> is written, the part from \<open>p\<close> on is \<open>r\<close>: a write
  that fits \<open>r\<close> moves the border and touches nothing else.
\<close>

lemma put_byte_fits:
  "k < length r \<Longrightarrow>
   put_byte b (d @ drop k r, length d) = Inr ((d @ [b]) @ drop (k + 1) r, length (d @ [b]))"
  by (simp add: put_byte_def store_at_def Cons_nth_drop_Suc [symmetric])

lemma put_string_fits:
  "k + length s \<le> length r \<Longrightarrow>
   put_string s (d @ drop k r, length d)
     = Inr ((d @ s) @ drop (k + length s) r, length (d @ s))"
  by (auto simp: put_string_def copy_to_def add.commute)

lemma put_pair_fits:
  assumes "length (pack_pair h) \<le> length r"
  shows "put_pair h (d @ r, length d)
       = Inr ((d @ pack_pair h) @ drop (length (pack_pair h)) r, length (d @ pack_pair h))"
proof -
  let ?n = "word_of_nat (length (h_name h)) :: size_t" and ?v = "word_of_nat (length (h_value h)) :: size_t"
  let ?k = "length (h_name h)" and ?l = "length (h_value h)"
  let ?d1 = "d @ [byte_at ?n 8]"
  let ?d2 = "?d1 @ [byte_at ?n 0]"
  let ?d3 = "?d2 @ h_name h"
  let ?d4 = "?d3 @ [byte_at ?v 24]"
  let ?d5 = "?d4 @ [byte_at ?v 16]"
  let ?d6 = "?d5 @ [byte_at ?v 8]"
  let ?d7 = "?d6 @ [byte_at ?v 0]"
  have len: "6 + ?k + ?l \<le> length r" using assms by simp
  have b: "0 < length r" "0 + 1 < length r" "0 + 1 + 1 + ?k \<le> length r"
    "0 + 1 + 1 + ?k < length r" "0 + 1 + 1 + ?k + 1 < length r" "0 + 1 + 1 + ?k + 1 + 1 < length r"
    "0 + 1 + 1 + ?k + 1 + 1 + 1 < length r" "0 + 1 + 1 + ?k + 1 + 1 + 1 + 1 + ?l \<le> length r"
    using len by linarith+
  note s = put_byte_fits [OF b(1), of "byte_at ?n 8" d, unfolded drop_0]
    put_byte_fits [OF b(2), of "byte_at ?n 0" ?d1] put_string_fits [OF b(3), of ?d2]
    put_byte_fits [OF b(4), of "byte_at ?v 24" ?d3] put_byte_fits [OF b(5), of "byte_at ?v 16" ?d4]
    put_byte_fits [OF b(6), of "byte_at ?v 8" ?d5] put_byte_fits [OF b(7), of "byte_at ?v 0" ?d6]
    put_string_fits [OF b(8), of ?d7]
  have e: "?d7 @ h_value h = d @ pack_pair h"
    by (simp add: pack_pair_def enc_u16_def enc_u32_def Let_def)
  have k: "0 + 1 + 1 + ?k + 1 + 1 + 1 + 1 + ?l = length (pack_pair h)" by simp
  show ?thesis by (simp only: put_pair_def Let_def s run_simps e k)
qed

lemma put_pairs_fits:
  "packed_size hs \<le> length r \<Longrightarrow>
   put_pairs hs (d @ r, length d)
     = Inr ((d @ concat (map pack_pair hs)) @ drop (packed_size hs) r, length d + packed_size hs)"
proof (induction hs arbitrary: d r)
  case (Cons h hs)
  have "put_pair h (d @ r, length d)
      = Inr ((d @ pack_pair h) @ drop (length (pack_pair h)) r, length (d @ pack_pair h))"
    using Cons.prems by (intro put_pair_fits) simp
  then have "put_pairs (h # hs) (d @ r, length d)
      = put_pairs hs ((d @ pack_pair h) @ drop (length (pack_pair h)) r, length (d @ pack_pair h))"
    by simp
  also have "\<dots> = Inr (((d @ pack_pair h) @ concat (map pack_pair hs))
      @ drop (packed_size hs) (drop (length (pack_pair h)) r), length (d @ pack_pair h) + packed_size hs)"
    using Cons.prems by (intro Cons.IH) simp
  finally show ?case by (simp add: ac_simps)
qed simp

section \<open>Refinement\<close>

lemma buf_str_to_char_refines: "buf_str_to_char J E a w = Inr (ngx_str_to_char E a w)"
proof -
  have "copy_to (map J [0..<length a + 1]) 0 a = Inr (a @ [J (length a)])"
    by (simp add: copy_to_def)
  moreover have "store_at (a @ [x]) (length a) 0 = Inr (a @ [0])" for x
    by (simp add: store_at_def)
  ultimately show ?thesis
    by (auto simp: buf_str_to_char_def pnalloc_buf_def ngx_str_to_char_def store_at_def
        split: prod.split)
qed

lemma buf_pack_headers_refines:
  assumes "\<forall>h \<in> set pairs. sized h"
  shows "buf_pack_headers J E pairs w = Inr (ngx_http_coraza_pack_headers E pairs w)"
proof (cases "pack_total pairs 0")
  case None
  then show ?thesis by (simp add: buf_pack_headers_def ngx_http_coraza_pack_headers_def)
next
  case (Some tot)
  with pack_total_0 [OF assms] have t: "unat tot = packed_size pairs" by (auto split: if_splits)
  have "put_pairs pairs ([] @ map J [0..<packed_size pairs], length ([] :: bytes))
      = Inr (concat (map pack_pair pairs), packed_size pairs)"
    by (subst put_pairs_fits) simp_all
  with Some t show ?thesis
    by (auto simp: buf_pack_headers_def ngx_http_coraza_pack_headers_def pnalloc_buf_def
        split: prod.split)
qed

end
