(* ===== verification/Fuzz.thy ===== *)
theory Fuzz
  imports Buffer
begin

unbundle bit_operations_syntax

text \<open>
  The libFuzzer targets of \<open>src/fuzz\<close> as programs over the model of the functions
  they exercise: \<open>fuzz_pack_headers.c\<close>, \<open>fuzz_str_to_char.c\<close> and the pool of
  \<open>ngx_shim.h\<close>.  A failed \<open>assert\<close>, a read or a store outside an object and a
  \<open>free\<close> of something that is not allocated are values of the type \<open>fault\<close>; the
  theorems say that no input leads to one, which turns the campaigns of the
  fuzzers into statements about every input.
\<close>

section \<open>Sizes\<close>

text \<open>
  Positions and lengths are \<open>size_t\<close>: sums and differences wrap.
\<close>

definition add64 :: "nat \<Rightarrow> nat \<Rightarrow> nat" where
  "add64 a b = (a + b) mod 2 ^ 64"

definition sub64 :: "nat \<Rightarrow> nat \<Rightarrow> nat" where
  "sub64 a b = (a + (2 ^ 64 - b)) mod 2 ^ 64"

lemma add64_exact: "a + b < 2 ^ 64 \<Longrightarrow> add64 a b = a + b"
  unfolding add64_def by (rule mod_less)

lemma sub64_exact: "b \<le> a \<Longrightarrow> a < 2 ^ 64 \<Longrightarrow> sub64 a b = a - b"
proof -
  assume "b \<le> a" "a < 2 ^ 64"
  then have "a + (2 ^ 64 - b) = (a - b) + 2 ^ 64" "a - b < 2 ^ 64" by linarith+
  then show ?thesis unfolding sub64_def by (metis mod_add_self2 mod_less)
qed

section \<open>The pool of the shim\<close>

text \<open>
  \<open>ngx_pool_t\<close> of \<open>ngx_shim.h\<close> (its \<open>allocs[0 .. n)\<close>) with the blocks \<open>malloc\<close> has
  handed out and \<open>free\<close> has not taken back.  Whether the \<open>k\<close>-th \<open>malloc\<close> of a size
  succeeds is a parameter \<open>M\<close>.
\<close>

abbreviation (input) NGX_FUZZ_POOL_MAX :: nat where "NGX_FUZZ_POOL_MAX \<equiv> 8"

record fuzz_pool =
  fp_allocs :: "nat list"
  fp_live :: "nat list"
  fp_next :: nat

definition fuzz_pool_init :: fuzz_pool where
  "fuzz_pool_init = \<lparr>fp_allocs = [], fp_live = [], fp_next = 1\<rparr>"

definition ngx_pnalloc ::
  "(nat \<Rightarrow> nat \<Rightarrow> bool) \<Rightarrow> nat \<Rightarrow> fuzz_pool \<Rightarrow> nat option \<times> fuzz_pool" where
  "ngx_pnalloc M sz pool =
     (if length (fp_allocs pool) \<ge> NGX_FUZZ_POOL_MAX then (None, pool)
      else if \<not> M (fp_next pool) (if sz \<noteq> 0 then sz else 1) then (None, pool)
      else
        (let p = fp_next pool in
         (Some p, pool\<lparr>fp_allocs := fp_allocs pool @ [p], fp_live := p # fp_live pool,
                       fp_next := p + 1\<rparr>)))"

fun free_all :: "nat list \<Rightarrow> nat list \<Rightarrow> fault + nat list" where
  "free_all [] live = Inr live"
| "free_all (p # ps) live =
     (if p \<in> set live then free_all ps (remove1 p live) else Inl Bad_free)"

definition ngx_fuzz_pool_reset :: "fuzz_pool \<Rightarrow> fault + fuzz_pool" where
  "ngx_fuzz_pool_reset pool =
     bind_run (free_all (fp_allocs pool) (fp_live pool))
       (\<lambda>live. Inr (pool\<lparr>fp_allocs := [], fp_live := live\<rparr>))"

text \<open>
  The functions under test allocate through the pool of their argument.  The
  pool is recovered from the history of the run: the requests made so far,
  replayed on the zeroed pool the target starts with.
\<close>

fun pool_step :: "(nat \<Rightarrow> nat \<Rightarrow> bool) \<Rightarrow> event \<Rightarrow> fuzz_pool \<Rightarrow> fuzz_pool" where
  "pool_step M (Alloc n _) pool = snd (ngx_pnalloc M n pool)"
| "pool_step M _ pool = pool"

definition pool_after :: "(nat \<Rightarrow> nat \<Rightarrow> bool) \<Rightarrow> event list \<Rightarrow> fuzz_pool" where
  "pool_after M tr = fold (pool_step M) tr fuzz_pool_init"

definition shim_env :: "(nat \<Rightarrow> nat \<Rightarrow> bool) \<Rightarrow> env \<Rightarrow> env" where
  "shim_env M E = E\<lparr>alloc_ok := (\<lambda>tr n. fst (ngx_pnalloc M n (pool_after M tr)) \<noteq> None)\<rparr>"

section \<open>The target for \<open>ngx_str_to_char\<close>\<close>

text \<open>
  The result is the status of the target and the pool it leaves.
\<close>

definition fuzz_str_to_char ::
  "(nat \<Rightarrow> nat \<Rightarrow> bool) \<Rightarrow> (nat \<Rightarrow> u_char) \<Rightarrow> env \<Rightarrow> world \<Rightarrow> bytes \<Rightarrow> fault + int \<times> fuzz_pool" where
  "fuzz_str_to_char M J E w data =
     bind_run (buf_str_to_char J (shim_env M E) data (w\<lparr>trace := []\<rparr>)) (\<lambda>(out, w').
     let finish = bind_run (ngx_fuzz_pool_reset (pool_after M (trace w'))) (\<lambda>pool. Inr (0, pool)) in
     case out of
       None \<Rightarrow> finish
     | Some buf \<Rightarrow>
         bind_run
           (if length data > 0 then
              bind_run (slice_of buf 0 (length data)) (\<lambda>s. assert_run (s = data) (Inr ()))
            else Inr ())
           (\<lambda>_. bind_run (byte_of buf (length data)) (\<lambda>c. assert_run (c = 0) finish)))"

section \<open>The target for \<open>ngx_http_coraza_pack_headers\<close>\<close>

text \<open>
  The shifts and ors of the two decoders, on \<open>size_t\<close> values.
\<close>

definition u16_at :: "bytes \<Rightarrow> nat \<Rightarrow> fault + nat" where
  "u16_at buf p =
     bind_run (byte_of buf p) (\<lambda>a. bind_run (byte_of buf (p + 1)) (\<lambda>b.
       Inr (unat (push_bit 8 (ucast a :: size_t) OR ucast b))))"

definition u32_at :: "bytes \<Rightarrow> nat \<Rightarrow> fault + nat" where
  "u32_at buf p =
     bind_run (byte_of buf p) (\<lambda>a. bind_run (byte_of buf (p + 1)) (\<lambda>b.
     bind_run (byte_of buf (p + 2)) (\<lambda>c. bind_run (byte_of buf (p + 3)) (\<lambda>d.
       Inr (unat (push_bit 24 (ucast a :: size_t) OR push_bit 16 (ucast b)
                  OR push_bit 8 (ucast c) OR ucast d))))))"

abbreviation (input) MAX_PAIRS :: nat where "MAX_PAIRS \<equiv> 32"

text \<open>
  The parse loop.  \<open>count\<close> is the number of pairs stored so far; a store at
  \<open>pairs[count]\<close> past the array is a fault, and so is a name or a value that
  would point at bytes outside the input.
\<close>

function fuzz_parse ::
  "bytes \<Rightarrow> nat \<Rightarrow> nat \<Rightarrow> header list \<Rightarrow> nat \<Rightarrow> fault + header list \<times> nat" where
  "fuzz_parse data want pos pairs expected_total =
     (if length pairs < want \<and> add64 pos 4 \<le> length data then
        bind_run (u16_at data pos) (\<lambda>nlen0. bind_run (u16_at data (pos + 2)) (\<lambda>vlen0.
          let pos1 = add64 pos 4;
              nlen = (if nlen0 > sub64 (length data) pos1 then sub64 (length data) pos1 else nlen0);
              pos2 = add64 pos1 nlen;
              vlen = (if vlen0 > sub64 (length data) pos2 then sub64 (length data) pos2 else vlen0);
              pos3 = add64 pos2 vlen in
          if length pairs \<ge> MAX_PAIRS then Inl Out_of_bounds
          else
            bind_run (slice_of data pos1 nlen) (\<lambda>name. bind_run (slice_of data pos2 vlen) (\<lambda>val.
              fuzz_parse data want pos3 (pairs @ [\<lparr>h_name = name, h_value = val\<rparr>])
                (add64 expected_total (add64 (add64 6 nlen) vlen))))))
      else Inr (pairs, expected_total))"
  by pat_completeness auto

termination
  by (relation "measure (\<lambda>(_, want, _, pairs, _). want - length pairs)") auto

declare fuzz_parse.simps [simp del]

text \<open>The decode loop; the result is the final value of \<open>p\<close>.\<close>

fun fuzz_decode :: "bytes \<Rightarrow> nat \<Rightarrow> header list \<Rightarrow> nat \<Rightarrow> fault + nat" where
  "fuzz_decode out out_len [] p = Inr p"
| "fuzz_decode out out_len (h # hs) p =
     assert_run (add64 p 2 \<le> out_len) (bind_run (u16_at out p) (\<lambda>nlen.
       let p = add64 p 2 in
       assert_run (nlen = length (h_name h)) (assert_run (add64 p nlen \<le> out_len) (
         bind_run (if nlen \<noteq> 0 then bind_run (slice_of out p nlen)
                     (\<lambda>s. assert_run (s = h_name h) (Inr ())) else Inr ()) (\<lambda>_.
         let p = add64 p nlen in
         assert_run (add64 p 4 \<le> out_len) (bind_run (u32_at out p) (\<lambda>vlen.
           let p = add64 p 4 in
           assert_run (vlen = length (h_value h)) (assert_run (add64 p vlen \<le> out_len) (
             bind_run (if vlen \<noteq> 0 then bind_run (slice_of out p vlen)
                         (\<lambda>s. assert_run (s = h_value h) (Inr ())) else Inr ()) (\<lambda>_.
             fuzz_decode out out_len hs (add64 p vlen)))))))))))"

text \<open>\<open>LLVMFuzzerTestOneInput\<close>: its status and the pool it leaves.\<close>

definition fuzz_pack_headers ::
  "(nat \<Rightarrow> nat \<Rightarrow> bool) \<Rightarrow> (nat \<Rightarrow> u_char) \<Rightarrow> env \<Rightarrow> world \<Rightarrow> bytes \<Rightarrow> fault + int \<times> fuzz_pool" where
  "fuzz_pack_headers M J E w data =
     (if length data = 0 then Inr (0, fuzz_pool_init)
      else
        bind_run (byte_of data 0) (\<lambda>b.
        let want = (if unat b > MAX_PAIRS then MAX_PAIRS else unat b) in
        bind_run (fuzz_parse data want 1 [] 0) (\<lambda>(pairs, expected_total).
        bind_run (buf_pack_headers J (shim_env M E) pairs (w\<lparr>trace := []\<rparr>)) (\<lambda>(rc, w').
        let finish = bind_run (ngx_fuzz_pool_reset (pool_after M (trace w')))
                       (\<lambda>pool. Inr (0, pool)) in
        case rc of
          None \<Rightarrow> finish
        | Some (out, out_len) \<Rightarrow>
            if length pairs = 0 \<or> expected_total = 0 then
              assert_run (out = None) (assert_run (out_len = 0) finish)
            else
              (case out of
                 None \<Rightarrow> Inl Assert_failed
               | Some buf \<Rightarrow>
                   assert_run (unat out_len = expected_total) (
                     bind_run (fuzz_decode buf (unat out_len) pairs 0) (\<lambda>p.
                       assert_run (p = unat out_len) finish)))))))"

section \<open>Reading what the packer writes\<close>

lemma or_shifted: "b < 2 ^ k \<Longrightarrow> push_bit k a OR b = (a * 2 ^ k + b :: nat)"
proof -
  assume "b < 2 ^ k"
  then have "take_bit k b = b" by (simp add: take_bit_nat_eq_self)
  moreover have "push_bit k a + take_bit k b = push_bit k a OR take_bit k b"
    by (rule disjunctive_add_eq_or) (auto simp: bit_eq_iff bit_simps)
  ultimately show ?thesis by (simp add: push_bit_eq_mult)
qed

lemma unat_byte_less: "unat (a :: u_char) < 256"
  using unsigned_less [of a] by simp

lemma unat_push_byte:
  "k \<le> 24 \<Longrightarrow> unat (push_bit k (ucast (a :: u_char)) :: size_t) = push_bit k (unat a)"
proof -
  assume "k \<le> 24"
  then have "unat a * 2 ^ k < 256 * 2 ^ 24"
    using unat_byte_less [of a] by (intro mult_less_le_imp_less power_increasing) auto
  then have "push_bit k (unat a) < 2 ^ 64" by (simp add: push_bit_eq_mult)
  moreover have "unat (ucast a :: size_t) = unat a"
    using unat_byte_less [of a] by (simp add: unsigned_ucast_eq take_bit_nat_eq_self)
  ultimately show ?thesis
    by (simp only: unsigned_push_bit_eq) (simp add: take_bit_nat_eq_self)
qed

lemma unat_or_bytes:
  "unat (push_bit 8 (ucast a :: size_t) OR ucast b) = unat a * 256 + unat b"
  "unat (push_bit 24 (ucast a :: size_t) OR push_bit 16 (ucast b) OR push_bit 8 (ucast c) OR ucast d)
   = ((unat a * 256 + unat b) * 256 + unat c) * 256 + unat d"
  for a b c d :: u_char
proof -
  have l: "unat (ucast x :: size_t) = unat x" for x :: u_char
    using unat_push_byte [of 0 x] by simp
  have a: "unat a < 256" and b: "unat b < 256" and c: "unat c < 256" and d: "unat d < 256"
    by (rule unat_byte_less)+
  show "unat (push_bit 8 (ucast a :: size_t) OR ucast b) = unat a * 256 + unat b"
    using or_shifted [of "unat b" 8 "unat a"] b by (simp add: unsigned_or_eq unat_push_byte l)
  have "push_bit 8 (unat c) OR unat d = unat c * 256 + unat d"
    using or_shifted [of "unat d" 8 "unat c"] d by simp
  moreover have "push_bit 16 (unat b) OR (unat c * 256 + unat d)
      = unat b * 65536 + (unat c * 256 + unat d)"
    using or_shifted [of "unat c * 256 + unat d" 16 "unat b"] c d by simp
  moreover have "push_bit 24 (unat a) OR (unat b * 65536 + (unat c * 256 + unat d))
      = unat a * 16777216 + (unat b * 65536 + (unat c * 256 + unat d))"
    using or_shifted [of "unat b * 65536 + (unat c * 256 + unat d)" 24 "unat a"] b c d by simp
  ultimately show "unat (push_bit 24 (ucast a :: size_t) OR push_bit 16 (ucast b)
      OR push_bit 8 (ucast c) OR ucast d) = ((unat a * 256 + unat b) * 256 + unat c) * 256 + unat d"
    by (simp add: unsigned_or_eq unat_push_byte l or.assoc algebra_simps)
qed

lemma byte_of_append_plus [simp]: "byte_of (pre @ bs) (length pre + k) = byte_of bs k"
  by (simp add: byte_of_def nth_append)

lemma byte_of_append_0 [simp]: "byte_of (pre @ bs) (length pre) = byte_of bs 0"
  using byte_of_append_plus [of pre bs 0] by simp

lemma byte_of_Cons [simp]:
  "byte_of (b # bs) 0 = Inr b" "byte_of (b # bs) (Suc k) = byte_of bs k"
  "byte_of (b # bs) (numeral m) = byte_of bs (pred_numeral m)"
  by (simp_all add: byte_of_def nth_Cons')

lemma byte_of_in_range: "i < length buf \<Longrightarrow> \<exists>b. byte_of buf i = Inr b"
  by (simp add: byte_of_def)

lemma u16_at_enc:
  "n \<le> 0xffff \<Longrightarrow> u16_at (pre @ enc_u16 n @ rest) (length pre) = Inr n"
  using byte_of_append_plus [of pre "enc_u16 n @ rest" 1]
  by (simp add: u16_at_def enc_u16_def Let_def unat_or_bytes unat_byte_at)

lemma u32_at_enc:
  "n \<le> INT_MAX \<Longrightarrow> u32_at (pre @ enc_u32 n @ rest) (length pre) = Inr n"
  using byte_of_append_plus [of pre "enc_u32 n @ rest" 1]
    byte_of_append_plus [of pre "enc_u32 n @ rest" 2]
    byte_of_append_plus [of pre "enc_u32 n @ rest" 3] be_split_32 [of n]
  by (simp add: u32_at_def enc_u32_def Let_def unat_or_bytes unat_byte_at
      add.commute [of _ "length pre"])

lemma u16_at_in_range: "p + 1 < length buf \<Longrightarrow> \<exists>n. u16_at buf p = Inr n \<and> n \<le> 0xffff"
proof -
  assume "p + 1 < length buf"
  then obtain a b where "byte_of buf p = Inr a" "byte_of buf (p + 1) = Inr b"
    using byte_of_in_range [of p buf] byte_of_in_range [of "p + 1" buf] by auto
  then show ?thesis using unat_byte_less [of a] unat_byte_less [of b]
    by (simp add: u16_at_def unat_or_bytes)
qed

lemma length_enc [simp]: "length (enc_u16 n) = 2" "length (enc_u32 n) = 4"
  by (simp_all add: enc_u16_def enc_u32_def Let_def)

lemma fuzz_decode_pair:
  assumes h: "packable h" and len: "length (pre @ pack_pair h @ post) < 2 ^ 64"
  defines "out \<equiv> pre @ pack_pair h @ post"
  shows "fuzz_decode out (length out) (h # hs) (length pre)
       = fuzz_decode out (length out) hs (length (pre @ pack_pair h))"
proof -
  let ?n = "length (h_name h)" and ?v = "length (h_value h)" and ?p = "length pre"
  have fits: "?n \<le> 0xffff" "?v \<le> INT_MAX" using h by (simp_all add: packable_def)
  have lo: "length out = ?p + 6 + ?n + ?v + length post" by (simp add: out_def)
  have u16: "u16_at out ?p = Inr ?n"
    using u16_at_enc [OF fits(1), of pre] by (simp add: out_def pack_pair_def)
  have name: "slice_of out (?p + 2) ?n = Inr (h_name h)"
    using slice_of_append [of "pre @ enc_u16 ?n" "h_name h"] by (simp add: out_def pack_pair_def)
  have u32: "u32_at out (?p + 2 + ?n) = Inr ?v"
    using u32_at_enc [OF fits(2), of "pre @ enc_u16 ?n @ h_name h"]
    by (simp add: out_def pack_pair_def add.assoc)
  have val: "slice_of out (?p + 2 + ?n + 4) ?v = Inr (h_value h)"
    using slice_of_append [of "pre @ enc_u16 ?n @ h_name h @ enc_u32 ?v" "h_value h"]
    by (simp add: out_def pack_pair_def ac_simps)
  have s: "add64 ?p 2 = ?p + 2" "add64 (?p + 2) ?n = ?p + 2 + ?n"
    "add64 (?p + 2 + ?n) 4 = ?p + 2 + ?n + 4"
    "add64 (?p + 2 + ?n + 4) ?v = ?p + 2 + ?n + 4 + ?v"
    using len by (simp_all add: add64_exact)
  have "?p + 2 \<le> length out" "?p + 2 + ?n \<le> length out" "?p + 2 + ?n + 4 \<le> length out"
    "?p + 2 + ?n + 4 + ?v \<le> length out" "?p + 2 + ?n + 4 + ?v = length (pre @ pack_pair h)"
    by (simp_all add: lo)
  then show ?thesis
    by (simp only: fuzz_decode.simps Let_def u16 name u32 val s run_simps simp_thms if_cancel)
qed

lemma fuzz_decode_packed:
  assumes "\<forall>h \<in> set hs. packable h" and "length (pre @ concat (map pack_pair hs)) < 2 ^ 64"
  defines "out \<equiv> pre @ concat (map pack_pair hs)"
  shows "fuzz_decode out (length out) hs (length pre) = Inr (length out)"
  unfolding out_def using assms(1,2)
proof (induction hs arbitrary: pre)
  case Nil
  then show ?case by simp
next
  case (Cons h hs)
  then have "fuzz_decode (pre @ concat (map pack_pair (h # hs)))
      (length (pre @ concat (map pack_pair (h # hs)))) (h # hs) (length pre)
    = fuzz_decode (pre @ pack_pair h @ concat (map pack_pair hs))
      (length (pre @ pack_pair h @ concat (map pack_pair hs))) hs (length (pre @ pack_pair h))"
    using fuzz_decode_pair [of h pre "concat (map pack_pair hs)" hs] by simp
  also have "\<dots> = Inr (length (pre @ concat (map pack_pair (h # hs))))"
    using Cons.IH [of "pre @ pack_pair h"] Cons.prems by (simp add: add.assoc)
  finally show ?case .
qed

section \<open>What the parse loop builds\<close>

definition fuzz_pairs :: "header list \<Rightarrow> bool" where
  "fuzz_pairs hs \<longleftrightarrow> (\<forall>h \<in> set hs. length (h_name h) \<le> 0xffff \<and> length (h_value h) \<le> 0xffff)"

lemma slice_of_length: "slice_of buf i n = Inr s \<Longrightarrow> length s = n"
  by (auto simp: slice_of_def split: if_splits)

lemma packed_size_append [simp]: "packed_size (hs @ hs') = packed_size hs + packed_size hs'"
  by (induction hs) simp_all

lemma fuzz_parse_ok:
  assumes "length data < 2 ^ 63" and "want \<le> MAX_PAIRS"
    and "pos \<le> length data" and "length pairs \<le> want" and "fuzz_pairs pairs"
    and "packed_size pairs \<le> pos + 2 * length pairs"
  shows "\<exists>hs. fuzz_parse data want pos pairs (packed_size pairs) = Inr (hs, packed_size hs)
              \<and> fuzz_pairs hs \<and> length hs \<le> want"
  using assms(3-6)
proof (induction "want - length pairs" arbitrary: pos pairs rule: less_induct)
  case (less pairs pos)
  note big = assms(1)
  have a4: "add64 pos 4 = pos + 4" using less.prems(1) big by (intro add64_exact) simp
  show ?case
  proof (cases "length pairs < want \<and> pos + 4 \<le> length data")
    case False
    then have "fuzz_parse data want pos pairs (packed_size pairs) = Inr (pairs, packed_size pairs)"
      by (subst fuzz_parse.simps) (simp only: a4 if_False)
    with less.prems show ?thesis by blast
  next
    case True
    obtain n0 v0 where n0: "u16_at data pos = Inr n0" "n0 \<le> 0xffff"
      and v0: "u16_at data (pos + 2) = Inr v0" "v0 \<le> 0xffff"
      using True u16_at_in_range [of pos data] u16_at_in_range [of "pos + 2" data] by auto
    define n where "n = min n0 (length data - (pos + 4))"
    define v where "v = min v0 (length data - (pos + 4 + n))"
    define nm where "nm = take n (drop (pos + 4) data)"
    define vl where "vl = take v (drop (pos + 4 + n) data)"
    let ?h = "\<lparr>h_name = nm, h_value = vl\<rparr>" and ?pos = "pos + 4 + n + v"
    have b: "pos + 4 + n \<le> length data" "?pos \<le> length data" "n \<le> 0xffff" "v \<le> 0xffff"
      using True n0(2) v0(2) by (auto simp: n_def v_def)
    have sl: "slice_of data (pos + 4) n = Inr nm" "slice_of data (pos + 4 + n) v = Inr vl"
      using b by (simp_all add: slice_of_def nm_def vl_def)
    have nl: "length nm = n" "length vl = v" using sl by (auto dest: slice_of_length)
    have sub: "(if n0 > sub64 (length data) (pos + 4) then sub64 (length data) (pos + 4) else n0) = n"
      "(if v0 > sub64 (length data) (pos + 4 + n) then sub64 (length data) (pos + 4 + n) else v0) = v"
      using b True big by (auto simp: sub64_exact n_def v_def)
    have ps: "packed_size (pairs @ [?h]) = packed_size pairs + (6 + n + v)" by (simp add: nl)
    have add: "add64 (pos + 4) n = pos + 4 + n" "add64 (pos + 4 + n) v = ?pos"
      "add64 (packed_size pairs) (add64 (add64 6 n) v) = packed_size (pairs @ [?h])"
      using b big less.prems(2,4) assms(2) unfolding ps by (simp_all add: add64_exact)
    have "fuzz_parse data want pos pairs (packed_size pairs)
        = fuzz_parse data want ?pos (pairs @ [?h]) (packed_size (pairs @ [?h]))"
      by (subst fuzz_parse.simps)
        (use True assms(2) in \<open>simp only: Let_def a4 n0(1) v0(1) sub add sl run_simps if_True simp_thms\<close>, simp)
    moreover have "\<exists>hs. fuzz_parse data want ?pos (pairs @ [?h]) (packed_size (pairs @ [?h]))
        = Inr (hs, packed_size hs) \<and> fuzz_pairs hs \<and> length hs \<le> want"
      using True b less.prems by (intro less.hyps) (auto simp: fuzz_pairs_def nl)
    ultimately show ?thesis by simp
  qed
qed

section \<open>The pool between two inputs\<close>

text \<open>
  Blocks in the pool are live, each once: the reset frees every one of them and
  nothing else is left.
\<close>

definition pool_ok :: "fuzz_pool \<Rightarrow> bool" where
  "pool_ok pool \<longleftrightarrow> distinct (fp_allocs pool) \<and> fp_live pool = rev (fp_allocs pool) \<and>
     (\<forall>p \<in> set (fp_allocs pool). p < fp_next pool) \<and> length (fp_allocs pool) \<le> NGX_FUZZ_POOL_MAX"

lemma pool_ok_init: "pool_ok fuzz_pool_init"
  by (simp add: pool_ok_def fuzz_pool_init_def)

lemma pool_ok_alloc: "pool_ok pool \<Longrightarrow> pool_ok (snd (ngx_pnalloc M n pool))"
  by (auto simp: pool_ok_def ngx_pnalloc_def Let_def)

lemma pool_ok_after: "pool_ok (pool_after M tr)"
proof -
  have "pool_ok pool \<Longrightarrow> pool_ok (fold (pool_step M) tr pool)" for pool
  proof (induction tr arbitrary: pool)
    case (Cons e tr)
    then show ?case by (cases e) (simp_all add: pool_ok_alloc)
  qed simp
  then show ?thesis using pool_ok_init by (simp add: pool_after_def)
qed

lemma free_all_all: "distinct ps \<Longrightarrow> distinct live \<Longrightarrow> set ps \<subseteq> set live \<Longrightarrow>
  \<exists>rest. free_all ps live = Inr rest \<and> set rest = set live - set ps"
proof (induction ps arbitrary: live)
  case (Cons p ps)
  then have "\<exists>rest. free_all ps (remove1 p live) = Inr rest \<and>
      set rest = set (remove1 p live) - set ps"
    by (intro Cons.IH) (auto simp: set_remove1_eq)
  with Cons.prems show ?case by (auto simp: set_remove1_eq)
qed simp

lemma pool_reset_empties:
  assumes "pool_ok pool"
  shows "ngx_fuzz_pool_reset pool = Inr (pool\<lparr>fp_allocs := [], fp_live := []\<rparr>)"
proof -
  obtain rest where "free_all (fp_allocs pool) (fp_live pool) = Inr rest" "set rest = {}"
    using free_all_all [of "fp_allocs pool" "fp_live pool"] assms by (auto simp: pool_ok_def)
  then show ?thesis by (simp add: ngx_fuzz_pool_reset_def)
qed

text \<open>A run that ends regularly: status 0, and no block outlives it.\<close>

definition passes :: "fault + int \<times> fuzz_pool \<Rightarrow> bool" where
  "passes res \<longleftrightarrow> (case res of Inl _ \<Rightarrow> False
     | Inr (rc, pool) \<Rightarrow> rc = 0 \<and> fp_allocs pool = [] \<and> fp_live pool = [])"

lemma passes_finish:
  "passes (bind_run (ngx_fuzz_pool_reset (pool_after M tr)) (\<lambda>pool. Inr (0, pool)))"
  by (simp add: pool_reset_empties [OF pool_ok_after] passes_def)

section \<open>The targets pass\<close>

lemma fuzz_str_to_char_passes: "passes (fuzz_str_to_char M J E w data)"
proof -
  obtain out w' where r: "ngx_str_to_char (shim_env M E) data (w\<lparr>trace := []\<rparr>) = (out, w')"
    by fastforce
  then have "out = None \<or> out = Some (data @ [0])"
    by (auto simp: ngx_str_to_char_def Let_def split: prod.splits if_splits)
  moreover have "slice_of (data @ [0]) 0 (length data) = Inr data"
    by (simp add: slice_of_def)
  ultimately show ?thesis using passes_finish [of M "trace w'"]
    by (auto simp: fuzz_str_to_char_def buf_str_to_char_refines r)
qed

lemma fuzz_pairs_packable:
  "fuzz_pairs hs \<Longrightarrow> h \<in> set hs \<Longrightarrow> packable h \<and> sized h"
  by (auto simp: fuzz_pairs_def packable_def sized_def)

lemma fuzz_pack_checks:
  assumes p: "fuzz_pairs pairs" "pairs \<noteq> []"
    and r: "ngx_http_coraza_pack_headers E pairs w = (Some (out, out_len), w')"
  obtains buf where "out = Some buf" "unat out_len = packed_size pairs"
    "fuzz_decode buf (unat out_len) pairs 0 = Inr (unat out_len)"
proof -
  have q: "\<forall>h \<in> set pairs. packable h" "\<forall>h \<in> set pairs. sized h"
    using fuzz_pairs_packable p(1) by blast+
  from pack_headers_SomeE [OF q(2) r] have len: "packed_size pairs \<le> INT_MAX"
    "unat out_len = packed_size pairs"
    and b: "(case out of None \<Rightarrow> [] | Some b \<Rightarrow> b) = concat (map pack_pair pairs)"
    by blast+
  have "concat (map pack_pair pairs) \<noteq> []"
    using p(2) packed_size_eq_0 [of pairs] length_packed [of pairs] by fastforce
  then have "out = Some (concat (map pack_pair pairs))" using b by (cases out) auto
  moreover have "fuzz_decode (concat (map pack_pair pairs)) (unat out_len) pairs 0 = Inr (unat out_len)"
    using fuzz_decode_packed [OF q(1), of "[]"] len by (simp add: length_packed)
  ultimately show thesis using that len(2) by blast
qed

lemma fuzz_pack_headers_passes:
  assumes "length data < 2 ^ 63"
  shows "passes (fuzz_pack_headers M J E w data)"
proof (cases data)
  case Nil
  then show ?thesis by (simp add: fuzz_pack_headers_def passes_def fuzz_pool_init_def)
next
  case (Cons b bs)
  define want where "want = (if unat b > MAX_PAIRS then MAX_PAIRS else unat b)"
  have "want \<le> MAX_PAIRS" by (simp add: want_def)
  then obtain hs where hs: "fuzz_parse data want 1 [] 0 = Inr (hs, packed_size hs)" "fuzz_pairs hs"
    using fuzz_parse_ok [of data want 1 "[]"] assms Cons by (auto simp: fuzz_pairs_def)
  obtain rc w' where r: "ngx_http_coraza_pack_headers (shim_env M E) hs (w\<lparr>trace := []\<rparr>) = (rc, w')"
    by fastforce
  let ?fin = "bind_run (ngx_fuzz_pool_reset (pool_after M (trace w'))) (\<lambda>pool. Inr (0, pool))"
  have "\<forall>h \<in> set hs. sized h" using hs(2) fuzz_pairs_packable by blast
  then have b: "buf_pack_headers J (shim_env M E) hs (w\<lparr>trace := []\<rparr>) = Inr (rc, w')"
    using r by (simp add: buf_pack_headers_refines)
  have run: "fuzz_pack_headers M J E w data = (case rc of None \<Rightarrow> ?fin | Some (out, out_len) \<Rightarrow>
      if length hs = 0 \<or> packed_size hs = 0
      then assert_run (out = None) (assert_run (out_len = 0) ?fin)
      else (case out of None \<Rightarrow> Inl Assert_failed | Some buf \<Rightarrow>
        assert_run (unat out_len = packed_size hs) (
          bind_run (fuzz_decode buf (unat out_len) hs 0) (\<lambda>p. assert_run (p = unat out_len) ?fin))))"
    using hs(1) b Cons unfolding want_def by (simp add: fuzz_pack_headers_def Let_def)
  show ?thesis
  proof (cases rc)
    case None
    then show ?thesis unfolding run by (simp add: passes_finish)
  next
    case (Some a)
    obtain out out_len where a: "a = (out, out_len)" by fastforce
    show ?thesis
    proof (cases "hs = []")
      case True
      then have "out = None \<and> out_len = 0"
        using r Some a by (simp add: ngx_http_coraza_pack_headers_def)
      then show ?thesis unfolding run by (simp add: Some a True passes_finish)
    next
      case False
      have r': "ngx_http_coraza_pack_headers (shim_env M E) hs (w\<lparr>trace := []\<rparr>)
          = (Some (out, out_len), w')" using r Some a by simp
      obtain buf where "out = Some buf" "unat out_len = packed_size hs"
        "fuzz_decode buf (unat out_len) hs 0 = Inr (unat out_len)"
        using fuzz_pack_checks [OF hs(2) False r'] .
      then show ?thesis unfolding run using False
        by (simp add: Some a passes_finish packed_size_eq_0)
    qed
  qed
qed

text \<open>
  C14: both fuzz targets pass on every input of every size an object can have, under
  every pattern of allocation failures and whatever the fresh memory holds.  The
  functions under test run on blocks of exactly the size they ask for, in which every
  store and every copy is checked against the bounds: none falls outside the block, and
  no byte outside the input, the pair array or the block is read.  No assertion fails
  (in particular the packed buffer decodes to the very pairs of the input and its length
  is the expected total), the targets return 0, and the reset between two inputs frees
  every block exactly once.
\<close>

theorem fuzz_targets_pass:
  assumes "length data < 2 ^ 63"
  shows "passes (fuzz_pack_headers M J E w data) \<and> passes (fuzz_str_to_char M J E w data)"
  using fuzz_pack_headers_passes [OF assms] fuzz_str_to_char_passes by blast

theorem fuzz_targets_pass_witness:
  "passes (fuzz_pack_headers (\<lambda>_ _. True) (\<lambda>_. 170) sample_env sample_world
     [1, 0, 1, 0, 9, 97, 98, 99]) \<and>
   fuzz_parse [1, 0, 1, 0, 9, 97, 98, 99] 1 1 [] 0
     = Inr ([\<lparr>h_name = [97], h_value = [98, 99]\<rparr>], 9)"
proof
  show "passes (fuzz_pack_headers (\<lambda>_ _. True) (\<lambda>_. 170) sample_env sample_world
     [1, 0, 1, 0, 9, 97, 98, 99])"
    using fuzz_targets_pass [of "[1, 0, 1, 0, 9, 97, 98, 99]" "\<lambda>_ _. True" "\<lambda>_. 170" sample_env sample_world]
    by simp
  define D where "D = ([1, 0, 1, 0, 9, 97, 98, 99] :: bytes)"
  have D: "length D = 8" "u16_at D 1 = Inr 1" "u16_at D (1 + 2) = Inr 9"
    "slice_of D 5 1 = Inr [97]" "slice_of D 6 2 = Inr [98, 99]"
    by (simp_all add: D_def u16_at_def slice_of_def)
  have p: "add64 1 4 = 5" "add64 5 1 = 6" "add64 6 2 = 8" "add64 8 4 = 12" "add64 6 1 = 7"
    "add64 7 2 = 9" "add64 0 9 = 9" "sub64 8 5 = 3" "sub64 8 6 = 2"
    by (simp_all add: add64_exact sub64_exact)
  have n: "(0 :: nat) < 1" "(5 :: nat) \<le> 8" "\<not> (3 :: nat) < 1" "(2 :: nat) < 9" "\<not> (32 :: nat) \<le> 0"
    "\<not> (12 :: nat) \<le> 8" by simp_all
  show "fuzz_parse [1, 0, 1, 0, 9, 97, 98, 99] 1 1 [] 0
     = Inr ([\<lparr>h_name = [97], h_value = [98, 99]\<rparr>], 9)"
    unfolding D_def [symmetric]
    by (subst fuzz_parse.simps, subst fuzz_parse.simps)
      (simp only: D p n Let_def run_simps list.size append_Nil simp_thms if_True if_False)
qed

text \<open>
  The empty input: one byte is allocated and the terminator is all it holds, so
  the conversion never gives a null pointer for it.
\<close>

lemma str_to_char_empty:
  "buf_str_to_char J (shim_env (\<lambda>_ _. True) E) [] (w\<lparr>trace := []\<rparr>)
   = Inr (Some [0], w\<lparr>trace := [Alloc 1 True]\<rparr>)"
  by (simp add: buf_str_to_char_refines ngx_str_to_char_def palloc_def shim_env_def pool_after_def
      ngx_pnalloc_def fuzz_pool_init_def emit_def)

end
