(* ===== verification/Spec2Isabelle.thy ===== *)
theory Spec2Isabelle
  imports Site Phases Response Fuzz
begin

text \<open>
  \<^bold>\<open>The program.\<close>  The repository is an nginx module that connects nginx to the
  web application firewall libcoraza.  The module reads rules from the nginx
  configuration, compiles them into WAFs when a worker starts, opens a
  transaction for every request to a location with \<open>coraza on\<close>, shows the request
  and the response to the engine phase by phase, and enforces what the engine
  decides.  Its code is the C under \<open>src/src\<close>.

  \<^bold>\<open>What is outside.\<close>  nginx, libcoraza, the file system and the dynamic loader are
  not part of the sources.  They are arguments of the model: the record \<open>env\<close> for
  a request and \<open>penv\<close> for a process hold one function per external call, which
  is applied to the whole history of external events and the arguments of the
  call.  Every call appends an event, so such a record describes any behaviour,
  failures and changing answers included; the theorems hold for all of them.  The
  few theorems that rely on documented behaviour name it: \<open>fresh_transactions\<close> and
  \<open>fresh_handles\<close> (libcoraza gives a new handle that is null or not in use),
  \<open>serves\<close> and \<open>file_has\<close> (a file is read in pieces of any positive size),
  \<open>cooperative\<close> and \<open>nothing_fails\<close> (nothing outside fails), the last two for
  theorems that say that an operation succeeds.

  \<^bold>\<open>The parts of the program and their theories.\<close>

  \<^item> \<open>Prelude\<close>, \<open>Base\<close>, \<open>Samples\<close>: machine types and status codes; the structures of
    \<open>ngx_http_coraza_common.h\<close> and of nginx; \<open>world\<close>, the state of one request: the
    request itself, the location configuration, the contexts in the pool by
    address, the module context, the registered cleanups and the history; the
    wrappers of \<open>ngx_http_coraza_dl.c\<close> around the calls on transactions; concrete
    values for witnesses.
  \<^item> \<open>Utils\<close> (\<open>ngx_http_coraza_utils.c\<close>): \<open>ngx_str_to_char\<close> and
    \<open>ngx_http_coraza_pack_headers\<close> with its sums at 64 bits.  The decoder is the one
    the fuzz target \<open>src/fuzz/fuzz_pack_headers.c\<close> asserts.  Shown: the round trip,
    and exactly which headers are accepted.
  \<^item> \<open>Buffer\<close> (\<open>ngx_http_coraza_utils.c\<close>): the same two functions on memory: blocks of
    the size that was asked for with indeterminate bytes, the pointer walk of the
    packer, and stores that are a fault outside the block.  Shown: no store leaves the
    block, and what it holds in the end is the byte string of \<open>Utils\<close>, for all headers
    whose lengths fit a \<open>size_t\<close>.
  \<^item> \<open>Fuzz\<close> (\<open>src/fuzz\<close>): the two libFuzzer targets with their assertions, around the
    functions of \<open>Buffer\<close>, and the allocator of \<open>ngx_shim.h\<close>.  A failed assertion, an
    access outside an object and a bad \<open>free\<close> are values.  Shown: no input leads to
    one.
  \<^item> \<open>Core\<close> (\<open>ngx_http_coraza_module.c\<close>, \<open>ngx_http_coraza_log.c\<close>, the inline functions
    of \<open>ngx_http_coraza_common.h\<close>): \<open>ngx_http_coraza_create_ctx\<close>,
    \<open>ngx_http_coraza_process_intervention\<close>, \<open>ngx_http_coraza_poll_after_process\<close>,
    \<open>ngx_http_coraza_log_handler\<close>, \<open>ngx_http_coraza_cleanup\<close>.  Shown: when a verdict
    lets a request pass, and that a redirect cannot inject headers.  \<open>Core\<close> also
    has the relation \<open>prim\<close> of primitive effects and the interface \<open>handler\<close>, which
    every handler and filter below is shown to implement.
  \<^item> \<open>Rewrite\<close> (\<open>ngx_http_coraza_rewrite.c\<close>), \<open>Pre_Access\<close>
    (\<open>ngx_http_coraza_pre_access.c\<close>), \<open>Phases\<close>: the two phase handlers.  Shown: unless
    an error page is being served, they let a request go on only after the engine has
    seen all of its headers and its whole body, byte for byte (or said it does not want
    the body), and has not denied; a refusal of the engine ends in a 500; a body is handed over once; the answers nginx can get; and, for both
    handlers together, what one transaction has seen when the content phase starts.
  \<^item> \<open>Header_Filter\<close> (\<open>ngx_http_coraza_header_filter.c\<close>): the resolvers of the
    headers nginx synthesises, behind the interface \<open>response_resolver\<close>, and the
    filter.  Shown: the engine sees the same list of headers, each once and in order,
    whichever way they are submitted, what a denial replaces the response by and which
    headers it removes, and when headers are held back.
  \<^item> \<open>Body_Filter\<close> (\<open>ngx_http_coraza_body_filter.c\<close>): inspection of memory and file
    buffers, the delayed response, phase 4, release and replacement.  Shown:
    nothing leaves before phase 4 has passed or the kept content exceeds the cap, what
    is released is complete and in order, and the memory kept is bounded.
  \<^item> \<open>Response\<close>: both filters along a whole response, the header filter once and the
    body filter chain by chain.  Shown: a held-back response that is not denied is
    delivered once, complete, after phases 3 and 4.
  \<^item> \<open>Rules_Scan\<close> (\<open>ngx_http_coraza_module.c\<close>, \<open>ngx_http_coraza_rules_scan*\<close>): the
    streaming scan for refused directives against a line-based reference: equal on
    texts without NUL bytes and without blanks after a continuation backslash; a family
    of texts with such blanks on which the scan misses the directive.
  \<^item> \<open>Process\<close>, \<open>Config\<close>, \<open>Configured\<close> (\<open>ngx_http_coraza_module.c\<close>): \<open>cycle\<close>, the state
    of a process, with location configurations and rules arrays by address; the
    directives, creation, inheritance and validation of configurations, and the
    registration of handlers and filters; the
    configurations nginx can reach, as a step relation, and their invariant, kept
    by every operation through the interface \<open>conf_operation\<close>.
  \<^item> \<open>Dl\<close> (\<open>ngx_http_coraza_dl.c\<close>, \<open>dynlib.h\<close>): loading of the library, all or nothing:
    the pointer behind every call the connector makes is set, or the library is closed.
  \<^item> \<open>Waf\<close> (\<open>ngx_http_coraza_module.c\<close>): compilation, sharing and release of WAFs by
    \<open>ngx_http_coraza_init_process\<close> and \<open>ngx_http_coraza_exit_process\<close>, followed
    through \<open>engine\<close>, the state of libcoraza after a history of calls.
  \<^item> \<open>Lifecycle\<close>: the composition.  The handlers as steps nginx takes in any order,
    with redirects, subrequests and callbacks between them, until the pool is
    destroyed; the calls of the connector follow the protocol of a transaction, and
    every transaction is freed once.  From the configuration to the request: a
    transaction is opened on a WAF with exactly the rules of its location.
  \<^item> \<open>Site\<close> (\<open>ngx_http_coraza_module.c\<close>): the tables \<open>ngx_http_coraza_commands\<close>,
    \<open>ngx_http_coraza_ctx\<close> and \<open>ngx_http_coraza_module\<close>, and the calls nginx makes
    through them while it reads a site: operations on blocks and directives in the
    order of the file, the merge of the tree of blocks, registration, the start of a
    worker.  Shown: the settings every block ends up with, and that the transactions
    opened for requests to a block are opened on the rules written around it, in order.

  \<^bold>\<open>How the parts interact.\<close>  The configuration phase leaves a \<open>cycle\<close>; the start of a
  worker turns its rules into WAF handles in the location configurations; a
  request sees one of these configurations as \<open>mcf\<close> and the main handle as
  \<open>main_waf\<close>.  Within a request the components share the context: the rewrite
  handler creates it, every other handler acts on the one it finds, and the
  cleanup of the pool ends it.

  \<^bold>\<open>Bounds and loops.\<close>  No definition has fuel.  Loops over lists are structural, the
  file loops of \<open>Pre_Access\<close> and \<open>Body_Filter\<close> have termination proofs (each round
  reads at least one byte or leaves), and the reading loop of \<open>Config\<close>, which ends
  only if the file does, is a partial function whose result is proved to exist for
  every readable file.  Lengths passed to C \<open>int\<close> parameters go through \<open>c_int\<close>,
  which wraps; sums of the header packer are 64-bit words.

  \<^bold>\<open>Not modelled.\<close>  Log messages and debug macros (\<open>ddebug.h\<close>), which have no effect on
  the results; the typedefs of function pointers in \<open>ngx_http_coraza_dl.c\<close> (the
  pointers are the map \<open>dl_ptrs\<close>); the Windows branch of \<open>dynlib.h\<close>, which forwards
  to another loader; the test suites.  Of nginx itself only the documented use of
  the tables is written down: a directive calls the handler its name has, blocks
  are merged from the outside in, \<open>on\<close> and \<open>off\<close> set a flag once.  Branches of the preprocessor
  are taken as for a current nginx on Linux with HTTP/2, HTTP/3, gzip and direct
  I/O.  A nested run of the handlers inside a call of the finalizer is represented
  by the same steps after it.
\<close>

end
